(* ===== verification/Prelude.thy ===== *)
theory Prelude
  imports Main "HOL-Library.Word" "HOL-Library.AList" "HOL-Library.Multiset"
begin

text \<open>
  Shared vocabulary of the development.

  A Go function returns, or it panics: \<open>'a outcome\<close> is \<open>Ret\<close> of the results or \<open>Panic\<close> of the
  reason (an unrecovered panic of a goroutine ends the whole process).  A pair \<open>(value, error)\<close> of
  which one half is nil is the sum \<open>go_error + value\<close>.  Byte slices are lists of 8-bit words; a nil
  slice and an empty one are the same list.  A \<open>uuid.UUID\<close>, a 16-byte array, is a 128-bit word
  read in big-endian order.

  The theory also holds the collections of simplification rules the other theories fill, and the
  lemmas on association lists that several of them use.
\<close>

section \<open>Values, errors and panics\<close>

type_synonym byte = "8 word"
type_synonym bytes = "8 word list"
type_synonym uuid = "128 word"
type_synonym ip = string

datatype go_error =
    WrongPrivateKey
  | ErrNew string
  | LibError string

datatype panic =
    NilDeref
  | NilFuncCall
  | SliceBounds
  | IntnArgument
  | SendOnClosed
  | Unreachable
  | FatalExit

datatype 'a outcome = Ret 'a | Panic panic

named_theorems outcome_simps "evaluation of sequenced outcomes"
named_theorems wf_intros "operations keep the shape of the node's tables"
named_theorems frame_simps "what an operation leaves unchanged"

fun obind :: "'a outcome \<Rightarrow> ('a \<Rightarrow> 'b outcome) \<Rightarrow> 'b outcome" where
  "obind (Ret x) f = f x"
| "obind (Panic p) f = Panic p"

lemma obind_eq_Ret [outcome_simps]:
  "obind m f = Ret y \<longleftrightarrow> (\<exists>x. m = Ret x \<and> f x = Ret y)"
  by (cases m) auto

lemma obind_eq_Panic [outcome_simps]:
  "obind m f = Panic p \<longleftrightarrow> m = Panic p \<or> (\<exists>x. m = Ret x \<and> f x = Panic p)"
  by (cases m) auto

lemma obind_RetE:
  assumes "obind m f = Ret y"
  obtains x where "m = Ret x" and "f x = Ret y"
  using assms by (cases m) auto

lemma obind_assoc: "obind (obind m f) g = obind m (\<lambda>x. obind (f x) g)"
  by (cases m) auto

lemma obind_Ret [simp]: "obind m Ret = m"
  by (cases m) auto

lemma obind_cong [fundef_cong]:
  "m = m' \<Longrightarrow> (\<And>x. m' = Ret x \<Longrightarrow> f x = g x) \<Longrightarrow> obind m f = obind m' g"
  by (cases m') auto

definition panics :: "'a outcome \<Rightarrow> bool" where
  "panics m = (case m of Ret _ \<Rightarrow> False | Panic _ \<Rightarrow> True)"

lemma panics_simps [simp]: "\<not> panics (Ret x)" "panics (Panic p)"
  by (simp_all add: panics_def)

lemma not_panics_iff: "\<not> panics m \<longleftrightarrow> (\<exists>x. m = Ret x)"
  by (cases m) auto

text \<open>A loop over a slice whose body may panic, with the loop's variables as the accumulator.\<close>

fun ofold :: "('a \<Rightarrow> 's \<Rightarrow> 's outcome) \<Rightarrow> 'a list \<Rightarrow> 's \<Rightarrow> 's outcome" where
  "ofold f [] s = Ret s"
| "ofold f (x # xs) s = obind (f x s) (ofold f xs)"

lemma ofold_append: "ofold f (xs @ ys) s = obind (ofold f xs s) (ofold f ys)"
proof (induction xs arbitrary: s)
  case Nil
  then show ?case by simp
next
  case (Cons x xs)
  then have "ofold f (xs @ ys) = (\<lambda>u. obind (ofold f xs u) (ofold f ys))"
    by (intro ext)
  then show ?case by (simp add: obind_assoc)
qed

lemma ofold_invariant:
  assumes "ofold f xs s = Ret t" and "I s"
    and "\<And>x u v. x \<in> set xs \<Longrightarrow> I u \<Longrightarrow> f x u = Ret v \<Longrightarrow> I v"
  shows "I t"
  using assms
proof (induction xs arbitrary: s)
  case Nil
  then show ?case by simp
next
  case (Cons x xs)
  then obtain u where "f x s = Ret u" and "ofold f xs u = Ret t"
    by (auto simp: outcome_simps)
  with Cons show ?case by (metis list.set_intros)
qed

lemma ofold_no_panic:
  assumes "I s"
    and "\<And>x u. x \<in> set xs \<Longrightarrow> I u \<Longrightarrow> \<exists>v. f x u = Ret v \<and> I v"
  shows "\<exists>t. ofold f xs s = Ret t \<and> I t"
  using assms
proof (induction xs arbitrary: s)
  case Nil
  then show ?case by simp
next
  case (Cons x xs)
  obtain u where u: "f x s = Ret u" "I u"
    using Cons.prems by force
  with Cons.IH [of u] Cons.prems show ?case by force
qed

lemma fold_invariant_on:
  assumes "\<And>x a. x \<in> set xs \<Longrightarrow> I a \<Longrightarrow> I (f x a)" and "I a"
  shows "I (fold f xs a)"
  using assms by (induction xs arbitrary: a) simp_all

section \<open>Association lists\<close>

abbreviation keys :: "('k \<times> 'v) list \<Rightarrow> 'k list" where
  "keys m \<equiv> map fst m"

lemma length_update_AList:
  "length (AList.update k v m) = (if k \<in> set (keys m) then length m else Suc (length m))"
  by (induction m) auto

lemma length_delete_AList:
  "distinct (keys m) \<Longrightarrow>
   length (AList.delete k m) = (if k \<in> set (keys m) then length m - 1 else length m)"
proof (induction m)
  case Nil
  then show ?case by simp
next
  case (Cons p m)
  then show ?case by (cases m) (auto simp: AList.delete_eq filter_id_conv intro: arg_cong [where f = length])
qed

lemma set_update_AList:
  "distinct (keys m) \<Longrightarrow>
   set (AList.update k v m) = insert (k, v) {p \<in> set m. fst p \<noteq> k}"
  by (induction m) (auto simp: rev_image_eqI)

lemma set_delete_AList: "set (AList.delete k m) = {p \<in> set m. fst p \<noteq> k}"
  by (auto simp: AList.delete_eq)

end
