(* ===== verification/HostPort.thy ===== *)
theory HostPort
  imports Prelude
begin

text \<open>
  \<open>net.SplitHostPort\<close> of Go's standard library, by which the handlers of \<open>p2p/handlers_tcp.go\<close> read the address of
  the peer from a connection: \<open>host:port\<close> or \<open>[host]:port\<close>, where the host of the first form has no colon.
\<close>

fun index_of :: "char \<Rightarrow> string \<Rightarrow> nat option" where
  "index_of c [] = None"
| "index_of c (x # xs) = (if x = c then Some 0 else map_option Suc (index_of c xs))"

definition last_index_of :: "char \<Rightarrow> string \<Rightarrow> nat option" where
  "last_index_of c s = map_option (\<lambda>i. length s - Suc i) (index_of c (rev s))"

definition addr_err :: "string \<Rightarrow> go_error + 'a" where
  "addr_err why = Inl (LibError why)"

definition stray_brackets :: "string \<Rightarrow> string \<Rightarrow> go_error option" where
  "stray_brackets after_host after_port =
     (if CHR ''['' \<in> set after_host then Some (LibError ''unexpected '[' in address'')
      else if CHR '']'' \<in> set after_port then Some (LibError ''unexpected ']' in address'')
      else None)"

definition SplitHostPort :: "string \<Rightarrow> go_error + (string \<times> string)" where
  "SplitHostPort hostport =
     (case last_index_of CHR '':'' hostport of
        None \<Rightarrow> addr_err ''missing port in address''
      | Some i \<Rightarrow>
          if hostport ! 0 = CHR ''[''
          then
            (case index_of CHR '']'' hostport of
               None \<Rightarrow> addr_err ''missing ']' in address''
             | Some e \<Rightarrow>
                 if e + 1 = length hostport then addr_err ''missing port in address''
                 else if e + 1 = i
                 then (case stray_brackets (drop 1 hostport) (drop (e + 1) hostport) of
                         Some err \<Rightarrow> Inl err
                       | None \<Rightarrow> Inr (take (e - 1) (drop 1 hostport), drop (i + 1) hostport))
                 else if hostport ! (e + 1) = CHR '':'' then addr_err ''too many colons in address''
                 else addr_err ''missing port in address'')
          else if CHR '':'' \<in> set (take i hostport) then addr_err ''too many colons in address''
          else (case stray_brackets hostport hostport of
                  Some err \<Rightarrow> Inl err
                | None \<Rightarrow> Inr (take i hostport, drop (i + 1) hostport)))"

lemma index_none: "c \<notin> set xs \<Longrightarrow> index_of c xs = None"
  by (induction xs) auto

lemma index_of_append_notin: "c \<notin> set xs \<Longrightarrow> index_of c (xs @ c # ys) = Some (length xs)"
  by (induction xs) auto

lemma last_index_of_colon: "c \<notin> set ys \<Longrightarrow> last_index_of c (xs @ c # ys) = Some (length xs)"
  by (simp add: last_index_of_def index_of_append_notin)

text \<open>An address of the first form is taken apart as it was put together.\<close>

lemma SplitHostPort_plain:
  assumes "set host \<inter> {CHR '':'', CHR ''['', CHR '']''} = {}"
    and "set port \<inter> {CHR '':'', CHR ''['', CHR '']''} = {}"
  shows "SplitHostPort (host @ CHR '':'' # port) = Inr (host, port)"
proof -
  have "(host @ CHR '':'' # port) ! 0 \<noteq> CHR ''[''"
    using assms(1) by (cases host) auto
  then show ?thesis
    using assms by (simp add: SplitHostPort_def last_index_of_colon stray_brackets_def)
qed

lemma SplitHostPort_no_colon:
  "CHR '':'' \<notin> set a \<Longrightarrow> SplitHostPort a = Inl (LibError ''missing port in address'')"
proof -
  assume "CHR '':'' \<notin> set a"
  then have "index_of CHR '':'' (rev a) = None"
    by (simp add: index_none)
  then show ?thesis
    by (simp add: SplitHostPort_def last_index_of_def addr_err_def)
qed

end
