(* ===== verification/Base64.thy ===== *)
theory Base64
  imports HostPort
begin

text \<open>
  \<open>base64.URLEncoding\<close> of Go's standard library, the form of message keys in the HTTP interface: padded, with the
  URL-safe alphabet; the decoder skips line breaks, insists on the padding and does not look at the unused bits of
  the last quantum.
\<close>

section \<open>Encoding and decoding\<close>

definition alphabet :: string where
  "alphabet = ''ABCDEFGHIJKLMNOPQRSTUVWXYZabcdefghijklmnopqrstuvwxyz0123456789-_''"

definition sextet_char :: "nat \<Rightarrow> char" where
  "sextet_char n = alphabet ! (n mod 64)"

definition char_sextet :: "char \<Rightarrow> nat option" where
  "char_sextet c = index_of c alphabet"

abbreviation pad :: char where
  "pad \<equiv> CHR ''=''"

fun URL_EncodeToString :: "bytes \<Rightarrow> string" where
  "URL_EncodeToString [] = []"
| "URL_EncodeToString [a] =
     (let v = unat a * 65536
      in [sextet_char (v div 262144), sextet_char (v div 4096), pad, pad])"
| "URL_EncodeToString [a, b] =
     (let v = unat a * 65536 + unat b * 256
      in [sextet_char (v div 262144), sextet_char (v div 4096), sextet_char (v div 64), pad])"
| "URL_EncodeToString (a # b # c # rest) =
     (let v = unat a * 65536 + unat b * 256 + unat c
      in [sextet_char (v div 262144), sextet_char (v div 4096), sextet_char (v div 64), sextet_char v]
         @ URL_EncodeToString rest)"

fun decode_quanta :: "string \<Rightarrow> bytes option" where
  "decode_quanta [] = Some []"
| "decode_quanta (p # q # r # t # rest) =
     (case (char_sextet p, char_sextet q, char_sextet r, char_sextet t) of
        (Some w, Some x, Some y, Some z) \<Rightarrow>
          (let v = w * 262144 + x * 4096 + y * 64 + z
           in map_option (\<lambda>bs. [word_of_nat (v div 65536), word_of_nat (v div 256), word_of_nat v] @ bs)
                (decode_quanta rest))
      | (Some w, Some x, Some y, None) \<Rightarrow>
          (if t = pad \<and> rest = []
           then (let v = w * 262144 + x * 4096 + y * 64
                 in Some [word_of_nat (v div 65536), word_of_nat (v div 256)])
           else None)
      | (Some w, Some x, None, None) \<Rightarrow>
          (if r = pad \<and> t = pad \<and> rest = []
           then Some [word_of_nat ((w * 262144 + x * 4096) div 65536)]
           else None)
      | _ \<Rightarrow> None)"
| "decode_quanta s = None"

definition URL_DecodeString :: "string \<Rightarrow> go_error + bytes" where
  "URL_DecodeString s =
     (case decode_quanta (filter (\<lambda>c. c \<noteq> CHR 0x0A \<and> c \<noteq> CHR 0x0D) s) of
        None \<Rightarrow> Inl (LibError ''illegal base64 data'')
      | Some bs \<Rightarrow> Inr bs)"

section \<open>Round trip\<close>

lemma index_of_nth: "distinct xs \<Longrightarrow> i < length xs \<Longrightarrow> index_of (xs ! i) xs = Some i"
proof (induction xs arbitrary: i)
  case Nil
  then show ?case by simp
next
  case (Cons x xs)
  then show ?case by (cases i) auto
qed

lemma alphabet_facts:
  "length alphabet = 64" "distinct alphabet" "pad \<notin> set alphabet" "CHR 0x0A \<notin> set alphabet" "CHR 0x0D \<notin> set alphabet"
  unfolding alphabet_def by simp_all

lemma char_sextet_char [simp]: "char_sextet (sextet_char n) = Some (n mod 64)"
  unfolding char_sextet_def sextet_char_def by (rule index_of_nth) (simp_all add: alphabet_facts)

lemma char_sextet_pad [simp]: "char_sextet pad = None"
  unfolding char_sextet_def by (rule index_none) (simp add: alphabet_facts)

lemma sextet_char_set: "sextet_char n \<in> set alphabet"
  unfolding sextet_char_def by (rule nth_mem) (simp add: alphabet_facts)

lemma no_line_breaks:
  "set (URL_EncodeToString bs) \<subseteq> insert pad (set alphabet)"
  by (induction bs rule: URL_EncodeToString.induct) (auto simp: Let_def sextet_char_set)

lemma byte_lt: "unat (b :: 8 word) < 256"
  using unsigned_less [of b] by simp

lemma sextets_recombine:
  fixes v :: nat
  assumes "v < 16777216"
  shows "v div 262144 mod 64 * 262144 + v div 4096 mod 64 * 4096 + v div 64 mod 64 * 64 + v mod 64 = v"
proof -
  define y1 where "y1 = v div 64"
  define y2 where "y2 = y1 div 64"
  define y3 where "y3 = y2 div 64"
  have div: "v div 4096 = y2" "v div 262144 = y3"
    by (simp_all add: y1_def y2_def y3_def flip: div_mult2_eq)
  have "y3 < 64"
    using assms div(2) by (simp add: less_mult_imp_div_less flip: div(2))
  moreover have "v = 64 * y1 + v mod 64" "y1 = 64 * y2 + y1 mod 64" "y2 = 64 * y3 + y2 mod 64"
    by (simp_all add: y1_def y2_def y3_def)
  ultimately show ?thesis
    by (simp add: div flip: y1_def)
qed

lemma word_of_byte: "n mod 256 = unat b \<Longrightarrow> (word_of_nat n :: 8 word) = b"
proof -
  assume n: "n mod 256 = unat b"
  have "(word_of_nat n :: 8 word) = word_of_nat (n mod 256)"
    by (rule word_unat_eq_iff [THEN iffD2]) (simp add: unat_of_nat)
  then show ?thesis
    by (simp add: n)
qed

lemma byte_wraps: "256 * (x :: 8 word) = 0"
proof -
  have "(256 :: 8 word) = 0"
    by simp
  then show ?thesis
    by (simp only: mult_zero_left)
qed

lemma low_byte: "c < 256 \<Longrightarrow> (x * 256 + c) div 256 = x \<and> (x * 256 + c) mod 256 = (c :: nat)"
  by simp

lemma bytes_of_v:
  fixes a b c :: nat
  assumes "a < 256" and "b < 256" and "c < 256"
  shows "(a * 65536 + b * 256 + c) div 65536 mod 256 = a" "(a * 65536 + b * 256 + c) div 256 mod 256 = b"
    "(a * 65536 + b * 256 + c) mod 256 = c" "a * 65536 + b * 256 + c < 16777216"
proof -
  let ?v = "a * 65536 + b * 256 + c"
  have v: "?v = (a * 256 + b) * 256 + c"
    by simp
  have "?v div 256 = a * 256 + b" "?v mod 256 = c"
    unfolding v using low_byte [OF assms(3), of "a * 256 + b"] by (rule conjunct1) (rule conjunct2, rule low_byte [OF assms(3)])
  moreover have "?v div 65536 = ?v div 256 div 256"
    by (simp flip: div_mult2_eq)
  ultimately show "?v div 65536 mod 256 = a" "?v div 256 mod 256 = b" "?v mod 256 = c"
    using assms by simp_all
  show "?v < 16777216"
    using assms by simp
qed

lemma quantum:
  "v < 16777216 \<Longrightarrow>
   decode_quanta ([sextet_char (v div 262144), sextet_char (v div 4096), sextet_char (v div 64), sextet_char v] @ rest) =
     map_option (\<lambda>bs. [word_of_nat (v div 65536), word_of_nat (v div 256), word_of_nat v] @ bs) (decode_quanta rest)"
  using sextets_recombine [of v] by (cases "decode_quanta rest") (simp_all add: Let_def)

lemma decode_encode_quanta: "decode_quanta (URL_EncodeToString bs) = Some bs"
proof (induction bs rule: URL_EncodeToString.induct)
  case 1
  then show ?case by simp
next
  case (2 a)
  let ?v = "unat a * 65536 + 0 * 256 + 0"
  note v = bytes_of_v [OF byte_lt [of a], of 0 0]
  have zero: "?v div 64 mod 64 = 0" "?v mod 64 = 0"
    by (simp_all add: mod_eq_0_iff_dvd)
  have "?v div 262144 mod 64 * 262144 + ?v div 4096 mod 64 * 4096 = ?v"
    using sextets_recombine [OF v(4)] unfolding zero by (simp only: mult_zero_left add_0_right)
  moreover have "unat a div 4 mod 64 = unat a div 4"
    using byte_lt [of a] by simp
  ultimately show ?case
    using v(1) by (simp add: Let_def word_of_byte)
next
  case (3 a b)
  let ?v = "unat a * 65536 + unat b * 256 + 0"
  note v = bytes_of_v [OF byte_lt [of a] byte_lt [of b], of 0]
  have zero: "?v mod 64 = 0"
    by (simp add: mod_eq_0_iff_dvd)
  have "?v div 262144 mod 64 * 262144 + ?v div 4096 mod 64 * 4096 + ?v div 64 mod 64 * 64 = ?v"
    using sextets_recombine [OF v(4)] unfolding zero by (simp only: add_0_right)
  moreover have "?v div 262144 mod 64 = ?v div 262144"
    using v(4) by (simp add: less_mult_imp_div_less)
  ultimately show ?case
    using v(1,2) by (simp add: Let_def word_of_byte byte_wraps)
next
  case (4 a b c rest)
  let ?v = "unat a * 65536 + unat b * 256 + unat c"
  note v = bytes_of_v [OF byte_lt [of a] byte_lt [of b] byte_lt [of c]]
  show ?case
    unfolding URL_EncodeToString.simps Let_def quantum [OF v(4)]
      word_of_byte [OF v(1)] word_of_byte [OF v(2)] word_of_byte [OF v(3)]
    by (simp add: 4)
qed

lemma length_encode: "length (URL_EncodeToString bs) = 4 * ((length bs + 2) div 3)"
proof (induction bs rule: URL_EncodeToString.induct)
  case (4 a b c rest)
  have "(length (a # b # c # rest) + 2) div 3 = Suc ((length rest + 2) div 3)"
  proof -
    have "length (a # b # c # rest) + 2 = (length rest + 2) + 3"
      by simp
    then show ?thesis
      by (simp only: div_add_self2)
  qed
  with 4 show ?case
    by (simp add: Let_def)
qed (simp_all add: Let_def)

text \<open>
  Every key that the HTTP interface prints is read back to the same bytes, and a 48-byte key is printed
  with 64 characters.
\<close>

theorem key_text_roundtrip:
  "URL_DecodeString (URL_EncodeToString bs) = Inr bs \<and> length (URL_EncodeToString bs) = 4 * ((length bs + 2) div 3)"
proof -
  have "filter (\<lambda>c. c \<noteq> CHR 0x0A \<and> c \<noteq> CHR 0x0D) (URL_EncodeToString bs) = URL_EncodeToString bs"
    using no_line_breaks [of bs] alphabet_facts by (auto simp: filter_id_conv)
  then show ?thesis
    by (simp add: URL_DecodeString_def decode_encode_quanta length_encode)
qed

end
