(* ===== verification/MutexMap.thy ===== *)
theory MutexMap
  imports Prelude
begin

text \<open>
  The guarded map of \<open>p2p/mutexmap.go\<close> and the random choice of \<open>p2p/utils.go\<close>.

  A \<open>MutexMap\<close> is the association list of its Go map; every method body runs under the lock, so each
  operation is one step.  Go leaves the order of \<open>range\<close> over a map open: \<open>iterate\<close> takes
  the order in which the runtime visits the keys as an argument (\<open>range_entries\<close> ignores an argument
  that is no order of the map's keys, so every order and nothing else can occur).

  The locale \<open>guarded_table\<close> states what the rest of the node relies on, over the map's view as a
  partial function; \<open>mm\<close> interprets it on the operations of the code.
\<close>

section \<open>The operations\<close>

type_synonym ('k, 'v) mutexmap = "('k \<times> 'v) list"

definition NewMutexMap :: "('k, 'v) mutexmap" where
  "NewMutexMap = []"

definition getValue :: "('k, 'v) mutexmap \<Rightarrow> 'k \<Rightarrow> 'v option" where
  "getValue m key = map_of m key"

definition getSize :: "('k, 'v) mutexmap \<Rightarrow> nat" where
  "getSize m = length m"

definition setValue :: "('k, 'v) mutexmap \<Rightarrow> 'k \<Rightarrow> 'v \<Rightarrow> ('k, 'v) mutexmap" where
  "setValue m key value = AList.update key value m"

definition deleteValue :: "('k, 'v) mutexmap \<Rightarrow> 'k \<Rightarrow> ('k, 'v) mutexmap" where
  "deleteValue m key = AList.delete key m"

definition range_keys :: "'k list \<Rightarrow> ('k, 'v) mutexmap \<Rightarrow> 'k list" where
  "range_keys ord m = (if mset ord = mset (keys m) then ord else keys m)"

definition range_entries :: "'k list \<Rightarrow> ('k, 'v) mutexmap \<Rightarrow> ('k \<times> 'v) list" where
  "range_entries ord m =
     List.map_filter (\<lambda>k. map_option (Pair k) (map_of m k)) (range_keys ord m)"

definition iterate :: "('k \<Rightarrow> 'v \<Rightarrow> 's \<Rightarrow> 's) \<Rightarrow> 'k list \<Rightarrow> ('k, 'v) mutexmap \<Rightarrow> 's \<Rightarrow> 's" where
  "iterate process ord m acc = fold (\<lambda>(k, v). process k v) (range_entries ord m) acc"

definition wf_map :: "('k, 'v) mutexmap \<Rightarrow> bool" where
  "wf_map m = distinct (keys m)"

section \<open>What a client may rely on\<close>

locale guarded_table =
  fixes fresh :: "'m"
    and get :: "'m \<Rightarrow> 'k \<Rightarrow> 'v option"
    and size_of :: "'m \<Rightarrow> nat"
    and put :: "'m \<Rightarrow> 'k \<Rightarrow> 'v \<Rightarrow> 'm"
    and drop_key :: "'m \<Rightarrow> 'k \<Rightarrow> 'm"
    and entries :: "'k list \<Rightarrow> 'm \<Rightarrow> ('k \<times> 'v) list"
    and ok :: "'m \<Rightarrow> bool"
  assumes get_fresh: "get fresh = Map.empty"
    and get_put: "get (put m k v) = (get m)(k \<mapsto> v)"
    and get_drop: "get (drop_key m k) = (get m)(k := None)"
    and finite_get: "finite (dom (get m))"
    and size_card: "ok m \<Longrightarrow> size_of m = card (dom (get m))"
    and entries_graph: "ok m \<Longrightarrow> set (entries ord m) = Map.graph (get m)"
    and entries_distinct: "ok m \<Longrightarrow> distinct (map fst (entries ord m))"
    and ok_fresh: "ok fresh"
    and ok_put: "ok m \<Longrightarrow> ok (put m k v)"
    and ok_drop: "ok m \<Longrightarrow> ok (drop_key m k)"
begin

lemma read_own_write: "get (put m k v) k = Some v"
  by (simp add: get_put)

lemma read_other: "k' \<noteq> k \<Longrightarrow> get (put m k v) k' = get m k'"
  by (simp add: get_put)

lemma read_dropped: "get (drop_key m k) k = None"
  by (simp add: get_drop)

lemma size_fresh: "size_of fresh = 0"
  by (simp add: size_card ok_fresh get_fresh)

lemma size_put:
  assumes "ok m"
  shows "size_of (put m k v) = (if get m k = None then Suc (size_of m) else size_of m)"
proof -
  have "dom (get (put m k v)) = insert k (dom (get m))"
    by (simp add: get_put)
  then show ?thesis
    using assms finite_get [of m] ok_put [OF assms, of k v]
    by (auto simp: size_card card_insert_if domIff)
qed

lemma size_drop:
  assumes "ok m"
  shows "size_of (drop_key m k) = (if get m k = None then size_of m else size_of m - 1)"
proof -
  have "dom (get (drop_key m k)) = dom (get m) - {k}"
    by (auto simp: get_drop)
  then show ?thesis
    using assms finite_get [of m] ok_drop [OF assms, of k]
    by (auto simp: size_card domIff)
qed

lemma size_zero_iff: "ok m \<Longrightarrow> size_of m = 0 \<longleftrightarrow> get m = Map.empty"
  using finite_get [of m] by (auto simp: size_card)

lemma admission_bound: "ok m \<Longrightarrow> size_of m < n \<Longrightarrow> size_of (put m k v) \<le> n"
  by (simp add: size_put)

lemma entries_mem: "ok m \<Longrightarrow> (k, v) \<in> set (entries ord m) \<longleftrightarrow> get m k = Some v"
  by (simp add: entries_graph Map.graph_def)

lemma entries_length: "ok m \<Longrightarrow> length (entries ord m) = size_of m"
proof -
  assume ok: "ok m"
  have "set (map fst (entries ord m)) = dom (get m)"
    using entries_mem [OF ok] by force
  then show ?thesis
    using distinct_card [OF entries_distinct [OF ok, of ord]] by (simp add: size_card ok)
qed

lemma entries_order_irrelevant: "ok m \<Longrightarrow> mset (entries ord m) = mset (entries ord' m)"
  using entries_graph entries_distinct
  by (metis distinct_map set_eq_iff_mset_eq_distinct)

end

section \<open>The code keeps the contract\<close>

lemma range_keys_perm: "mset (range_keys ord m) = mset (keys m)"
  by (simp add: range_keys_def)

lemma set_range_keys: "set (range_keys ord m) = set (keys m)"
  using range_keys_perm [of ord m] by (metis set_mset_mset)

lemma distinct_range_keys: "wf_map m \<Longrightarrow> distinct (range_keys ord m)"
  using range_keys_perm [of ord m] unfolding wf_map_def by (metis mset_eq_imp_distinct_iff)

lemma set_range_entries: "set (range_entries ord m) = Map.graph (map_of m)"
proof -
  have "set (range_entries ord m) = {(k, v). k \<in> set (keys m) \<and> map_of m k = Some v}"
    by (force simp: range_entries_def List.map_filter_def set_range_keys [simplified])
  also have "\<dots> = Map.graph (map_of m)"
    by (auto simp: Map.graph_def dest: map_of_SomeD intro: rev_image_eqI)
  finally show ?thesis .
qed

lemma keys_range_entries: "map fst (range_entries ord m) = range_keys ord m"
proof -
  have "map fst (List.map_filter (\<lambda>k. map_option (Pair k) (map_of m k)) ks) = ks"
    if "set ks \<subseteq> set (keys m)" for ks
    using that
  proof (induction ks)
    case Nil
    then show ?case by (simp add: List.map_filter_simps)
  next
    case (Cons k ks)
    then have "map_of m k \<noteq> None"
      by (simp add: map_of_eq_None_iff)
    with Cons show ?case
      by (auto simp: List.map_filter_simps)
  qed
  then show ?thesis by (simp add: range_entries_def set_range_keys del: set_map)
qed

lemma getValue_map_of: "getValue m = map_of m"
  by (simp add: getValue_def fun_eq_iff)

interpretation mm: guarded_table NewMutexMap getValue getSize setValue deleteValue range_entries wf_map
proof (unfold_locales, goal_cases)
  case 1
  show ?case by (simp add: NewMutexMap_def getValue_map_of)
next
  case (2 m k v)
  show ?case by (simp add: setValue_def getValue_map_of update_conv')
next
  case (3 m k)
  show ?case by (simp add: deleteValue_def getValue_map_of delete_conv')
next
  case (4 m)
  show ?case by (simp add: getValue_map_of finite_dom_map_of)
next
  case (5 m)
  then show ?case
    by (simp add: getSize_def getValue_map_of wf_map_def dom_map_of_conv_image_fst distinct_map card_image
        distinct_card [symmetric])
next
  case (6 m ord)
  show ?case by (simp add: set_range_entries getValue_map_of)
next
  case (7 m ord)
  then show ?case by (simp add: keys_range_entries distinct_range_keys)
next
  case 8
  show ?case by (simp add: wf_map_def NewMutexMap_def)
next
  case (9 m k v)
  then show ?case by (simp add: wf_map_def setValue_def distinct_update)
next
  case (10 m k)
  then show ?case by (simp add: wf_map_def deleteValue_def distinct_delete)
qed

lemmas map_laws [simp] = mm.read_own_write mm.read_dropped mm.size_fresh
declare mm.ok_fresh [wf_intros] mm.ok_put [wf_intros] mm.ok_drop [wf_intros]

section \<open>A random entry\<close>

text \<open>
  \<open>rand.Intn\<close> panics on an argument that is not positive; \<open>draw\<close> is the generator's next output.
  The loop of \<open>pick\<close> counts down over the entries in range order.
\<close>

definition rand_Intn :: "nat \<Rightarrow> nat \<Rightarrow> nat outcome" where
  "rand_Intn draw n = (if n = 0 then Panic IntnArgument else Ret (draw mod n))"

fun pick_loop :: "('k \<times> 'v) list \<Rightarrow> nat \<Rightarrow> ('k \<times> 'v) outcome" where
  "pick_loop [] i = Panic Unreachable"
| "pick_loop ((k, v) # es) i = (if i = 0 then Ret (k, v) else pick_loop es (i - 1))"

definition pick :: "'k list \<Rightarrow> nat \<Rightarrow> ('k, 'v) mutexmap \<Rightarrow> ('k \<times> 'v) outcome" where
  "pick ord draw m = obind (rand_Intn draw (length m)) (pick_loop (range_entries ord m))"

lemma pick_loop_nth: "i < length es \<Longrightarrow> pick_loop es i = Ret (es ! i)"
  by (induction es i rule: pick_loop.induct) (auto simp: nth_Cons')

lemma length_range_entries: "wf_map m \<Longrightarrow> length (range_entries ord m) = length m"
  using mm.entries_length [of m ord] by (simp add: getSize_def)

lemma pick_nth:
  "wf_map m \<Longrightarrow> m \<noteq> [] \<Longrightarrow> pick ord draw m = Ret (range_entries ord m ! (draw mod length m))"
  by (simp add: pick_def rand_Intn_def pick_loop_nth length_range_entries)

lemma pick_empty: "pick ord draw [] = Panic IntnArgument"
  by (simp add: pick_def rand_Intn_def)

lemma pick_member:
  assumes "wf_map m" and "pick ord draw m = Ret (k, v)"
  shows "getValue m k = Some v"
proof (cases "m = []")
  case True
  with assms(2) show ?thesis by (simp add: pick_empty)
next
  case False
  with assms have "(k, v) = range_entries ord m ! (draw mod length m)"
    by (simp add: pick_nth)
  moreover have "range_entries ord m ! (draw mod length m) \<in> set (range_entries ord m)"
    by (rule nth_mem) (simp add: length_range_entries assms(1) False)
  ultimately show ?thesis
    using mm.entries_mem [OF assms(1)] by metis
qed

text \<open>The choice is fair: each entry is picked by exactly one of the generator's values below the size, in every range order.\<close>

theorem pick_uniform:
  assumes "wf_map m" and "getValue m k = Some v"
  shows "\<exists>!draw. draw < getSize m \<and> pick ord draw m = Ret (k, v)"
proof -
  let ?es = "range_entries ord m"
  have es: "length ?es = length m" "distinct ?es"
    using mm.entries_distinct [OF assms(1), of ord] by (simp_all add: length_range_entries assms(1) distinct_map)
  have "m \<noteq> []"
    using assms(2) by (auto simp: getValue_def)
  then have pick: "pick ord i m = Ret (k, v) \<longleftrightarrow> ?es ! i = (k, v)" if "i < length m" for i
    using that by (simp add: pick_nth [OF assms(1)])
  obtain i where "i < length m" "?es ! i = (k, v)"
    using assms mm.entries_mem [OF assms(1)] es(1) by (metis in_set_conv_nth)
  then show ?thesis
    using pick es nth_eq_iff_index_eq [OF es(2)] by (metis getSize_def)
qed

theorem pick_uniform_witness:
  "\<exists>!draw. draw < getSize [(CHR ''x'', True), (CHR ''y'', False)] \<and>
     pick [] draw [(CHR ''x'', True), (CHR ''y'', False)] = Ret (CHR ''y'', False)"
  by (rule pick_uniform) (simp_all add: wf_map_def getValue_def)

end
