(* ===== verification/BigBytes.thy ===== *)
theory BigBytes
  imports Prelude
begin

text \<open>
  The parts of \<open>math/big\<close> and of the 16-byte array type \<open>uuid.UUID\<close> that \<open>p2p/codec.go\<close> computes with:
  \<open>Int.Bytes\<close> (big-endian, no leading zero byte), \<open>Int.SetBytes\<close>, \<open>Int.Exp\<close> on pointers that may be
  nil, and the byte view \<open>input[:]\<close> of a UUID.
\<close>

section \<open>Big-endian bytes\<close>

fun nat_be :: "nat \<Rightarrow> bytes" where
  "nat_be n = (if n = 0 then [] else nat_be (n div 256) @ [word_of_nat (n mod 256)])"

declare nat_be.simps [simp del]

definition be_nat :: "bytes \<Rightarrow> nat" where
  "be_nat bs = foldl (\<lambda>a b. a * 256 + unat b) 0 bs"

lemma nat_be_0 [simp]: "nat_be 0 = []"
  by (simp add: nat_be.simps)

lemma be_nat_Nil [simp]: "be_nat [] = 0"
  by (simp add: be_nat_def)

lemma be_nat_snoc [simp]: "be_nat (bs @ [b]) = be_nat bs * 256 + unat b"
  by (simp add: be_nat_def)

lemma unat_byte_less: "unat (b :: byte) < 256"
proof -
  have "unat b < 2 ^ LENGTH(8)"
    by (rule unsigned_less)
  then show ?thesis by simp
qed

lemma be_nat_nat_be [simp]: "be_nat (nat_be n) = n"
proof (induction n rule: nat_be.induct)
  case (1 n)
  then show ?case
    by (cases "n = 0") (simp_all add: nat_be.simps [of n] unat_of_nat take_bit_eq_mod)
qed

lemma be_nat_bound: "be_nat bs < 256 ^ length bs"
proof (induction bs rule: rev_induct)
  case Nil
  then show ?case by simp
next
  case (snoc b bs)
  have "be_nat bs * 256 + unat b < (be_nat bs + 1) * 256"
    using unat_byte_less [of b] by simp
  also have "\<dots> \<le> 256 ^ length bs * 256"
    using snoc by (intro mult_right_mono) simp_all
  finally show ?case by simp
qed

lemma length_nat_be_le: "length (nat_be n) \<le> k \<longleftrightarrow> n < 256 ^ k"
proof (induction n arbitrary: k rule: nat_be.induct)
  case (1 n)
  show ?case
  proof (cases "n = 0")
    case True
    then show ?thesis by simp
  next
    case False
    then have len: "length (nat_be n) = Suc (length (nat_be (n div 256)))"
      by (simp add: nat_be.simps [of n])
    show ?thesis
    proof (cases k)
      case 0
      with len False show ?thesis by simp
    next
      case (Suc j)
      have "n < 256 ^ Suc j \<longleftrightarrow> n div 256 < 256 ^ j"
        by (simp add: less_mult_imp_div_less div_less_iff_less_mult mult.commute)
      with Suc len "1" [OF False, of j] show ?thesis by simp
    qed
  qed
qed

lemma length_nat_be_Suc: "length (nat_be n) = Suc k \<longleftrightarrow> 256 ^ k \<le> n \<and> n < 256 ^ Suc k"
  using length_nat_be_le [of n k] length_nat_be_le [of n "Suc k"] by linarith

lemma be_nat_zeros: "be_nat (replicate k 0 @ bs) = be_nat bs"
proof -
  have "foldl (\<lambda>a b. a * 256 + unat b) 0 (replicate k (0 :: byte)) = (0 :: nat)"
    by (induction k) auto
  then show ?thesis by (simp add: be_nat_def)
qed

lemma nat_be_byte: "nat_be (unat b) = (if b = 0 then [] else [b])"
proof (cases "b = 0")
  case True
  then show ?thesis by simp
next
  case False
  then have "unat b \<noteq> 0"
    by (simp add: unat_eq_zero)
  then show ?thesis
    using unat_byte_less [of b] False by (simp add: nat_be.simps [of "unat b"])
qed

lemma nat_be_be_nat: "nat_be (be_nat bs) = dropWhile (\<lambda>b. b = 0) bs"
proof (induction bs rule: rev_induct)
  case Nil
  then show ?case by simp
next
  case (snoc b bs)
  show ?case
  proof (cases "be_nat bs = 0")
    case True
    with snoc have "dropWhile (\<lambda>b. b = 0) bs = []"
      by simp
    then have "\<forall>x \<in> set bs. x = 0"
      unfolding dropWhile_eq_Nil_conv .
    then have "dropWhile (\<lambda>b. b = 0) (bs @ [b]) = (if b = 0 then [] else [b])"
      by simp
    with True show ?thesis
      by (simp add: nat_be_byte)
  next
    case False
    have "nat_be (be_nat (bs @ [b])) = nat_be (be_nat bs) @ [b]"
      using False unat_byte_less [of b] by (subst nat_be.simps) simp
    moreover have "\<exists>x \<in> set bs. x \<noteq> 0"
    proof (rule ccontr)
      assume "\<not> ?thesis"
      then have "dropWhile (\<lambda>b. b = 0) bs = []"
        by (simp add: dropWhile_eq_Nil_conv)
      with snoc have "nat_be (be_nat bs) = []"
        by simp
      then have "be_nat (nat_be (be_nat bs)) = be_nat []"
        by (rule arg_cong)
      with False show False by simp
    qed
    ultimately show ?thesis
      using snoc by (auto simp: dropWhile_append)
  qed
qed

section \<open>Big integers\<close>

definition big_Bytes :: "int \<Rightarrow> bytes" where
  "big_Bytes x = nat_be (nat \<bar>x\<bar>)"

definition big_SetBytes :: "bytes \<Rightarrow> nat" where
  "big_SetBytes bs = be_nat bs"

text \<open>
  \<open>Exp(x, y, m)\<close> for a non-negative exponent: \<open>x ** y mod |m|\<close>, and \<open>x ** y\<close> when the modulus is nil or 0.
  The base is dereferenced, the modulus is checked for nil.
\<close>

definition big_Exp :: "int option \<Rightarrow> nat \<Rightarrow> int option \<Rightarrow> int outcome" where
  "big_Exp x y m =
     (case x of
        None \<Rightarrow> Panic NilDeref
      | Some b \<Rightarrow>
          (case m of
             None \<Rightarrow> Ret (b ^ y)
           | Some q \<Rightarrow> if q = 0 then Ret (b ^ y) else Ret (b ^ y mod \<bar>q\<bar>)))"

lemma big_Exp_bounds:
  "big_Exp x y (Some q) = Ret r \<Longrightarrow> q \<noteq> 0 \<Longrightarrow> 0 \<le> r \<and> r < \<bar>q\<bar>"
  by (auto simp: big_Exp_def split: option.splits)

lemma big_Exp_Exp:
  assumes "big_Exp x a m = Ret u" and "big_Exp x b m = Ret w"
  shows "big_Exp (Some w) a m = big_Exp (Some u) b m"
proof -
  obtain g where g: "x = Some g"
    using assms by (cases x) (auto simp: big_Exp_def)
  have comm: "(g ^ b) ^ a = (g ^ a) ^ b"
    by (simp add: mult.commute flip: power_mult)
  then show ?thesis
    using assms g by (auto simp: big_Exp_def power_mod split: option.splits if_splits)
qed

section \<open>UUIDs as byte arrays\<close>

definition uuid_bytes :: "uuid \<Rightarrow> bytes" where
  "uuid_bytes u = (let bs = nat_be (unat u) in replicate (16 - length bs) 0 @ bs)"

definition bytes_uuid :: "bytes \<Rightarrow> uuid" where
  "bytes_uuid bs = word_of_nat (be_nat bs)"

definition uuid_Nil :: uuid where
  "uuid_Nil = 0"

lemma length_uuid_bytes [simp]: "length (uuid_bytes u) = 16"
proof -
  have "unat u < 2 ^ LENGTH(128)"
    by (rule unsigned_less)
  then have "length (nat_be (unat u)) \<le> 16"
    by (simp add: length_nat_be_le)
  then show ?thesis by (simp add: uuid_bytes_def Let_def)
qed

lemma bytes_uuid_bytes [simp]: "bytes_uuid (uuid_bytes u) = u"
  by (simp add: bytes_uuid_def uuid_bytes_def Let_def be_nat_zeros)

lemma uuid_bytes_inj: "uuid_bytes u = uuid_bytes v \<longleftrightarrow> u = v"
  by (metis bytes_uuid_bytes)

lemma uuid_bytes_bytes_uuid:
  assumes "length bs = 16"
  shows "uuid_bytes (bytes_uuid bs) = bs"
proof -
  have "unat (bytes_uuid bs) = be_nat bs"
    using be_nat_bound [of bs] assms
    by (simp add: bytes_uuid_def unat_of_nat take_bit_eq_mod)
  moreover have "replicate (16 - length (dropWhile (\<lambda>b. b = 0) bs)) 0 = takeWhile (\<lambda>b. b = 0) bs"
  proof -
    have "16 - length (dropWhile (\<lambda>b. b = 0) bs) = length (takeWhile (\<lambda>b. b = 0) bs)"
      using assms by (metis add_diff_cancel_right' length_append takeWhile_dropWhile_id)
    then show ?thesis
      by (metis (mono_tags, lifting) replicate_eqI set_takeWhileD)
  qed
  ultimately show ?thesis
    by (simp add: uuid_bytes_def Let_def nat_be_be_nat)
qed

end
