(* ===== verification/Sealing.thy ===== *)
theory Sealing
  imports Codec
begin

text \<open>
  What the encryption functions of \<open>p2p/codec.go\<close> guarantee: decryption inverts encryption under the
  documented behaviour of GCM and ecc, the keys for which symmetric encryption is possible at all, the
  rejection of foreign keys, and the input on which \<open>SymmetricDecrypt\<close> panics.
\<close>

section \<open>Symmetric encryption\<close>

definition aes_key :: "int \<Rightarrow> bool" where
  "aes_key k \<longleftrightarrow> length (big_Bytes k) \<in> {16, 24, 32}"

lemma aes_NewCipher_None: "aes_NewCipher (big_Bytes k) = None \<longleftrightarrow> aes_key k"
  by (simp add: aes_NewCipher_def aes_key_def)

lemma length_rand_fill [simp]: "length (rand_fill L t n) = n"
  by (simp add: rand_fill_def)

text \<open>A box of \<open>SymmetricEncrypt\<close> is its nonce, then the sealed message.\<close>

lemma SymmetricEncrypt_Inr:
  "SymmetricEncrypt L t m k = Inr c \<longleftrightarrow>
     aes_key k \<and> snd (rand_Read L t nonce_size) = None \<and>
     c = rand_fill L t nonce_size @ gcm_Seal L (big_Bytes k) (rand_fill L t nonce_size) m"
  by (auto simp: SymmetricEncrypt_def Let_def aes_key_def aes_NewCipher_def split: option.splits)

lemma SymmetricDecrypt_box:
  "aes_key k' \<Longrightarrow>
   SymmetricDecrypt L (rand_fill L t nonce_size @ c) k' =
     Ret (gcm_Open L (big_Bytes k') (rand_fill L t nonce_size) c)"
  by (simp add: SymmetricDecrypt_def aes_key_def aes_NewCipher_def)

lemma symmetric_open:
  assumes "gcm_correct L" and "SymmetricEncrypt L t m k = Inr c"
  shows "SymmetricDecrypt L c k = Ret (Inr m)"
  using assms by (auto simp: SymmetricEncrypt_Inr SymmetricDecrypt_box gcm_correct_def)

lemma aes_key_bounds:
  "aes_key k \<longleftrightarrow>
     (256 ^ 15 \<le> \<bar>k\<bar> \<and> \<bar>k\<bar> < 256 ^ 16) \<or>
     (256 ^ 23 \<le> \<bar>k\<bar> \<and> \<bar>k\<bar> < 256 ^ 24) \<or>
     (256 ^ 31 \<le> \<bar>k\<bar> \<and> \<bar>k\<bar> < 256 ^ 32)"
proof -
  have size: "length (big_Bytes k) = Suc j \<longleftrightarrow> 256 ^ j \<le> \<bar>k\<bar> \<and> \<bar>k\<bar> < 256 ^ Suc j" for j
    by (simp add: big_Bytes_def length_nat_be_Suc nat_less_iff le_nat_iff)
  show ?thesis
    using size [of 15] size [of 23] size [of 31] by (simp add: aes_key_def)
qed

text \<open>
  Property C39: symmetric encryption succeeds for exactly those keys whose minimal big-endian form has 16, 24
  or 32 bytes.  A 256-bit exchanged key below \<open>2 ^ 248\<close> (and not in one of the two smaller bands) is
  refused by AES, because \<open>big.Int.Bytes\<close> drops leading zero bytes.
\<close>

theorem symmetric_key_bands:
  "(\<exists>c. SymmetricEncrypt L t m k = Inr c) \<longleftrightarrow>
     snd (rand_Read L t nonce_size) = None \<and>
     ((256 ^ 15 \<le> \<bar>k\<bar> \<and> \<bar>k\<bar> < 256 ^ 16) \<or>
      (256 ^ 23 \<le> \<bar>k\<bar> \<and> \<bar>k\<bar> < 256 ^ 24) \<or>
      (256 ^ 31 \<le> \<bar>k\<bar> \<and> \<bar>k\<bar> < 256 ^ 32))"
  by (auto simp: SymmetricEncrypt_Inr aes_key_bounds)

text \<open>
  Property C12: what one end of a connection encrypts, the other end, which derived the same key from the
  exchange, decrypts to the same bytes.
\<close>

theorem exchanged_key_roundtrip:
  assumes "gcm_correct L"
    and "NewKeyExchange L t a = Ret (A, t')"
    and "GenerateReturn A b = Ret B"
    and "GetSymKey B a = Ret k" and "GetSymKey A b = Ret k'"
    and "SymmetricEncrypt L t'' m k = Inr c"
  shows "SymmetricDecrypt L c k' = Ret (Inr m)"
proof -
  have "k' = k"
    using dh.derive_agrees [OF NewKeyExchange_offered [OF assms(2)] assms(3)] assms(4,5) by simp
  then show ?thesis
    using symmetric_open [OF assms(1,6)] by simp
qed

theorem exchanged_key_roundtrip_witness:
  "SymmetricDecrypt (box_lib\<lparr>rand_Prime := \<lambda>t. if even t then Inr (2 ^ 255) else Inr (2 ^ 256 + 1)\<rparr>)
     (replicate 12 0 @ frame (big_Bytes (2 ^ 255)) @ [1, 2]) (2 ^ 255) = Ret (Inr [1, 2])"
  by (rule exchanged_key_roundtrip [where t = 0 and a = 1 and b = 1 and t'' = 0 and k = "2 ^ 255"
        and t' = 2
        and A = "\<lparr>dh_G = Some (2 ^ 255), dh_P = Some (2 ^ 256 + 1), dh_HalfKey = Some (2 ^ 255)\<rparr>"
        and B = "\<lparr>dh_G = Some (2 ^ 255), dh_P = Some (2 ^ 256 + 1), dh_HalfKey = Some (2 ^ 255)\<rparr>"])
    (simp_all add: NewKeyExchange_eq GenerateReturn_def GetSymKey_def big_Exp_def gcm_correct_def
      SymmetricEncrypt_Inr aes_key_bounds box_lib_def rand_fill_def nonce_size_def)

text \<open>
  With a key AES accepts, \<open>SymmetricDecrypt\<close> panics on every input shorter than a nonce,
  and on no other input: the slice \<open>input[:nonceSize]\<close> is taken before any check.
\<close>

theorem short_box_panics:
  assumes "aes_key k"
  shows "panics (SymmetricDecrypt L c k) \<longleftrightarrow> length c < 12"
  using assms by (simp add: SymmetricDecrypt_def aes_key_def aes_NewCipher_def nonce_size_def)

theorem short_box_panics_witness:
  "panics (SymmetricDecrypt box_lib [1, 2, 3] (2 ^ 255)) \<longleftrightarrow> length [1, 2, 3 :: byte] < 12"
  by (rule short_box_panics) (simp add: aes_key_bounds)

lemma symmetric_open_foreign:
  assumes "gcm_authentic L" and "SymmetricEncrypt L t m k = Inr c" and "big_Bytes k \<noteq> big_Bytes k'"
    and "aes_key k'"
  shows "\<exists>err. SymmetricDecrypt L c k' = Ret (Inl err)"
  using assms by (auto simp: SymmetricEncrypt_Inr SymmetricDecrypt_box gcm_authentic_def)

section \<open>Asymmetric encryption\<close>

lemma asymmetric_open:
  "ecc_pair L pub priv \<Longrightarrow> AsymmetricEncrypt L t m pub = Inr c \<Longrightarrow> AsymmetricDecrypt L c priv = Inr m"
  by (auto simp: ecc_pair_def AsymmetricEncrypt_def AsymmetricDecrypt_def)

lemma asymmetric_open_alien:
  "ecc_alien L pub priv \<Longrightarrow> AsymmetricEncrypt L t m pub = Inr c \<Longrightarrow>
   AsymmetricDecrypt L c priv = Inl WrongPrivateKey"
  by (auto simp: ecc_alien_def AsymmetricEncrypt_def AsymmetricDecrypt_def)

lemma uuid_open:
  "ecc_pair L pub priv \<Longrightarrow> uuid_lib_correct L \<Longrightarrow> EncryptUUID L t u pub = Inr c \<Longrightarrow>
   DecryptUUID L c priv = Inr u"
proof -
  assume pair: "ecc_pair L pub priv" and lib: "uuid_lib_correct L" and enc: "EncryptUUID L t u pub = Inr c"
  have "AsymmetricDecrypt L c priv = Inr (uuid_bytes u)"
    using asymmetric_open [OF pair] enc unfolding EncryptUUID_def .
  moreover have "uuid_FromBytes L (uuid_bytes u) = Inr (bytes_uuid (uuid_bytes u))"
    using lib unfolding uuid_lib_correct_def by (metis length_uuid_bytes)
  ultimately show ?thesis
    by (simp add: DecryptUUID_def)
qed

text \<open>
  A tree identifier encrypted to a node's public key decrypts, with that node's private
  key, to the same identifier; with the private key of another node it is refused with the error that
  the callers test for.
\<close>

theorem uuid_roundtrip:
  assumes "ecc_pair L pub priv" and "ecc_alien L pub other" and "uuid_lib_correct L"
    and "EncryptUUID L t u pub = Inr c"
  shows "DecryptUUID L c priv = Inr u \<and> DecryptUUID L c other = Inl WrongPrivateKey"
proof
  show "DecryptUUID L c priv = Inr u"
    using assms(1,3,4) by (rule uuid_open)
  show "DecryptUUID L c other = Inl WrongPrivateKey"
    using assms(2,4) by (simp add: DecryptUUID_def EncryptUUID_def asymmetric_open_alien)
qed

theorem uuid_roundtrip_witness:
  "DecryptUUID box_lib (frame [7] @ uuid_bytes 42) [7] = Inr 42 \<and>
   DecryptUUID box_lib (frame [7] @ uuid_bytes 42) [8] = Inl WrongPrivateKey"
  by (rule uuid_roundtrip [of box_lib "[7]" _ _ 0])
    (simp_all add: box_lib_pair box_lib_alien box_lib_uuid EncryptUUID_def AsymmetricEncrypt_def,
      simp_all add: box_lib_def)

end
