(* ===== verification/Messages.thy ===== *)
theory Messages
  imports Sealing
begin

text \<open>
  The messages of the program: \<open>p2p/msg_protocol.go\<close> (tree formation), \<open>p2p/msg_data.go\<close> (application
  traffic), and \<open>p2p/encoding.go\<close>, which builds the two-layer application messages: the data message is
  encrypted to the proxy's public key, and the result, with its type, to the next hop's symmetric key.

  The wire format of \<open>encoding/gob\<close> is not modelled: the record \<open>gob\<close> has one encoder and one decoder per
  message type, and \<open>gob_correct\<close> states the only thing the program uses of them, that decoding inverts encoding.
  Enumerations of type \<open>uint\<close> are 64-bit words, since a decoded message may hold any value.
\<close>

section \<open>Protocol messages\<close>

type_synonym ProtocolMessageType = "64 word"

definition QueryPathRequest :: ProtocolMessageType where "QueryPathRequest = 0"
definition QueryPathResponse :: ProtocolMessageType where "QueryPathResponse = 1"
definition VerifyCoverRequest :: ProtocolMessageType where "VerifyCoverRequest = 2"
definition VerifyCoverResponse :: ProtocolMessageType where "VerifyCoverResponse = 3"
definition ConnectPathRequest :: ProtocolMessageType where "ConnectPathRequest = 4"
definition ConnectPathResponse :: ProtocolMessageType where "ConnectPathResponse = 5"
definition CreateProxyRequest :: ProtocolMessageType where "CreateProxyRequest = 6"
definition CreateProxyResponse :: ProtocolMessageType where "CreateProxyResponse = 7"
definition DeleteCoverRequest :: ProtocolMessageType where "DeleteCoverRequest = 8"

lemmas message_types =
  QueryPathRequest_def QueryPathResponse_def VerifyCoverRequest_def VerifyCoverResponse_def
  ConnectPathRequest_def ConnectPathResponse_def CreateProxyRequest_def CreateProxyResponse_def
  DeleteCoverRequest_def

record ProtocolMessage =
  pm_Type :: ProtocolMessageType
  pm_Content :: bytes

record QueryPathReq =
  qreq_CoverPublicKey :: bytes

record Path =
  path_EncryptedTreeUUID :: bytes
  path_NextHopIP :: string
  path_NextNextHopIP :: string
  path_ProxyPublicKey :: bytes

record QueryPathResp =
  qresp_ParentPublicKey :: bytes
  qresp_Paths :: "Path list"

record VerifyCoverReq =
  vreq_NextHopIP :: string

record VerifyCoverResp =
  vresp_IsVerified :: bool

record ConnectPathReq =
  creq_EncryptedTreeUUID :: bytes
  creq_CoverKeyExchange :: DHKeyExchange

record ConnectPathResp =
  cresp_Accepted :: bool
  cresp_ParentKeyExchange :: DHKeyExchange

record CreateProxyReq =
  xreq_CoverPublicKey :: bytes
  xreq_CoverKeyExchange :: DHKeyExchange

record CreateProxyResp =
  xresp_Accepted :: bool
  xresp_ProxyKeyExchange :: DHKeyExchange
  xresp_ProxyPublicKey :: bytes
  xresp_EncryptedTreeUUID :: bytes

section \<open>Application messages\<close>

type_synonym DataMessageType = "64 word"

definition Real :: DataMessageType where "Real = 0"
definition Cover :: DataMessageType where "Cover = 1"

record DataMessage =
  dm_Key :: bytes
  dm_Content :: bytes

record AsymetricEncryptDataMessage =
  asym_Data :: DataMessage
  asym_Salt :: bytes

record SymmetricEncryptDataMessage =
  sym_Type :: DataMessageType
  sym_AsymetricEncryptedPayload :: bytes

record ApplicationMessage =
  am_SymmetricEncryptedPayload :: bytes

section \<open>Encoders and decoders\<close>

record gob =
  enc_QueryPathReq :: "QueryPathReq \<Rightarrow> go_error + bytes"
  dec_QueryPathReq :: "bytes \<Rightarrow> go_error + QueryPathReq"
  enc_QueryPathResp :: "QueryPathResp \<Rightarrow> go_error + bytes"
  dec_QueryPathResp :: "bytes \<Rightarrow> go_error + QueryPathResp"
  enc_VerifyCoverReq :: "VerifyCoverReq \<Rightarrow> go_error + bytes"
  dec_VerifyCoverReq :: "bytes \<Rightarrow> go_error + VerifyCoverReq"
  enc_VerifyCoverResp :: "VerifyCoverResp \<Rightarrow> go_error + bytes"
  dec_VerifyCoverResp :: "bytes \<Rightarrow> go_error + VerifyCoverResp"
  enc_ConnectPathReq :: "ConnectPathReq \<Rightarrow> go_error + bytes"
  dec_ConnectPathReq :: "bytes \<Rightarrow> go_error + ConnectPathReq"
  enc_ConnectPathResp :: "ConnectPathResp \<Rightarrow> go_error + bytes"
  dec_ConnectPathResp :: "bytes \<Rightarrow> go_error + ConnectPathResp"
  enc_CreateProxyReq :: "CreateProxyReq \<Rightarrow> go_error + bytes"
  dec_CreateProxyReq :: "bytes \<Rightarrow> go_error + CreateProxyReq"
  enc_CreateProxyResp :: "CreateProxyResp \<Rightarrow> go_error + bytes"
  dec_CreateProxyResp :: "bytes \<Rightarrow> go_error + CreateProxyResp"
  enc_Asym :: "AsymetricEncryptDataMessage \<Rightarrow> go_error + bytes"
  dec_Asym :: "bytes \<Rightarrow> go_error + AsymetricEncryptDataMessage"
  enc_Sym :: "SymmetricEncryptDataMessage \<Rightarrow> go_error + bytes"
  dec_Sym :: "bytes \<Rightarrow> go_error + SymmetricEncryptDataMessage"

definition decodes :: "('a \<Rightarrow> go_error + bytes) \<Rightarrow> (bytes \<Rightarrow> go_error + 'a) \<Rightarrow> bool" where
  "decodes enc dec \<longleftrightarrow> (\<forall>m bs. enc m = Inr bs \<longrightarrow> dec bs = Inr m)"

definition gob_correct :: "gob \<Rightarrow> bool" where
  "gob_correct G \<longleftrightarrow>
     decodes (enc_QueryPathReq G) (dec_QueryPathReq G) \<and>
     decodes (enc_QueryPathResp G) (dec_QueryPathResp G) \<and>
     decodes (enc_VerifyCoverReq G) (dec_VerifyCoverReq G) \<and>
     decodes (enc_VerifyCoverResp G) (dec_VerifyCoverResp G) \<and>
     decodes (enc_ConnectPathReq G) (dec_ConnectPathReq G) \<and>
     decodes (enc_ConnectPathResp G) (dec_ConnectPathResp G) \<and>
     decodes (enc_CreateProxyReq G) (dec_CreateProxyReq G) \<and>
     decodes (enc_CreateProxyResp G) (dec_CreateProxyResp G) \<and>
     decodes (enc_Asym G) (dec_Asym G) \<and>
     decodes (enc_Sym G) (dec_Sym G)"

lemma decodesD: "decodes enc dec \<Longrightarrow> enc m = Inr bs \<Longrightarrow> dec bs = Inr m"
  by (simp add: decodes_def)

lemma gob_decode:
  assumes "gob_correct G"
  shows "enc_QueryPathReq G a = Inr bs \<Longrightarrow> dec_QueryPathReq G bs = Inr a"
    and "enc_QueryPathResp G b = Inr bs \<Longrightarrow> dec_QueryPathResp G bs = Inr b"
    and "enc_VerifyCoverReq G c = Inr bs \<Longrightarrow> dec_VerifyCoverReq G bs = Inr c"
    and "enc_VerifyCoverResp G d = Inr bs \<Longrightarrow> dec_VerifyCoverResp G bs = Inr d"
    and "enc_ConnectPathReq G e = Inr bs \<Longrightarrow> dec_ConnectPathReq G bs = Inr e"
    and "enc_ConnectPathResp G f = Inr bs \<Longrightarrow> dec_ConnectPathResp G bs = Inr f"
    and "enc_CreateProxyReq G g = Inr bs \<Longrightarrow> dec_CreateProxyReq G bs = Inr g"
    and "enc_CreateProxyResp G h = Inr bs \<Longrightarrow> dec_CreateProxyResp G bs = Inr h"
    and "enc_Asym G i = Inr bs \<Longrightarrow> dec_Asym G bs = Inr i"
    and "enc_Sym G j = Inr bs \<Longrightarrow> dec_Sym G bs = Inr j"
  using assms by (simp_all add: gob_correct_def decodes_def)

section \<open>Building application messages\<close>

text \<open>
  The times \<open>t, t + 1, \<dots>\<close> index the random draws in program order: key (cover messages only), salt, the
  ephemeral key of ecc, nonce.
\<close>

definition CreateAsymmetricEncryptionInput ::
    "lib \<Rightarrow> nat \<Rightarrow> DataMessage \<Rightarrow> AsymetricEncryptDataMessage" where
  "CreateAsymmetricEncryptionInput L t dm = \<lparr>asym_Data = dm, asym_Salt = rand_fill L t 64\<rparr>"

definition seal_data_message ::
    "lib \<Rightarrow> gob \<Rightarrow> nat \<Rightarrow> DataMessageType \<Rightarrow> DataMessage \<Rightarrow> bytes \<Rightarrow> int \<Rightarrow> go_error + ApplicationMessage" where
  "seal_data_message L G t ty dm proxyPublicKey symmetricKey =
     (case enc_Asym G (CreateAsymmetricEncryptionInput L t dm) of
        Inl err \<Rightarrow> Inl err
      | Inr asymInputBytes \<Rightarrow>
          (case AsymmetricEncrypt L (t + 1) asymInputBytes proxyPublicKey of
             Inl err \<Rightarrow> Inl err
           | Inr asymOutput \<Rightarrow>
               (case enc_Sym G \<lparr>sym_Type = ty, sym_AsymetricEncryptedPayload = asymOutput\<rparr> of
                  Inl err \<Rightarrow> Inl err
                | Inr symInputBytes \<Rightarrow>
                    (case SymmetricEncrypt L (t + 2) symInputBytes symmetricKey of
                       Inl err \<Rightarrow> Inl err
                     | Inr symOutput \<Rightarrow> Inr \<lparr>am_SymmetricEncryptedPayload = symOutput\<rparr>))))"

definition NewCoverMessage ::
    "lib \<Rightarrow> gob \<Rightarrow> nat \<Rightarrow> bytes \<Rightarrow> int \<Rightarrow> go_error + ApplicationMessage" where
  "NewCoverMessage L G t proxyPublicKey symmetricKey =
     seal_data_message L G (t + 1) Cover
       \<lparr>dm_Key = rand_fill L t 48, dm_Content = replicate 1024 0\<rparr> proxyPublicKey symmetricKey"

definition NewRealMessage ::
    "lib \<Rightarrow> gob \<Rightarrow> nat \<Rightarrow> DataMessage \<Rightarrow> bytes \<Rightarrow> int \<Rightarrow> go_error + ApplicationMessage" where
  "NewRealMessage L G t dm proxyPublicKey symmetricKey =
     seal_data_message L G t Real dm proxyPublicKey symmetricKey"

text \<open>Both kinds of message are built by the same four stages; a box can be opened stage by stage.\<close>

lemma seal_data_message_Inr:
  "seal_data_message L G t ty dm pub k = Inr am \<longleftrightarrow>
     (\<exists>a c s. enc_Asym G (CreateAsymmetricEncryptionInput L t dm) = Inr a \<and>
        AsymmetricEncrypt L (t + 1) a pub = Inr c \<and>
        enc_Sym G \<lparr>sym_Type = ty, sym_AsymetricEncryptedPayload = c\<rparr> = Inr s \<and>
        SymmetricEncrypt L (t + 2) s k = Inr (am_SymmetricEncryptedPayload am))"
  by (cases am) (auto simp: seal_data_message_def split: sum.splits)

end
