(* ===== verification/Config.thy ===== *)
theory Config
  imports Prelude
begin

text \<open>
  The configuration of \<open>p2p/configs.go\<close>.  \<open>initConfigs\<close> is a fixed sequence of calls on a fresh viper object, here the list
  of these calls; what viper makes of them is outside the repository: the record \<open>viper\<close> is a parameter, and
  \<open>viper_documented\<close> states what its documentation promises (environment over file over default, keys without regard to
  case, an empty variable counts as unset, a variable is bound under the upper case of its key).
\<close>

section \<open>Settings\<close>

datatype setting = Dur int | Num int | Str string

definition Second :: int where "Second = 1000000000"
definition Minute :: int where "Minute = 60 * Second"

datatype viper_op =
    SetDefault string setting
  | SetConfigFile string
  | ReadInConfig
  | BindEnv string

definition default_calls :: "viper_op list" where
  "default_calls =
     [SetDefault ''COVER_MESSAGE_SENDING_INTERVAL'' (Dur (10 * Second)),
      SetDefault ''APPLICATION_MESSAGE_RECEIVING_INTERVAL'' (Dur (15 * Second)),
      SetDefault ''PUBLISH_JOB_FAILED_TIMEOUT'' (Dur (10 * Minute)),
      SetDefault ''PUBLISH_JOB_CHECKING_INTERVAL'' (Dur (30 * Second)),
      SetDefault ''TCP_REQUEST_TIMEOUT'' (Dur (10 * Second)),
      SetDefault ''MAINTAIN_PATHS_HEALTH_CHECKING_INTERVAL'' (Dur (1 * Minute)),
      SetDefault ''PUBLISH_CONDITION_CHECKING_INTERVAL'' (Dur (1 * Minute)),
      SetDefault ''FULFILL_PUBLISH_CONDITION_TIMEOUT'' (Dur (5 * Minute)),
      SetDefault ''FULFILL_PUBLISH_CONDITION_INTERVAL'' (Dur (10 * Second)),
      SetDefault ''HALF_OPEN_PATH_BUFFER_SIZE'' (Num 5000),
      SetDefault ''TARGET_NUMBER_OF_CONNECTED_PATHS'' (Num 1),
      SetDefault ''MAXIMUM_NUMBER_OF_COVER_NODES'' (Num 15),
      SetDefault ''NUMBER_OF_COVER_NODES_FOR_PUBLISH'' (Num 2),
      SetDefault ''MOVE_UP_REQUIREMENT_FAILURE_THRESHOLD'' (Num 3),
      SetDefault ''HTTP_SERVER_LISTEN_PORT'' (Str '':3000''),
      SetDefault ''IMMUTABLE_STORAGE_SERVER_LISTEN_IP'' (Str ''127.0.0.1''),
      SetDefault ''IMMUTABLE_STORAGE_SERVER_LISTEN_PORT'' (Str '':3100''),
      SetDefault ''NODE_DISCOVERY_SERVER_LISTEN_IP'' (Str ''127.0.0.1''),
      SetDefault ''NODE_DISCOVERY_SERVER_LISTEN_PORT'' (Str '':3200''),
      SetDefault ''HTTP_SERVER_LISTEN_All'' (Str ''false'')]"

definition bound_keys :: "string list" where
  "bound_keys =
     [''COVER_MESSAGE_SENDING_INTERVAL'', ''APPLICATION_MESSAGE_RECEIVING_INTERVAL'', ''PUBLISH_JOB_FAILED_TIMEOUT'',
      ''PUBLISH_JOB_CHECKING_INTERVAL'', ''TCP_REQUEST_TIMEOUT'', ''MAINTAIN_PATHS_HEALTH_CHECKING_INTERVAL'',
      ''PUBLISH_CONDITION_CHECKING_INTERVAL'', ''FULFILL_PUBLISH_CONDITION_TIMEOUT'',
      ''FULFILL_PUBLISH_CONDITION_INTERVAL'',
      ''HALF_OPEN_PATH_BUFFER_SIZE'', ''TARGET_NUMBER_OF_CONNECTED_PATHS'', ''MAXIMUM_NUMBER_OF_COVER_NODES'',
      ''NUMBER_OF_COVER_NODES_FOR_PUBLISH'', ''MOVE_UP_REQUIREMENT_FAILURE_THRESHOLD'',
      ''HTTP_SERVER_LISTEN_PORT'',
      ''IMMUTABLE_STORAGE_SERVER_LISTEN_IP'', ''IMMUTABLE_STORAGE_SERVER_LISTEN_PORT'',
      ''NODE_DISCOVERY_SERVER_LISTEN_IP'', ''NODE_DISCOVERY_SERVER_LISTEN_PORT'', ''CLUSTER_CONTACT_NODE_IP'',
      ''HTTP_SERVER_LISTEN_ALL'']"

text \<open>An error of \<open>ReadInConfig\<close> is logged and the sequence goes on.\<close>

definition initConfigs :: "string \<Rightarrow> viper_op list" where
  "initConfigs configFilePath =
     default_calls @ [SetConfigFile configFilePath, ReadInConfig] @ map BindEnv bound_keys"

section \<open>What viper documents\<close>

text \<open>The process environment, and the content of the file at a path if it can be read.\<close>

record world =
  w_environ :: "string \<Rightarrow> string option"
  w_file :: "string \<Rightarrow> (string \<times> setting) list option"

record viper =
  vp_get :: "viper_op list \<Rightarrow> world \<Rightarrow> string \<Rightarrow> setting option"
  vp_toDuration :: "setting \<Rightarrow> int"
  vp_toInt :: "setting \<Rightarrow> int"
  vp_toString :: "setting \<Rightarrow> string"
  vp_toBool :: "setting \<Rightarrow> bool"

definition upper_char :: "char \<Rightarrow> char" where
  "upper_char c =
     (let n = of_char c :: nat in if 97 \<le> n \<and> n \<le> 122 then char_of (n - 32) else c)"

definition upper :: "string \<Rightarrow> string" where
  "upper = map upper_char"

primrec default_in :: "viper_op list \<Rightarrow> string \<Rightarrow> setting option" where
  "default_in [] key = None"
| "default_in (op # ops) key =
     (case default_in ops key of
        Some x \<Rightarrow> Some x
      | None \<Rightarrow>
          (case op of
             SetDefault k x \<Rightarrow> if upper k = upper key then Some x else None
           | _ \<Rightarrow> None))"

definition bound_in :: "viper_op list \<Rightarrow> string \<Rightarrow> bool" where
  "bound_in ops key = list_ex (\<lambda>op. case op of BindEnv k \<Rightarrow> upper k = upper key | _ \<Rightarrow> False) ops"

fun loaded_by :: "viper_op list \<Rightarrow> world \<Rightarrow> string option \<Rightarrow> (string \<times> setting) list" where
  "loaded_by [] W path = []"
| "loaded_by (SetConfigFile p # ops) W path = loaded_by ops W (Some p)"
| "loaded_by (ReadInConfig # ops) W path =
     (case path of
        None \<Rightarrow> loaded_by ops W path
      | Some p \<Rightarrow> (case w_file W p of None \<Rightarrow> loaded_by ops W path | Some content \<Rightarrow> content))"
| "loaded_by (op # ops) W path = loaded_by ops W path"

definition env_value :: "viper_op list \<Rightarrow> world \<Rightarrow> string \<Rightarrow> setting option" where
  "env_value ops W key =
     (if bound_in ops key
      then (case w_environ W (upper key) of None \<Rightarrow> None | Some x \<Rightarrow> if x = [] then None else Some (Str x))
      else None)"

definition file_value :: "(string \<times> setting) list \<Rightarrow> string \<Rightarrow> setting option" where
  "file_value content key = map_option snd (find (\<lambda>(k, x). upper k = upper key) content)"

definition documented_get :: "viper_op list \<Rightarrow> world \<Rightarrow> string \<Rightarrow> setting option" where
  "documented_get ops W key =
     (case env_value ops W key of
        Some x \<Rightarrow> Some x
      | None \<Rightarrow>
          (case file_value (loaded_by ops W None) key of
             Some x \<Rightarrow> Some x
           | None \<Rightarrow> default_in ops key))"

definition viper_documented :: "viper \<Rightarrow> bool" where
  "viper_documented V \<longleftrightarrow>
     (\<forall>ops W key. vp_get V ops W key = documented_get ops W key) \<and>
     (\<forall>d. vp_toDuration V (Dur d) = d) \<and> (\<forall>n. vp_toInt V (Num n) = n) \<and>
     (\<forall>x. vp_toString V (Str x) = x) \<and> \<not> vp_toBool V (Str ''false'') \<and> vp_toBool V (Str ''true'')"

section \<open>Reading the configuration\<close>

type_synonym settings = "string \<Rightarrow> setting option"

definition open_configs :: "viper \<Rightarrow> world \<Rightarrow> string \<Rightarrow> settings" where
  "open_configs V W configFilePath = vp_get V (initConfigs configFilePath) W"

definition IsSet :: "settings \<Rightarrow> string \<Rightarrow> bool" where
  "IsSet v key = (v key \<noteq> None)"

definition GetDuration :: "viper \<Rightarrow> settings \<Rightarrow> string \<Rightarrow> int" where
  "GetDuration V v key = (case v key of None \<Rightarrow> 0 | Some x \<Rightarrow> vp_toDuration V x)"

definition GetInt :: "viper \<Rightarrow> settings \<Rightarrow> string \<Rightarrow> int" where
  "GetInt V v key = (case v key of None \<Rightarrow> 0 | Some x \<Rightarrow> vp_toInt V x)"

definition GetString :: "viper \<Rightarrow> settings \<Rightarrow> string \<Rightarrow> string" where
  "GetString V v key = (case v key of None \<Rightarrow> [] | Some x \<Rightarrow> vp_toString V x)"

definition GetBool :: "viper \<Rightarrow> settings \<Rightarrow> string \<Rightarrow> bool" where
  "GetBool V v key = (case v key of None \<Rightarrow> False | Some x \<Rightarrow> vp_toBool V x)"

lemmas getters = IsSet_def GetDuration_def GetInt_def GetString_def GetBool_def

lemma default_in_initConfigs: "default_in (initConfigs p) key = default_in default_calls key"
proof -
  have bind: "default_in (map BindEnv ks) key = None" for ks
    by (induction ks) simp_all
  have "default_in (ops @ SetConfigFile p # ReadInConfig # map BindEnv ks) key = default_in ops key" for ops ks
    by (induction ops) (simp_all add: bind)
  then show ?thesis
    by (simp add: initConfigs_def)
qed

lemma loaded_by_initConfigs:
  "loaded_by (initConfigs p) W None = (case w_file W p of None \<Rightarrow> [] | Some content \<Rightarrow> content)"
proof -
  have bind: "loaded_by (map BindEnv ks) W path = []" for ks path
    by (induction ks) simp_all
  show ?thesis
    by (simp add: initConfigs_def default_calls_def bind split: option.split)
qed

lemma bound_in_initConfigs: "bound_in (initConfigs p) key \<longleftrightarrow> upper key \<in> upper ` set bound_keys"
  by (auto simp: bound_in_def initConfigs_def default_calls_def list_ex_iff intro: rev_image_eqI)

lemma open_configs_documented:
  assumes "viper_documented V"
  shows "open_configs V W p key =
     (case env_value (initConfigs p) W key of
        Some x \<Rightarrow> Some x
      | None \<Rightarrow>
          (case file_value (case w_file W p of None \<Rightarrow> [] | Some content \<Rightarrow> content) key of
             Some x \<Rightarrow> Some x
           | None \<Rightarrow> default_in default_calls key))"
  using assms
  by (simp add: open_configs_def viper_documented_def documented_get_def default_in_initConfigs loaded_by_initConfigs
      split: option.split)

lemma bound_keys_upper: "map upper bound_keys = bound_keys"
  by code_simp

section \<open>The configuration a node runs under\<close>

text \<open>
  The settings the node's logic reads, as the record the environment holds.
\<close>

record config =
  TARGET_NUMBER_OF_CONNECTED_PATHS :: int
  MAXIMUM_NUMBER_OF_COVER_NODES :: int
  NUMBER_OF_COVER_NODES_FOR_PUBLISH :: int
  MOVE_UP_REQUIREMENT_FAILURE_THRESHOLD :: int
  TESTING_TCP_SERVER_LISTEN_IP :: "string option"

definition node_config :: "viper \<Rightarrow> settings \<Rightarrow> config" where
  "node_config V v =
     \<lparr>TARGET_NUMBER_OF_CONNECTED_PATHS = GetInt V v ''TARGET_NUMBER_OF_CONNECTED_PATHS'',
      MAXIMUM_NUMBER_OF_COVER_NODES = GetInt V v ''MAXIMUM_NUMBER_OF_COVER_NODES'',
      NUMBER_OF_COVER_NODES_FOR_PUBLISH = GetInt V v ''NUMBER_OF_COVER_NODES_FOR_PUBLISH'',
      MOVE_UP_REQUIREMENT_FAILURE_THRESHOLD = GetInt V v ''MOVE_UP_REQUIREMENT_FAILURE_THRESHOLD'',
      TESTING_TCP_SERVER_LISTEN_IP =
        (if IsSet v ''TESTING_TCP_SERVER_LISTEN_IP'' then Some (GetString V v ''TESTING_TCP_SERVER_LISTEN_IP'') else None)\<rparr>"

definition plain_world :: world where
  "plain_world = \<lparr>w_environ = Map.empty, w_file = Map.empty\<rparr>"

section \<open>Where a setting comes from\<close>

lemma env_value_initConfigs:
  "env_value (initConfigs p) W key =
     (if upper key \<in> set bound_keys
      then (case w_environ W (upper key) of None \<Rightarrow> None | Some x \<Rightarrow> if x = [] then None else Some (Str x))
      else None)"
proof -
  have "upper ` set bound_keys = set bound_keys"
    using bound_keys_upper by (metis set_map)
  then show ?thesis
    by (simp add: env_value_def bound_in_initConfigs)
qed

lemma open_configs_unset:
  assumes "viper_documented V" and "w_environ W (upper key) \<in> {None, Some []} \<or> upper key \<notin> set bound_keys"
    and "w_file W p = None"
  shows "open_configs V W p key = default_in default_calls key"
  using assms(2,3)
  by (auto simp: open_configs_documented [OF assms(1)] env_value_initConfigs file_value_def)

lemma upper_bound: "k \<in> set bound_keys \<Longrightarrow> upper k = k"
  using bound_keys_upper by (metis in_set_conv_nth nth_map)

lemma upper_unbound:
  "upper ''HTTP_SERVER_LISTEN_All'' = ''HTTP_SERVER_LISTEN_ALL''"
  "upper ''TCP_SERVER_LISTEN_PORT'' = ''TCP_SERVER_LISTEN_PORT''"
  "upper ''TESTING_TCP_SERVER_LISTEN_IP'' = ''TESTING_TCP_SERVER_LISTEN_IP''"
  "upper ''NODE_ALIAS'' = ''NODE_ALIAS''"
  by code_simp+

lemma upper_bound_all: "list_all (\<lambda>k. upper k = k) bound_keys"
  by (simp add: list_all_iff upper_bound)

lemmas upper_known = upper_unbound upper_bound_all [unfolded bound_keys_def list.pred_inject(2)]

lemma defaults:
  "default_in default_calls ''COVER_MESSAGE_SENDING_INTERVAL'' = Some (Dur (10 * Second))"
  "default_in default_calls ''APPLICATION_MESSAGE_RECEIVING_INTERVAL'' = Some (Dur (15 * Second))"
  "default_in default_calls ''PUBLISH_JOB_FAILED_TIMEOUT'' = Some (Dur (10 * Minute))"
  "default_in default_calls ''PUBLISH_JOB_CHECKING_INTERVAL'' = Some (Dur (30 * Second))"
  "default_in default_calls ''TCP_REQUEST_TIMEOUT'' = Some (Dur (10 * Second))"
  "default_in default_calls ''MAINTAIN_PATHS_HEALTH_CHECKING_INTERVAL'' = Some (Dur (1 * Minute))"
  "default_in default_calls ''PUBLISH_CONDITION_CHECKING_INTERVAL'' = Some (Dur (1 * Minute))"
  "default_in default_calls ''FULFILL_PUBLISH_CONDITION_TIMEOUT'' = Some (Dur (5 * Minute))"
  "default_in default_calls ''FULFILL_PUBLISH_CONDITION_INTERVAL'' = Some (Dur (10 * Second))"
  "default_in default_calls ''HALF_OPEN_PATH_BUFFER_SIZE'' = Some (Num 5000)"
  "default_in default_calls ''TARGET_NUMBER_OF_CONNECTED_PATHS'' = Some (Num 1)"
  "default_in default_calls ''MAXIMUM_NUMBER_OF_COVER_NODES'' = Some (Num 15)"
  "default_in default_calls ''NUMBER_OF_COVER_NODES_FOR_PUBLISH'' = Some (Num 2)"
  "default_in default_calls ''MOVE_UP_REQUIREMENT_FAILURE_THRESHOLD'' = Some (Num 3)"
  "default_in default_calls ''TCP_SERVER_LISTEN_PORT'' = None"
  "default_in default_calls ''HTTP_SERVER_LISTEN_PORT'' = Some (Str '':3000'')"
  "default_in default_calls ''NODE_DISCOVERY_SERVER_LISTEN_PORT'' = Some (Str '':3200'')"
  "default_in default_calls ''IMMUTABLE_STORAGE_SERVER_LISTEN_PORT'' = Some (Str '':3100'')"
  "default_in default_calls ''NODE_DISCOVERY_SERVER_LISTEN_IP'' = Some (Str ''127.0.0.1'')"
  "default_in default_calls ''IMMUTABLE_STORAGE_SERVER_LISTEN_IP'' = Some (Str ''127.0.0.1'')"
  "default_in default_calls ''HTTP_SERVER_LISTEN_All'' = Some (Str ''false'')"
  "default_in default_calls ''CLUSTER_CONTACT_NODE_IP'' = None"
  "default_in default_calls ''HTTP_SERVER_LISTEN_ALL'' = Some (Str ''false'')"
  "default_in default_calls ''TESTING_TCP_SERVER_LISTEN_IP'' = None"
  by (simp_all add: default_calls_def upper_known)

text \<open>
  A setting is the environment variable of its key if that is set and not empty, else what the file
  says, else the default; and only the 21 bound variables matter: processes that differ in no other variable
  run under the same configuration, so the alias of a node and its testing address cannot be given by variables.
\<close>

theorem setting_sources:
  assumes "viper_documented V"
  shows "(\<forall>k x. k \<in> set bound_keys \<and> w_environ W k = Some x \<and> x \<noteq> [] \<longrightarrow> open_configs V W p k = Some (Str x)) \<and>
    (\<forall>k content x. (k \<notin> set bound_keys \<or> w_environ W k \<in> {None, Some []}) \<and> upper k = k \<and>
       w_file W p = Some content \<and> file_value content k = Some x \<longrightarrow> open_configs V W p k = Some x) \<and>
    (\<forall>W'. w_file W' = w_file W \<and> (\<forall>k \<in> set bound_keys. w_environ W' k = w_environ W k) \<longrightarrow>
       open_configs V W' p = open_configs V W p) \<and>
    ''NODE_ALIAS'' \<notin> set bound_keys \<and> ''TESTING_TCP_SERVER_LISTEN_IP'' \<notin> set bound_keys \<and>
    ''TCP_SERVER_LISTEN_PORT'' \<notin> set bound_keys"
proof (intro conjI allI impI)
  show "open_configs V W p k = Some (Str x)"
    if "k \<in> set bound_keys \<and> w_environ W k = Some x \<and> x \<noteq> []" for k x
    using that upper_bound [of k] by (simp add: open_configs_documented [OF assms] env_value_initConfigs)
  show "open_configs V W' p = open_configs V W p"
    if "w_file W' = w_file W \<and> (\<forall>k \<in> set bound_keys. w_environ W' k = w_environ W k)" for W'
  proof (rule ext)
    have "env_value (initConfigs p) W' key = env_value (initConfigs p) W key" for key
      using that by (simp add: env_value_initConfigs)
    with that show "open_configs V W' p key = open_configs V W p key" for key
      by (simp only: open_configs_documented [OF assms])
  qed
qed (auto simp: open_configs_documented [OF assms] env_value_initConfigs bound_keys_def)

section \<open>A viper that behaves as documented\<close>

definition sample_viper :: viper where
  "sample_viper =
     \<lparr>vp_get = documented_get,
      vp_toDuration = (\<lambda>x. case x of Dur d \<Rightarrow> d | _ \<Rightarrow> 0),
      vp_toInt = (\<lambda>x. case x of Num n \<Rightarrow> n | _ \<Rightarrow> 0),
      vp_toString = (\<lambda>x. case x of Str s \<Rightarrow> s | _ \<Rightarrow> []),
      vp_toBool = (\<lambda>x. x = Str ''true'')\<rparr>"

lemma sample_viper_documented: "viper_documented sample_viper"
  by (simp add: viper_documented_def sample_viper_def)

theorem setting_sources_witness:
  "open_configs sample_viper \<lparr>w_environ = [''CLUSTER_CONTACT_NODE_IP'' \<mapsto> ''10.0.0.9''], w_file = Map.empty\<rparr> ''config.yaml''
     ''CLUSTER_CONTACT_NODE_IP'' = Some (Str ''10.0.0.9'')"
proof -
  have "''CLUSTER_CONTACT_NODE_IP'' \<in> set bound_keys"
    by (simp add: bound_keys_def)
  with setting_sources [OF sample_viper_documented] show ?thesis
    by simp
qed

end
