(* ===== verification/NodeState.thy ===== *)
theory NodeState
  imports MutexMap Messages Config
begin

text \<open>
  The state of a node (the struct \<open>Node\<close> of \<open>p2p/node.go\<close>, the profiles of \<open>p2p/profiles.go\<close>,
  \<open>p2p/transport.go\<close> and \<open>p2p/workers.go\<close>) and of the Go runtime around it, and the environment it runs in.

  \<open>state\<close> extends the fields of \<open>Node\<close> by what the runtime keeps: a clock that counts the uses of the
  outside world, the cancelled contexts, the goroutines started, the connections opened and closed, and
  logs of the responses written, the application messages sent and the calls to \<open>Store\<close>.  The environment
  \<open>env\<close> holds the configuration and what lies outside the repository, each answer a function of the time at
  which it is asked for.  A context is named by the time it was created, a connection by the time it was
  dialled.
\<close>

section \<open>Profiles\<close>

type_synonym conn = nat
type_synonym ctx = nat

record PathProfile =
  p_uuid :: uuid
  p_next :: string
  p_next2 :: string
  p_proxyPublic :: bytes
  p_symKey :: int
  p_successCount :: int
  p_failureCount :: int
  p_cancelFunc :: "ctx option"

record CoverNodeProfile =
  c_cover :: string
  c_secretKey :: int
  c_treeUUID :: uuid
  c_cancelFunc :: "ctx option"

datatype PublishJobStatus = PENDING | SUCCESS | TIMEOUT

text \<open>The constants are numbered in this order (\<open>iota\<close>): a job is over when its status is above \<open>PENDING\<close>.\<close>

primrec status_code :: "PublishJobStatus \<Rightarrow> nat" where
  "status_code PENDING = 0"
| "status_code SUCCESS = 1"
| "status_code TIMEOUT = 2"

instantiation PublishJobStatus :: linorder
begin

definition less_eq_PublishJobStatus :: "PublishJobStatus \<Rightarrow> PublishJobStatus \<Rightarrow> bool" where
  "less_eq_PublishJobStatus a b \<longleftrightarrow> status_code a \<le> status_code b"

definition less_PublishJobStatus :: "PublishJobStatus \<Rightarrow> PublishJobStatus \<Rightarrow> bool" where
  "less_PublishJobStatus a b \<longleftrightarrow> status_code a < status_code b"

instance
proof
  fix a b :: PublishJobStatus
  show "a \<le> b \<Longrightarrow> b \<le> a \<Longrightarrow> a = b"
    by (cases a; cases b) (simp_all add: less_eq_PublishJobStatus_def)
qed (auto simp: less_eq_PublishJobStatus_def less_PublishJobStatus_def)

end

lemma job_over_iff: "PENDING < st \<longleftrightarrow> st \<noteq> PENDING"
  by (cases st) (simp_all add: less_PublishJobStatus_def)

record PublishJobProfile =
  j_Key :: bytes
  j_Status :: PublishJobStatus
  j_OnPath :: uuid

record TCPConnectionProfile =
  tc_Conn :: "conn option"
  tc_Encoder :: "conn option"
  tc_IP :: string

text \<open>The goroutines that operations start, with the arguments they are started with.\<close>

datatype task =
    SendCoverMessageWorker ctx TCPConnectionProfile PathProfile
  | HandleApplicationMessageWorker ctx conn CoverNodeProfile PathProfile
  | CheckPublishJobStatusWorker uuid

datatype response =
    RespQueryPath QueryPathResp
  | RespVerifyCover VerifyCoverResp
  | RespConnectPath ConnectPathResp
  | RespCreateProxy CreateProxyResp

section \<open>The environment\<close>

datatype arrival = Arrived bytes | ReadFailed go_error | TimedOut

record env =
  e_cfg :: config
  e_lib :: lib
  e_gob :: gob
  e_order_uuid :: "nat \<Rightarrow> uuid list"
  e_order_ip :: "nat \<Rightarrow> string list"
  e_draw :: "nat \<Rightarrow> nat"
  e_uuid :: "nat \<Rightarrow> uuid"
  e_dial :: "nat \<Rightarrow> string option \<Rightarrow> string \<Rightarrow> go_error option"
  e_write :: "nat \<Rightarrow> conn \<Rightarrow> go_error option"
  e_arrival :: "nat \<Rightarrow> string \<Rightarrow> ProtocolMessage \<Rightarrow> arrival"
  e_ValidateKey :: "bytes \<Rightarrow> bytes \<Rightarrow> bool"
  e_Store :: "nat \<Rightarrow> bytes \<Rightarrow> bytes \<Rightarrow> go_error + bool"
  e_Read :: "nat \<Rightarrow> bytes \<Rightarrow> go_error + bytes"
  e_IsDiscovered :: "nat \<Rightarrow> bytes \<Rightarrow> go_error + bool"
  e_AvailableKeys :: "nat \<Rightarrow> go_error + bytes list"
  e_GetMembers :: "nat \<Rightarrow> go_error + string list"

section \<open>The node\<close>

record node =
  n_name :: string
  paths :: "(uuid, PathProfile) mutexmap"
  openConnections :: "(uuid, TCPConnectionProfile) mutexmap"
  halfOpenPath :: "(uuid, PathProfile) mutexmap"
  covers :: "(string, CoverNodeProfile) mutexmap"
  publishJobs :: "(uuid, PublishJobProfile) mutexmap"
  peerPublicKeys :: "(string, bytes) mutexmap"
  publicKey :: bytes
  privateKey :: bytes

record state = node +
  clock :: nat
  cancelled :: "(ctx \<times> go_error) list"
  tasks :: "task list"
  opened :: "conn list"
  closed :: "conn list"
  responses :: "(conn \<times> response) list"
  sent :: "(conn \<times> ApplicationMessage) list"
  stored :: "(bytes \<times> bytes) list"

definition IS :: string where
  "IS = ''ImmutableStorage''"

definition tick :: "state \<Rightarrow> state" where
  "tick s = s\<lparr>clock := Suc (clock s)\<rparr>"

text \<open>
  \<open>NewNode\<close> with the keys the generator returned: on an error both stay nil and the node is built
  all the same.
\<close>

definition NewNode :: "lib \<Rightarrow> nat \<Rightarrow> string \<Rightarrow> state" where
  "NewNode L t name =
     (let (public, private) =
        (case GenerateAsymmetricKeyPair L t of Inl err \<Rightarrow> ([], []) | Inr ks \<Rightarrow> ks)
      in \<lparr>n_name = name, paths = NewMutexMap, openConnections = NewMutexMap, halfOpenPath = NewMutexMap,
          covers = NewMutexMap, publishJobs = NewMutexMap, peerPublicKeys = NewMutexMap,
          publicKey = public, privateKey = private, clock = Suc t, cancelled = [], tasks = [],
          opened = [], closed = [], responses = [], sent = [], stored = []\<rparr>)"

section \<open>Runtime operations\<close>

text \<open>
  A \<open>context.CancelCauseFunc\<close> may be the nil function.  The first cause given to a context is
  kept; later calls have no effect.
\<close>

definition call_cancel :: "ctx option \<Rightarrow> go_error \<Rightarrow> state \<Rightarrow> state outcome" where
  "call_cancel f cause s =
     (case f of
        None \<Rightarrow> Panic NilFuncCall
      | Some c \<Rightarrow> Ret (if map_of (cancelled s) c = None then s\<lparr>cancelled := (c, cause) # cancelled s\<rparr> else s))"

definition spawn :: "task \<Rightarrow> state \<Rightarrow> state" where
  "spawn g s = s\<lparr>tasks := tasks s @ [g]\<rparr>"

definition close_conn :: "conn \<Rightarrow> state \<Rightarrow> state" where
  "close_conn c s = s\<lparr>closed := c # closed s\<rparr>"

definition write_response :: "env \<Rightarrow> conn \<Rightarrow> response \<Rightarrow> state \<Rightarrow> go_error option \<times> state" where
  "write_response E c r s =
     (case e_write E (clock s) c of
        Some err \<Rightarrow> (Some err, tick s)
      | None \<Rightarrow> (None, tick (s\<lparr>responses := responses s @ [(c, r)]\<rparr>)))"

definition write_message :: "env \<Rightarrow> conn \<Rightarrow> ApplicationMessage \<Rightarrow> state \<Rightarrow> go_error option \<times> state" where
  "write_message E c am s =
     (case e_write E (clock s) c of
        Some err \<Rightarrow> (Some err, tick s)
      | None \<Rightarrow> (None, tick (s\<lparr>sent := sent s @ [(c, am)]\<rparr>)))"

section \<open>Well-formed tables\<close>

text \<open>
  The shape of the tables: no key twice, every profile is stored under its own identifier, a
  path whose next hop is another node can be cancelled, and so can every cover.
\<close>

definition paths_ok :: "(uuid, PathProfile) mutexmap \<Rightarrow> bool" where
  "paths_ok m \<longleftrightarrow> wf_map m \<and>
     (\<forall>k p. getValue m k = Some p \<longrightarrow> p_uuid p = k \<and> (p_next p \<noteq> IS \<longrightarrow> p_cancelFunc p \<noteq> None))"

definition half_ok :: "(uuid, PathProfile) mutexmap \<Rightarrow> bool" where
  "half_ok m \<longleftrightarrow> wf_map m \<and> (\<forall>k p. getValue m k = Some p \<longrightarrow> p_uuid p = k)"

definition covers_ok :: "(string, CoverNodeProfile) mutexmap \<Rightarrow> bool" where
  "covers_ok m \<longleftrightarrow> wf_map m \<and>
     (\<forall>k c. getValue m k = Some c \<longrightarrow> c_cover c = k \<and> c_cancelFunc c \<noteq> None)"

definition node_ok :: "state \<Rightarrow> bool" where
  "node_ok s \<longleftrightarrow> paths_ok (paths s) \<and> half_ok (halfOpenPath s) \<and> covers_ok (covers s) \<and>
     wf_map (openConnections s) \<and> wf_map (publishJobs s) \<and> wf_map (peerPublicKeys s)"

lemma getValue_setValue [simp]:
  "getValue (setValue m k v) k' = (if k' = k then Some v else getValue m k')"
  by (simp add: mm.get_put)

lemma getValue_deleteValue [simp]:
  "getValue (deleteValue m k) k' = (if k' = k then None else getValue m k')"
  by (simp add: mm.get_drop)

lemma getValue_New [simp]: "getValue NewMutexMap k = None"
  by (simp add: mm.get_fresh)

lemma paths_ok_set [wf_intros]:
  "paths_ok m \<Longrightarrow> p_uuid p = k \<Longrightarrow> p_next p = IS \<or> p_cancelFunc p \<noteq> None \<Longrightarrow> paths_ok (setValue m k p)"
  by (auto simp: paths_ok_def intro: wf_intros)

lemma paths_ok_delete [wf_intros]: "paths_ok m \<Longrightarrow> paths_ok (deleteValue m k)"
  by (auto simp: paths_ok_def intro: wf_intros split: if_splits)

lemma half_ok_set [wf_intros]: "half_ok m \<Longrightarrow> p_uuid p = k \<Longrightarrow> half_ok (setValue m k p)"
  by (auto simp: half_ok_def intro: wf_intros)

lemma half_ok_delete [wf_intros]: "half_ok m \<Longrightarrow> half_ok (deleteValue m k)"
  by (auto simp: half_ok_def intro: wf_intros split: if_splits)

lemma covers_ok_set [wf_intros]:
  "covers_ok m \<Longrightarrow> c_cover c = k \<Longrightarrow> c_cancelFunc c \<noteq> None \<Longrightarrow> covers_ok (setValue m k c)"
  by (auto simp: covers_ok_def intro: wf_intros)

lemma covers_ok_delete [wf_intros]: "covers_ok m \<Longrightarrow> covers_ok (deleteValue m k)"
  by (auto simp: covers_ok_def intro: wf_intros split: if_splits)

lemma NewNode_ok: "node_ok (NewNode L t name)"
  by (simp add: node_ok_def NewNode_def paths_ok_def half_ok_def covers_ok_def mm.ok_fresh Let_def
      split: prod.split)

text \<open>Runtime operations leave the node's own fields alone.\<close>

definition same_node :: "state \<Rightarrow> state \<Rightarrow> bool" where
  "same_node s s' \<longleftrightarrow> node.truncate s = node.truncate s'"

lemma same_node_fields:
  assumes "same_node s s'"
  shows "paths s' = paths s" "openConnections s' = openConnections s" "halfOpenPath s' = halfOpenPath s"
    "covers s' = covers s" "publishJobs s' = publishJobs s" "peerPublicKeys s' = peerPublicKeys s"
    "publicKey s' = publicKey s" "privateKey s' = privateKey s" "n_name s' = n_name s"
  using assms by (simp_all add: same_node_def node.defs)

lemma same_node_refl [simp]: "same_node s s"
  by (simp add: same_node_def)

lemma same_node_trans: "same_node s t \<Longrightarrow> same_node t u \<Longrightarrow> same_node s u"
  by (simp add: same_node_def)

lemma same_node_ok: "same_node s s' \<Longrightarrow> node_ok s' = node_ok s"
  by (simp add: node_ok_def same_node_fields)

lemma same_node_runtime [frame_simps]:
  "same_node s (tick s)" "same_node s (spawn g s)" "same_node s (close_conn c s)"
  "same_node s (snd (write_response E c r s))" "same_node s (snd (write_message E c am s))"
  by (simp_all add: same_node_def node.defs tick_def spawn_def close_conn_def write_response_def
      write_message_def split: option.splits)

lemma same_node_cancel: "call_cancel f e s = Ret s' \<Longrightarrow> same_node s s'"
  by (auto simp: call_cancel_def same_node_def node.defs split: option.splits if_splits)

end
