(* ===== verification/Client.thy ===== *)
theory Client
  imports NodeState
begin

text \<open>
  The requests a node sends (\<open>p2p/handlers_tcp.go\<close>: \<open>tcpSendAndWaitResponse\<close>, \<open>waitForResponse\<close> and the four
  \<open>send\<dots>Request\<close> functions) and the operations of \<open>p2p/node.go\<close> that form paths with them: \<open>QueryPath\<close>,
  \<open>ConnectPath\<close> and \<open>CreateProxy\<close>.
\<close>

section \<open>Requests\<close>

text \<open>
  The \<open>select\<close> over the decoded response, the decoder's error and the timer: \<open>arrival\<close> is the case that is ready first.
\<close>

definition waitForResponse :: "(bytes \<Rightarrow> go_error + 'r) \<Rightarrow> arrival \<Rightarrow> go_error + 'r" where
  "waitForResponse decode a =
     (case a of
        Arrived bs \<Rightarrow> decode bs
      | ReadFailed err \<Rightarrow> Inl err
      | TimedOut \<Rightarrow> Inl (ErrNew ''tcp request timeout''))"

text \<open>
  The deferred function closes the connection only when it is not to be kept; this holds for the error
  returns too.
\<close>

definition tcpSendAndWaitResponse ::
    "(bytes \<Rightarrow> go_error + 'r) \<Rightarrow> env \<Rightarrow> ProtocolMessage \<Rightarrow> string \<Rightarrow> bool \<Rightarrow> state
      \<Rightarrow> (go_error + 'r \<times> TCPConnectionProfile) \<times> state" where
  "tcpSendAndWaitResponse decode E reqBody ip keepAlive s =
     (let t = clock s; targetAddr = ip @ '':3001''
      in case e_dial E t (TESTING_TCP_SERVER_LISTEN_IP (e_cfg E)) targetAddr of
           Some err \<Rightarrow> (Inl err, tick s)
         | None \<Rightarrow>
             (let conn = t;
                  s1 = tick (s\<lparr>opened := conn # opened s\<rparr>);
                  leave = (\<lambda>s. if keepAlive then s else close_conn conn s)
              in case e_write E t conn of
                   Some err \<Rightarrow> (Inl err, leave s1)
                 | None \<Rightarrow>
                     (case waitForResponse decode (e_arrival E t ip reqBody) of
                        Inl err \<Rightarrow> (Inl err, leave s1)
                      | Inr response \<Rightarrow>
                          (Inr (response, \<lparr>tc_Conn = Some conn, tc_Encoder = Some conn, tc_IP = ip\<rparr>), leave s1))))"

definition errGobEncodeMsg :: go_error where
  "errGobEncodeMsg = ErrNew ''failed to encode message using gob''"

definition sendQueryPathRequest :: "env \<Rightarrow> string \<Rightarrow> state \<Rightarrow> (go_error + QueryPathResp) \<times> state" where
  "sendQueryPathRequest E ip s =
     (case enc_QueryPathReq (e_gob E) \<lparr>qreq_CoverPublicKey = publicKey s\<rparr> of
        Inl err \<Rightarrow> (Inl errGobEncodeMsg, s)
      | Inr serialized \<Rightarrow>
          (let (r, s') = tcpSendAndWaitResponse (dec_QueryPathResp (e_gob E)) E
                 \<lparr>pm_Type = QueryPathRequest, pm_Content = serialized\<rparr> ip False s
           in (map_sum id fst r, s')))"

definition sendVerifyCoverRequest ::
    "env \<Rightarrow> string \<Rightarrow> string \<Rightarrow> state \<Rightarrow> (go_error + VerifyCoverResp) \<times> state" where
  "sendVerifyCoverRequest E ip coverToBeVerified s =
     (case enc_VerifyCoverReq (e_gob E) \<lparr>vreq_NextHopIP = coverToBeVerified\<rparr> of
        Inl err \<Rightarrow> (Inl errGobEncodeMsg, s)
      | Inr serialized \<Rightarrow>
          (let (r, s') = tcpSendAndWaitResponse (dec_VerifyCoverResp (e_gob E)) E
                 \<lparr>pm_Type = VerifyCoverRequest, pm_Content = serialized\<rparr> ip False s
           in (map_sum id fst r, s')))"

definition sendCreateProxyRequest ::
    "env \<Rightarrow> string \<Rightarrow> DHKeyExchange \<Rightarrow> state
      \<Rightarrow> (go_error + CreateProxyResp \<times> TCPConnectionProfile) \<times> state" where
  "sendCreateProxyRequest E ip n3X s =
     (case enc_CreateProxyReq (e_gob E) \<lparr>xreq_CoverPublicKey = publicKey s, xreq_CoverKeyExchange = n3X\<rparr> of
        Inl err \<Rightarrow> (Inl errGobEncodeMsg, s)
      | Inr serialized \<Rightarrow>
          tcpSendAndWaitResponse (dec_CreateProxyResp (e_gob E)) E
            \<lparr>pm_Type = CreateProxyRequest, pm_Content = serialized\<rparr> ip True s)"

section \<open>Asking a peer for its paths\<close>

text \<open>
  One round of the loop of \<open>QueryPath\<close> over the paths of the response.  A path this node already has is
  skipped unless it is reached through the queried peer as next-next hop.  A path whose second hop is
  storage needs no verification; otherwise the second hop is asked whether the peer is one of its covers.
\<close>

definition verify_half_open :: "env \<Rightarrow> PathProfile \<Rightarrow> state \<Rightarrow> bool \<times> state" where
  "verify_half_open E half s =
     (if p_next2 half = IS then (True, s)
      else let (r, s') = sendVerifyCoverRequest E (p_next2 half) (p_next half) s
           in (case r of Inl err \<Rightarrow> False | Inr resp \<Rightarrow> vresp_IsVerified resp, s'))"

definition QueryPath_step :: "env \<Rightarrow> string \<Rightarrow> Path \<Rightarrow> PathProfile list \<times> state \<Rightarrow> PathProfile list \<times> state" where
  "QueryPath_step E ip path acc =
     (let (verifiedPaths, s) = acc
      in case DecryptUUID (e_lib E) (path_EncryptedTreeUUID path) (privateKey s) of
           Inl err \<Rightarrow> (verifiedPaths, s)
         | Inr pathID \<Rightarrow>
             if (case getValue (paths s) pathID of None \<Rightarrow> False | Some connectPath \<Rightarrow> p_next2 connectPath \<noteq> ip)
             then (verifiedPaths, s)
             else
               let half = \<lparr>p_uuid = pathID, p_next = ip, p_next2 = path_NextHopIP path,
                     p_proxyPublic = path_ProxyPublicKey path, p_symKey = 0, p_successCount = 0,
                     p_failureCount = 0, p_cancelFunc = None\<rparr>;
                   (verified, s1) = verify_half_open E half s
               in if verified
                  then (verifiedPaths @ [half], s1\<lparr>halfOpenPath := setValue (halfOpenPath s1) pathID half\<rparr>)
                  else (verifiedPaths, s1))"

text \<open>
  When the request fails, \<open>resp\<close> is nil, and the closing log statement evaluates \<open>resp.Paths\<close>.
\<close>

definition QueryPath ::
    "env \<Rightarrow> string \<Rightarrow> state \<Rightarrow> ((go_error + QueryPathResp) \<times> PathProfile list \<times> state) outcome" where
  "QueryPath E ip s =
     (let (r, s1) = sendQueryPathRequest E ip s
      in case r of
           Inl err \<Rightarrow> Panic NilDeref
         | Inr resp \<Rightarrow>
             (let s2 = s1\<lparr>peerPublicKeys := setValue (peerPublicKeys s1) ip (qresp_ParentPublicKey resp)\<rparr>;
                  (verifiedPaths, s3) = fold (QueryPath_step E ip) (qresp_Paths resp) ([], s2)
              in Ret (Inr resp, verifiedPaths, s3)))"

section \<open>Connecting to a path\<close>

text \<open>
  \<open>sendConnectPathRequest\<close> first queries the peer unless its public key is cached and the path is half open,
  then encrypts the identifier to the cached key and sends the request.  A failed lookup of the key leaves it nil.
\<close>

definition learn_peer :: "env \<Rightarrow> string \<Rightarrow> uuid \<Rightarrow> state \<Rightarrow> (go_error option \<times> state) outcome" where
  "learn_peer E ip treeID s =
     (if getValue (peerPublicKeys s) ip = None \<or> getValue (halfOpenPath s) treeID = None
      then obind (QueryPath E ip s) (\<lambda>(r, verified, s1).
             Ret (case r of
                    Inl err \<Rightarrow> Some (ErrNew (''public key of '' @ ip @ '' is unknown''))
                  | Inr resp \<Rightarrow> None, s1))
      else Ret (None, s))"

definition post_connect_request ::
    "env \<Rightarrow> string \<Rightarrow> uuid \<Rightarrow> DHKeyExchange \<Rightarrow> state
      \<Rightarrow> (go_error + ConnectPathResp \<times> TCPConnectionProfile) \<times> state" where
  "post_connect_request E ip treeID n3X s =
     (let targetPublicKey = (case getValue (peerPublicKeys s) ip of None \<Rightarrow> [] | Some k \<Rightarrow> k)
      in case EncryptUUID (e_lib E) (clock s) treeID targetPublicKey of
           Inl err \<Rightarrow> (Inl err, tick s)
         | Inr encryptedTreeUUID \<Rightarrow>
             (case enc_ConnectPathReq (e_gob E)
                 \<lparr>creq_EncryptedTreeUUID = encryptedTreeUUID, creq_CoverKeyExchange = n3X\<rparr> of
                Inl err \<Rightarrow> (Inl errGobEncodeMsg, tick s)
              | Inr serialized \<Rightarrow>
                  tcpSendAndWaitResponse (dec_ConnectPathResp (e_gob E)) E
                    \<lparr>pm_Type = ConnectPathRequest, pm_Content = serialized\<rparr> ip True (tick s)))"

definition sendConnectPathRequest ::
    "env \<Rightarrow> string \<Rightarrow> uuid \<Rightarrow> DHKeyExchange \<Rightarrow> state
      \<Rightarrow> ((go_error + ConnectPathResp \<times> TCPConnectionProfile) \<times> state) outcome" where
  "sendConnectPathRequest E ip treeID n3X s =
     obind (learn_peer E ip treeID s) (\<lambda>(failed, s1).
     Ret (case failed of
            Some err \<Rightarrow> (Inl err, s1)
          | None \<Rightarrow> post_connect_request E ip treeID n3X s1))"

text \<open>
  Installing a path that the other side accepted: a new context, the path, the goroutine that sends the
  cover messages, the connection.
\<close>

definition install_path :: "PathProfile \<Rightarrow> TCPConnectionProfile \<Rightarrow> uuid \<Rightarrow> state \<Rightarrow> state" where
  "install_path profile connProfile treeID s =
     (let ctx = clock s;
          newPath = profile\<lparr>p_cancelFunc := Some ctx\<rparr>;
          s1 = (tick s)\<lparr>paths := setValue (paths s) treeID newPath\<rparr>;
          s2 = spawn (SendCoverMessageWorker ctx connProfile newPath) s1
      in s2\<lparr>openConnections := setValue (openConnections s2) treeID connProfile\<rparr>)"

definition open_exchange :: "env \<Rightarrow> state \<Rightarrow> (nat \<times> DHKeyExchange \<times> state) outcome" where
  "open_exchange E s =
     (let myKeyExchangeSecret = RandomBigInt (e_lib E) (clock s) 32
      in obind (NewKeyExchange (e_lib E) (Suc (clock s)) myKeyExchangeSecret) (\<lambda>(keyExchangeInfo, t).
         Ret (myKeyExchangeSecret, keyExchangeInfo, s\<lparr>clock := t\<rparr>)))"

definition ConnectPath ::
    "env \<Rightarrow> string \<Rightarrow> uuid \<Rightarrow> state \<Rightarrow> ((ConnectPathResp option \<times> go_error option) \<times> state) outcome" where
  "ConnectPath E ip treeID s =
     obind (open_exchange E s) (\<lambda>(secret, keyExchangeInfo, s1).
     obind (sendConnectPathRequest E ip treeID keyExchangeInfo s1) (\<lambda>(r, s2).
     case r of
       Inl err \<Rightarrow> Ret ((None, Some err), s2)
     | Inr (resp, connProfile) \<Rightarrow>
         if cresp_Accepted resp
         then
           (case getValue (halfOpenPath s2) treeID of
              None \<Rightarrow> Ret ((Some resp, Some (ErrNew ''halfOpenPath not found'')), s2)
            | Some half \<Rightarrow>
                (let s3 = s2\<lparr>halfOpenPath := deleteValue (halfOpenPath s2) treeID\<rparr>
                 in obind (GetSymKey (cresp_ParentKeyExchange resp) secret) (\<lambda>symKey.
                    Ret ((Some resp, None),
                      install_path
                        (half\<lparr>p_symKey := symKey, p_successCount := 0, p_failureCount := 0\<rparr>)
                        connProfile treeID s3))))
         else Ret ((Some resp, None), s2)))"

section \<open>Asking a peer to become a proxy\<close>

definition CreateProxy ::
    "env \<Rightarrow> string \<Rightarrow> state \<Rightarrow> ((CreateProxyResp option \<times> go_error option) \<times> state) outcome" where
  "CreateProxy E ip s =
     obind (open_exchange E s) (\<lambda>(secret, keyExchangeInfo, s1).
     let (r, s2) = sendCreateProxyRequest E ip keyExchangeInfo s1
     in case r of
          Inl err \<Rightarrow> Ret ((None, Some err), s2)
        | Inr (resp, connProfile) \<Rightarrow>
            if xresp_Accepted resp
            then
              (case DecryptUUID (e_lib E) (xresp_EncryptedTreeUUID resp) (privateKey s2) of
                 Inl err \<Rightarrow> Ret ((None, Some (ErrNew ''malformed encryptedTreeUUID'')), s2)
               | Inr treeID \<Rightarrow>
                   obind (GetSymKey (xresp_ProxyKeyExchange resp) secret) (\<lambda>symKey.
                     Ret ((Some resp, None),
                       install_path
                         \<lparr>p_uuid = treeID, p_next = ip, p_next2 = IS, p_proxyPublic = xresp_ProxyPublicKey resp,
                          p_symKey = symKey, p_successCount = 0, p_failureCount = 0, p_cancelFunc = None\<rparr>
                         connProfile treeID s2)))
            else Ret ((Some resp, None), s2))"

end
