(* ===== verification/Server.thy ===== *)
theory Server
  imports Client HostPort
begin

text \<open>
  The requests a node answers: the handlers of \<open>p2p/handlers_tcp.go\<close> and the dispatch of \<open>handleMessage\<close> and
  \<open>handleConnection\<close> in \<open>p2p/node.go\<close>.  A handler gets the connection (possibly nil) and the decoded request,
  and returns its error and the state.
\<close>

record incoming =
  in_conn :: conn
  in_remote :: string

section \<open>Paths on request\<close>

definition QueryPathReq_entry ::
    "env \<Rightarrow> bytes \<Rightarrow> uuid \<Rightarrow> PathProfile \<Rightarrow> Path list \<times> state \<Rightarrow> Path list \<times> state" where
  "QueryPathReq_entry E requesterPublicKey pathID path acc =
     (let (ps, s) = acc
      in case EncryptUUID (e_lib E) (clock s) (p_uuid path) requesterPublicKey of
           Inl err \<Rightarrow> (ps, tick s)
         | Inr encryptedPathID \<Rightarrow>
             (ps @ [\<lparr>path_EncryptedTreeUUID = encryptedPathID, path_NextHopIP = p_next path,
                path_NextNextHopIP = p_next2 path, path_ProxyPublicKey = p_proxyPublic path\<rparr>], tick s))"

definition handleQueryPathReq :: "env \<Rightarrow> incoming \<Rightarrow> QueryPathReq \<Rightarrow> state \<Rightarrow> go_error option \<times> state" where
  "handleQueryPathReq E c content s =
     (let (ps, s1) =
        (if getSize (paths s) > 0
         then iterate (QueryPathReq_entry E (qreq_CoverPublicKey content)) (e_order_uuid E (clock s)) (paths s) ([], s)
         else ([], s));
        (err, s2) = write_response E (in_conn c)
          (RespQueryPath \<lparr>qresp_ParentPublicKey = publicKey s, qresp_Paths = ps\<rparr>) s1
      in (err, close_conn (in_conn c) s2))"

section \<open>Is this node my cover?\<close>

definition handleVerifyCoverReq :: "env \<Rightarrow> incoming \<Rightarrow> VerifyCoverReq \<Rightarrow> state \<Rightarrow> go_error option \<times> state" where
  "handleVerifyCoverReq E c content s =
     (let isVerified = (getValue (covers s) (vreq_NextHopIP content) \<noteq> None);
          (err, s1) = write_response E (in_conn c) (RespVerifyCover \<lparr>vresp_IsVerified = isVerified\<rparr>) s
      in (err, close_conn (in_conn c) s1))"

section \<open>Admitting a cover\<close>

definition tooManyCovers :: "env \<Rightarrow> state \<Rightarrow> bool" where
  "tooManyCovers E s \<longleftrightarrow> int (getSize (covers s)) \<ge> MAXIMUM_NUMBER_OF_COVER_NODES (e_cfg E)"

text \<open>The key exchange of an accepted request and the new entry of the cover table.\<close>

definition answer_exchange :: "env \<Rightarrow> DHKeyExchange \<Rightarrow> state \<Rightarrow> (DHKeyExchange \<times> int \<times> state) outcome" where
  "answer_exchange E offer s =
     (let myKeyExchangeSecret = RandomBigInt (e_lib E) (clock s) 32
      in obind (GenerateReturn offer myKeyExchangeSecret) (\<lambda>myKeyExchangeInfo.
         obind (GetSymKey offer myKeyExchangeSecret) (\<lambda>secretKey.
         Ret (myKeyExchangeInfo, secretKey, tick s))))"

definition add_cover :: "string \<Rightarrow> int \<Rightarrow> uuid \<Rightarrow> state \<Rightarrow> CoverNodeProfile \<times> ctx \<times> state" where
  "add_cover coverIp secretKey tree s =
     (let ctx = clock s;
          newCover = \<lparr>c_cover = coverIp, c_secretKey = secretKey, c_treeUUID = tree, c_cancelFunc = Some ctx\<rparr>
      in (newCover, ctx, (tick s)\<lparr>covers := setValue (covers s) coverIp newCover\<rparr>))"

definition reject_connect :: ConnectPathResp where
  "reject_connect = \<lparr>cresp_Accepted = False, cresp_ParentKeyExchange = nil_exchange\<rparr>"

text \<open>
  The part of \<open>handleConnectPathReq\<close> behind a positive decision: exchange, cover entry, response, worker.  When the
  response cannot be written the connection is closed and the entry stays.
\<close>

definition accept_connect ::
    "env \<Rightarrow> incoming \<Rightarrow> string \<Rightarrow> uuid \<Rightarrow> PathProfile \<Rightarrow> DHKeyExchange \<Rightarrow> state
      \<Rightarrow> (go_error option \<times> state) outcome" where
  "accept_connect E c coverIp requestedPathID forwardPath requesterKeyExchangeInfo s =
     obind (answer_exchange E requesterKeyExchangeInfo s) (\<lambda>(info, secretKey, s1).
     case add_cover coverIp secretKey requestedPathID s1 of
       (newCover, ctx, s2) \<Rightarrow>
         (case write_response E (in_conn c)
             (RespConnectPath \<lparr>cresp_Accepted = True, cresp_ParentKeyExchange = info\<rparr>) s2 of
            (Some e, s3) \<Rightarrow> Ret (Some e, close_conn (in_conn c) s3)
          | (None, s3) \<Rightarrow>
              Ret (None, spawn (HandleApplicationMessageWorker ctx (in_conn c) newCover forwardPath) s3)))"

definition handleConnectPathReq ::
    "env \<Rightarrow> incoming option \<Rightarrow> ConnectPathReq \<Rightarrow> state \<Rightarrow> (go_error option \<times> state) outcome" where
  "handleConnectPathReq E conn content s =
     (case conn of
        None \<Rightarrow> Ret (Some (ErrNew ''tcp conn terminated at handleConnectPathReq''), s)
      | Some c \<Rightarrow>
          (case SplitHostPort (in_remote c) of
             Inl err \<Rightarrow> Ret (Some (ErrNew ''tcp failed to split host and port''), close_conn (in_conn c) s)
           | Inr (coverIp, port) \<Rightarrow>
               (case DecryptUUID (e_lib E) (creq_EncryptedTreeUUID content) (privateKey s) of
                  Inl err \<Rightarrow> Ret (Some (ErrNew ''failed to decrypt incoming tree uuid''), close_conn (in_conn c) s)
                | Inr requestedPathID \<Rightarrow>
                    (case (getValue (covers s) coverIp, tooManyCovers E s, getValue (paths s) requestedPathID) of
                       (None, False, Some forwardPath) \<Rightarrow>
                         accept_connect E c coverIp requestedPathID forwardPath (creq_CoverKeyExchange content) s
                     | _ \<Rightarrow>
                         (let (err, s1) = write_response E (in_conn c) (RespConnectPath reject_connect) s
                          in Ret (err, close_conn (in_conn c) s1))))))"

section \<open>Becoming a proxy on request\<close>

definition proxy_scan :: "uuid \<Rightarrow> PathProfile \<Rightarrow> bool \<times> uuid \<Rightarrow> bool \<times> uuid" where
  "proxy_scan pathID path acc = (if p_next path = IS then (True, pathID) else acc)"

definition self_proxy_path :: "uuid \<Rightarrow> bytes \<Rightarrow> int \<Rightarrow> PathProfile" where
  "self_proxy_path pathID pub key =
     \<lparr>p_uuid = pathID, p_next = IS, p_next2 = '''', p_proxyPublic = pub, p_symKey = key,
      p_successCount = 0, p_failureCount = 0, p_cancelFunc = None\<rparr>"

definition reject_proxy :: CreateProxyResp where
  "reject_proxy = \<lparr>xresp_Accepted = False, xresp_ProxyKeyExchange = nil_exchange,
     xresp_ProxyPublicKey = [], xresp_EncryptedTreeUUID = []\<rparr>"

definition isProxyAlready :: "env \<Rightarrow> state \<Rightarrow> bool" where
  "isProxyAlready E s = fst (iterate proxy_scan (e_order_uuid E (clock s)) (paths s) (False, uuid_Nil))"

text \<open>
  The part of \<open>handleCreateProxyReq\<close> behind a positive decision.  Path and cover are stored before the identifier
  is encrypted to the requester's key and before the response is written; neither failure removes them.
\<close>

definition accept_proxy ::
    "env \<Rightarrow> incoming \<Rightarrow> string \<Rightarrow> CreateProxyReq \<Rightarrow> state \<Rightarrow> (go_error option \<times> state) outcome" where
  "accept_proxy E c coverIp content s =
     obind (answer_exchange E (xreq_CoverKeyExchange content) s) (\<lambda>(info, secretKey, s1).
     let newPathID = e_uuid E (clock s1);
         newPath = self_proxy_path newPathID (publicKey s) secretKey;
         s2 = (tick s1)\<lparr>paths := setValue (paths s1) newPathID newPath\<rparr>
     in case add_cover coverIp secretKey newPathID s2 of
          (newCover, ctx, s3) \<Rightarrow>
            (case EncryptUUID (e_lib E) (clock s3) newPathID (xreq_CoverPublicKey content) of
               Inl err \<Rightarrow> Ret (Some err, close_conn (in_conn c) (tick s3))
             | Inr encryptedPathID \<Rightarrow>
                 (case write_response E (in_conn c)
                     (RespCreateProxy \<lparr>xresp_Accepted = True, xresp_ProxyKeyExchange = info,
                        xresp_ProxyPublicKey = publicKey s, xresp_EncryptedTreeUUID = encryptedPathID\<rparr>)
                     (tick s3) of
                    (Some e, s4) \<Rightarrow> Ret (Some e, close_conn (in_conn c) s4)
                  | (None, s4) \<Rightarrow>
                      Ret (None, spawn (HandleApplicationMessageWorker ctx (in_conn c) newCover newPath) s4))))"

definition handleCreateProxyReq ::
    "env \<Rightarrow> incoming option \<Rightarrow> CreateProxyReq \<Rightarrow> state \<Rightarrow> (go_error option \<times> state) outcome" where
  "handleCreateProxyReq E conn content s =
     (case conn of
        None \<Rightarrow> Ret (Some (ErrNew ''tcp conn terminated at handleCreateProxyReq''), s)
      | Some c \<Rightarrow>
          (case SplitHostPort (in_remote c) of
             Inl err \<Rightarrow> Ret (Some (ErrNew ''tcp conn failed to split host port''), s)
           | Inr (coverIp, port) \<Rightarrow>
               (let alreadyMyCover = (getValue (covers s) coverIp \<noteq> None)
                in if \<not> alreadyMyCover \<and> \<not> tooManyCovers E s \<and> \<not> isProxyAlready E s
                   then accept_proxy E c coverIp content s
                   else
                     (let (err, s1) = write_response E (in_conn c) (RespCreateProxy reject_proxy) s
                      in Ret (err, close_conn (in_conn c) s1)))))"

section \<open>Dispatch\<close>

text \<open>A message of no known type, or one whose content does not decode, is an error; its connection stays open.\<close>

definition handleMessage :: "env \<Rightarrow> incoming \<Rightarrow> ProtocolMessage \<Rightarrow> state \<Rightarrow> (go_error option \<times> state) outcome" where
  "handleMessage E c msg s =
     (let invalid = Ret (Some (ErrNew ''invalid incoming ProtocolMessage''), s)
      in if pm_Type msg = QueryPathRequest
         then (case dec_QueryPathReq (e_gob E) (pm_Content msg) of
                 Inl err \<Rightarrow> invalid | Inr req \<Rightarrow> Ret (handleQueryPathReq E c req s))
         else if pm_Type msg = VerifyCoverRequest
         then (case dec_VerifyCoverReq (e_gob E) (pm_Content msg) of
                 Inl err \<Rightarrow> invalid | Inr req \<Rightarrow> Ret (handleVerifyCoverReq E c req s))
         else if pm_Type msg = ConnectPathRequest
         then (case dec_ConnectPathReq (e_gob E) (pm_Content msg) of
                 Inl err \<Rightarrow> invalid | Inr req \<Rightarrow> handleConnectPathReq E (Some c) req s)
         else if pm_Type msg = CreateProxyRequest
         then (case dec_CreateProxyReq (e_gob E) (pm_Content msg) of
                 Inl err \<Rightarrow> invalid | Inr req \<Rightarrow> handleCreateProxyReq E (Some c) req s)
         else invalid)"

definition handleConnection ::
    "env \<Rightarrow> incoming \<Rightarrow> go_error + ProtocolMessage \<Rightarrow> state \<Rightarrow> state outcome" where
  "handleConnection E c decoded s =
     (case decoded of
        Inl err \<Rightarrow> Ret (close_conn (in_conn c) s)
      | Inr msg \<Rightarrow> obind (handleMessage E c msg s) (\<lambda>(err, s'). Ret s'))"

end
