(* ===== verification/Traffic.thy ===== *)
theory Traffic
  imports Server
begin

text \<open>
  Application traffic: publishing a message (\<open>Publish\<close>, \<open>Forward\<close>, \<open>Read\<close> of \<open>p2p/node.go\<close>), handling one that
  a cover sent (\<open>handleApplicationMessage\<close>, \<open>handleRealMessage\<close> of \<open>p2p/workers.go\<close>), and the bookkeeping of publish
  jobs.
\<close>

section \<open>Publish condition and publish jobs\<close>

definition canPublish :: "env \<Rightarrow> state \<Rightarrow> bool" where
  "canPublish E s \<longleftrightarrow>
     int (getSize (covers s)) \<ge> NUMBER_OF_COVER_NODES_FOR_PUBLISH (e_cfg E) \<and> getSize (paths s) > 0"

definition needMorePaths :: "env \<Rightarrow> state \<Rightarrow> bool" where
  "needMorePaths E s \<longleftrightarrow> int (getSize (paths s)) < TARGET_NUMBER_OF_CONNECTED_PATHS (e_cfg E)"

definition markPublishJobStatus :: "uuid \<Rightarrow> PublishJobProfile \<Rightarrow> state \<Rightarrow> state" where
  "markPublishJobStatus jobID job s =
     (let s1 = s\<lparr>publishJobs := setValue (publishJobs s) jobID job\<rparr>
      in case getValue (paths s1) (j_OnPath job) of
           None \<Rightarrow> s1
         | Some path \<Rightarrow>
             (let path' = (if j_Status job = SUCCESS
                           then path\<lparr>p_successCount := p_successCount path + 1\<rparr>
                           else path\<lparr>p_failureCount := p_failureCount path + 1\<rparr>)
              in s1\<lparr>paths := setValue (paths s1) (j_OnPath job) path'\<rparr>))"

section \<open>Publishing\<close>

definition record_job :: "env \<Rightarrow> bytes \<Rightarrow> uuid \<Rightarrow> state \<Rightarrow> uuid \<times> state" where
  "record_job E key onPath s =
     (let newJobID = e_uuid E (clock s);
          s1 = (tick s)\<lparr>publishJobs := setValue (publishJobs s) newJobID
                 \<lparr>j_Key = key, j_Status = PENDING, j_OnPath = onPath\<rparr>\<rparr>
      in (newJobID, spawn (CheckPublishJobStatusWorker newJobID) s1))"

text \<open>Storing through a path of one's own: an error and a negative answer are the same failure.\<close>

definition publish_self :: "env \<Rightarrow> bytes \<Rightarrow> bytes \<Rightarrow> state \<Rightarrow> go_error option \<times> state" where
  "publish_self E key message s =
     (let s1 = (tick s)\<lparr>stored := stored s @ [(key, message)]\<rparr>;
          failed = Some (ErrNew ''publish job picked self proxy path but failed to store to ImmutableStorage'')
      in case e_Store E (clock s) key message of
           Inl err \<Rightarrow> (failed, s1)
         | Inr success \<Rightarrow> if success then (None, s1) else (failed, s1))"

definition usable :: "TCPConnectionProfile option \<Rightarrow> conn option" where
  "usable profile =
     (case profile of
        None \<Rightarrow> None
      | Some connProfile \<Rightarrow> if tc_Conn connProfile = None then None else tc_Encoder connProfile)"

definition publish_remote ::
    "env \<Rightarrow> bytes \<Rightarrow> bytes \<Rightarrow> uuid \<Rightarrow> PathProfile \<Rightarrow> state \<Rightarrow> go_error option \<times> state" where
  "publish_remote E key message pathID pathProfile s =
     (let s1 = s\<lparr>clock := clock s + 3\<rparr>
      in case NewRealMessage (e_lib E) (e_gob E) (clock s) \<lparr>dm_Key = key, dm_Content = message\<rparr>
                (p_proxyPublic pathProfile) (p_symKey pathProfile) of
           Inl err \<Rightarrow> (Some (ErrNew ''encryption from data to application failed''), s1)
         | Inr am \<Rightarrow>
             (case usable (getValue (openConnections s1) pathID) of
                None \<Rightarrow> (Some (ErrNew ''publish job need to forward to path but failed to find open connections''), s1)
              | Some encoder \<Rightarrow>
                  (case write_message E encoder am s1 of
                     (Some err, s2) \<Rightarrow> (Some (ErrNew ''error when sending tcp request''), s2)
                   | (None, s2) \<Rightarrow> (None, s2))))"

definition choose_path :: "env \<Rightarrow> uuid \<Rightarrow> state \<Rightarrow> ((go_error + uuid \<times> PathProfile) \<times> state) outcome" where
  "choose_path E targetPathId s =
     (if targetPathId = uuid_Nil
      then obind (pick (e_order_uuid E (clock s)) (e_draw E (clock s)) (paths s)) (\<lambda>entry. Ret (Inr entry, tick s))
      else (case getValue (paths s) targetPathId of
              None \<Rightarrow> Ret (Inl (ErrNew ''targetPathId does not exist''), s)
            | Some pathProfile \<Rightarrow> Ret (Inr (targetPathId, pathProfile), s)))"

definition Publish ::
    "env \<Rightarrow> bytes \<Rightarrow> bytes \<Rightarrow> uuid \<Rightarrow> state \<Rightarrow> ((go_error + uuid) \<times> state) outcome" where
  "Publish E key message targetPathId s =
     (if \<not> canPublish E s then Ret (Inl (ErrNew ''publishing condition not met''), s)
      else if \<not> e_ValidateKey E key message then Ret (Inl (ErrNew ''key not valid''), s)
      else
        obind (choose_path E targetPathId s) (\<lambda>(choice, s1).
        case choice of
          Inl err \<Rightarrow> Ret (Inl err, s1)
        | Inr (pathID, pathProfile) \<Rightarrow>
            (let (failed, s2) =
               (if p_next pathProfile = IS then publish_self E key message s1
                else publish_remote E key message pathID pathProfile s1)
             in case failed of
                  Some err \<Rightarrow> Ret (Inl err, s2)
                | None \<Rightarrow>
                    (let (newJobID, s3) = record_job E key (p_uuid pathProfile) s2
                     in Ret (Inr newJobID, s3)))))"

text \<open>A failed read leaves the response nil, and its field is read all the same.\<close>

definition Read :: "env \<Rightarrow> bytes \<Rightarrow> state \<Rightarrow> ((go_error + bytes) \<times> state) outcome" where
  "Read E key s =
     (case e_Read E (clock s) key of
        Inl err \<Rightarrow> Panic NilDeref
      | Inr content \<Rightarrow> Ret (Inr content, tick s))"

section \<open>Forwarding\<close>

definition Forward ::
    "env \<Rightarrow> bytes \<Rightarrow> CoverNodeProfile \<Rightarrow> PathProfile \<Rightarrow> state \<Rightarrow> go_error option \<times> state" where
  "Forward E asymOutput coverProfile forwardPathProfile s =
     (case enc_Sym (e_gob E) \<lparr>sym_Type = Real, sym_AsymetricEncryptedPayload = asymOutput\<rparr> of
        Inl err \<Rightarrow> (Some err, s)
      | Inr symInputInBytes \<Rightarrow>
          (case SymmetricEncrypt (e_lib E) (clock s) symInputInBytes (p_symKey forwardPathProfile) of
             Inl err \<Rightarrow> (Some err, tick s)
           | Inr symOutput \<Rightarrow>
               (case usable (getValue (openConnections s) (p_uuid forwardPathProfile)) of
                  None \<Rightarrow> (Some (ErrNew ''failed to find open connection''), tick s)
                | Some encoder \<Rightarrow>
                    (case write_message E encoder \<lparr>am_SymmetricEncryptedPayload = symOutput\<rparr> (tick s) of
                       (Some err, s2) \<Rightarrow> (Some (ErrNew ''error when forwarding real message''), s2)
                     | (None, s2) \<Rightarrow> (None, s2)))))"

definition store_real :: "env \<Rightarrow> bytes \<Rightarrow> state \<Rightarrow> go_error option \<times> state" where
  "store_real E asymInputBytes s =
     (case dec_Asym (e_gob E) asymInputBytes of
        Inl err \<Rightarrow> (Some err, s)
      | Inr asymInput \<Rightarrow>
          (let key = dm_Key (asym_Data asymInput);
               content = dm_Content (asym_Data asymInput);
               s1 = (tick s)\<lparr>stored := stored s @ [(key, content)]\<rparr>
           in case e_Store E (clock s) key content of
                Inl err \<Rightarrow> (Some err, s1)
              | Inr success \<Rightarrow> (None, s1)))"

definition handleRealMessage ::
    "env \<Rightarrow> bytes \<Rightarrow> CoverNodeProfile \<Rightarrow> PathProfile \<Rightarrow> state \<Rightarrow> go_error option \<times> state" where
  "handleRealMessage E asymOutput coverProfile forwardPathProfile s =
     (case AsymmetricDecrypt (e_lib E) asymOutput (privateKey s) of
        Inl err \<Rightarrow>
          if err \<noteq> WrongPrivateKey then (Some err, s)
          else Forward E asymOutput coverProfile forwardPathProfile s
      | Inr asymInputBytes \<Rightarrow>
          if p_next forwardPathProfile \<noteq> IS
          then (Some (ErrNew ''can asym decrypt but next hop is not IS''), s)
          else store_real E asymInputBytes s)"

definition handleApplicationMessage ::
    "env \<Rightarrow> ApplicationMessage \<Rightarrow> CoverNodeProfile \<Rightarrow> PathProfile \<Rightarrow> state
      \<Rightarrow> (go_error option \<times> state) outcome" where
  "handleApplicationMessage E rawMessage coverProfile forwardPathProfile s =
     obind (SymmetricDecrypt (e_lib E) (am_SymmetricEncryptedPayload rawMessage) (c_secretKey coverProfile)) (\<lambda>r.
     case r of
       Inl err \<Rightarrow> Ret (Some err, s)
     | Inr symInputBytes \<Rightarrow>
         (case dec_Sym (e_gob E) symInputBytes of
            Inl err \<Rightarrow> Ret (Some err, s)
          | Inr symInput \<Rightarrow>
              if sym_Type symInput = Cover then Ret (None, s)
              else if sym_Type symInput = Real
              then Ret (handleRealMessage E (sym_AsymetricEncryptedPayload symInput) coverProfile forwardPathProfile s)
              else Ret (Some (ErrNew ''invalid data message type''), s)))"

end
