(* ===== verification/Maintenance.thy ===== *)
theory Maintenance
  imports Traffic
begin

text \<open>
  The goroutines of \<open>p2p/workers.go\<close>: finding blacklisted and invalid paths, moving up, getting more paths, one
  iteration of the two maintenance loops, and the rounds and the cleanup of the two workers that belong to a
  connection.

  The loop of \<open>getMorePaths\<close> ends when the node has enough paths or when a timer fires; the argument
  \<open>rounds\<close> is the number of attempts that finish before the timer does, and the attempt running at
  that moment still completes in its own goroutine.
\<close>

section \<open>Finding paths to repair\<close>

definition blacklistPaths :: "env \<Rightarrow> state \<Rightarrow> PathProfile list" where
  "blacklistPaths E s =
     iterate (\<lambda>pathID path results.
         if p_failureCount path \<ge> MOVE_UP_REQUIREMENT_FAILURE_THRESHOLD (e_cfg E) then results @ [path] else results)
       (e_order_uuid E (clock s)) (paths s) []"

datatype HandleType = CLEAN | FIX

record InvalidPathProfile =
  i_SelfProfile :: PathProfile
  i_NextHopProfile :: Path
  i_HandleType :: HandleType

definition zero_Path :: Path where
  "zero_Path = \<lparr>path_EncryptedTreeUUID = [], path_NextHopIP = '''', path_NextNextHopIP = '''', path_ProxyPublicKey = []\<rparr>"

definition clean_report :: "PathProfile \<Rightarrow> InvalidPathProfile" where
  "clean_report old = \<lparr>i_SelfProfile = old, i_NextHopProfile = zero_Path, i_HandleType = CLEAN\<rparr>"

definition judge_path :: "env \<Rightarrow> bytes \<Rightarrow> uuid \<Rightarrow> PathProfile \<Rightarrow> go_error + QueryPathResp \<Rightarrow> InvalidPathProfile list" where
  "judge_path E priv pathID oldPath r =
     (case r of
        Inl err \<Rightarrow> [clean_report oldPath]
      | Inr resp \<Rightarrow>
          (case find (\<lambda>newPath. DecryptUUID (e_lib E) (path_EncryptedTreeUUID newPath) priv = Inr pathID)
             (qresp_Paths resp) of
             None \<Rightarrow> [clean_report oldPath]
           | Some newPath \<Rightarrow>
               if p_next2 oldPath \<noteq> path_NextHopIP newPath \<or> p_proxyPublic oldPath \<noteq> path_ProxyPublicKey newPath
               then [\<lparr>i_SelfProfile = oldPath, i_NextHopProfile = newPath, i_HandleType = FIX\<rparr>]
               else []))"

definition invalid_step ::
    "env \<Rightarrow> uuid \<Rightarrow> PathProfile \<Rightarrow> InvalidPathProfile list \<times> state \<Rightarrow> InvalidPathProfile list \<times> state" where
  "invalid_step E pathID oldPath acc =
     (let (results, s) = acc
      in if p_next oldPath = IS then (results, s)
         else let (r, s1) = sendQueryPathRequest E (p_next oldPath) s
              in (results @ judge_path E (privateKey s) pathID oldPath r, s1))"

definition invalidPathProfiles :: "env \<Rightarrow> state \<Rightarrow> InvalidPathProfile list \<times> state" where
  "invalidPathProfiles E s = iterate (invalid_step E) (e_order_uuid E (clock s)) (paths s) ([], s)"

section \<open>Moving up\<close>

definition cancel_covers_of :: "env \<Rightarrow> uuid \<Rightarrow> state \<Rightarrow> state outcome" where
  "cancel_covers_of E pathId s =
     ofold (\<lambda>(coverIP, coverProfile) s.
         if c_treeUUID coverProfile = pathId
         then call_cancel (c_cancelFunc coverProfile) (ErrNew ''deleted during move up'') s
         else Ret s)
       (range_entries (e_order_ip E (clock s)) (covers s)) s"

definition become_proxy :: "env \<Rightarrow> state \<Rightarrow> state" where
  "become_proxy E s =
     (let pathID = e_uuid E (clock s)
      in (tick s)\<lparr>paths := setValue (paths s) pathID (self_proxy_path pathID (publicKey s) 0)\<rparr>)"

definition MoveUp :: "env \<Rightarrow> PathProfile \<Rightarrow> state \<Rightarrow> state outcome" where
  "MoveUp E blacklistPath s =
     (if p_next2 blacklistPath = IS then Ret s
      else
        let (r, s1) = sendVerifyCoverRequest E (p_next2 blacklistPath) (p_next blacklistPath) s
        in case r of
             Inl err \<Rightarrow> Ret s1
           | Inr resp \<Rightarrow>
               obind
                 (if vresp_IsVerified resp
                  then obind (ConnectPath E (p_next2 blacklistPath) (p_uuid blacklistPath) s1) (\<lambda>((resp, err), s2).
                       Ret (err = None \<and> (case resp of None \<Rightarrow> False | Some m \<Rightarrow> cresp_Accepted m), s2))
                  else Ret (False, s1)) (\<lambda>(connected, s2).
               if connected then Ret s2
               else obind (cancel_covers_of E (p_uuid blacklistPath) s2) (\<lambda>s3. Ret (become_proxy E s3))))"

section \<open>Getting more paths\<close>

definition attempt_path :: "env \<Rightarrow> string list \<Rightarrow> state \<Rightarrow> state outcome" where
  "attempt_path E members s =
     obind (rand_Intn (e_draw E (clock s)) (length members)) (\<lambda>peerChoice.
     let memberIP = members ! peerChoice
     in obind (QueryPath E memberIP (tick s)) (\<lambda>(r, pendingPaths, s1).
        if length pendingPaths > 0
        then
          obind (rand_Intn (e_draw E (clock s1)) (length pendingPaths)) (\<lambda>pathChoice.
          obind (ConnectPath E memberIP (p_uuid (pendingPaths ! pathChoice)) (tick s1)) (\<lambda>(r, s2). Ret s2))
        else obind (CreateProxy E memberIP s1) (\<lambda>(r, s2). Ret s2)))"

fun getMorePaths_loop :: "env \<Rightarrow> string list \<Rightarrow> nat \<Rightarrow> state \<Rightarrow> state outcome" where
  "getMorePaths_loop E members rounds s =
     (if needMorePaths E s
      then obind (attempt_path E members s) (\<lambda>s'.
           case rounds of 0 \<Rightarrow> Ret s' | Suc n \<Rightarrow> getMorePaths_loop E members n s')
      else Ret s)"

declare getMorePaths_loop.simps [simp del]

definition getMorePaths :: "env \<Rightarrow> nat \<Rightarrow> state \<Rightarrow> state outcome" where
  "getMorePaths E rounds s =
     (case e_GetMembers E (clock s) of
        Inl err \<Rightarrow> Ret (tick s)
      | Inr members \<Rightarrow>
          if length members \<le> 0 then Ret (tick s)
          else getMorePaths_loop E members rounds (tick s))"

definition maintainPathQuantity :: "env \<Rightarrow> nat \<Rightarrow> state \<Rightarrow> state outcome" where
  "maintainPathQuantity E rounds s = (if needMorePaths E s then getMorePaths E rounds s else Ret s)"

section \<open>One iteration of the health worker\<close>

definition handle_blacklisted :: "env \<Rightarrow> PathProfile \<Rightarrow> state \<Rightarrow> state outcome" where
  "handle_blacklisted E path s =
     obind (call_cancel (p_cancelFunc path)
         (ErrNew ''removed by maintain paths health worker due to blacklisted'') s) (\<lambda>s1.
     MoveUp E path s1)"

definition handle_invalid :: "InvalidPathProfile \<Rightarrow> state \<Rightarrow> state outcome" where
  "handle_invalid report s =
     (case i_HandleType report of
        CLEAN \<Rightarrow> call_cancel (p_cancelFunc (i_SelfProfile report)) (ErrNew ''invalid path was cleaned'') s
      | FIX \<Rightarrow>
          (let fixed = (i_SelfProfile report)\<lparr>p_next2 := path_NextHopIP (i_NextHopProfile report),
                 p_proxyPublic := path_ProxyPublicKey (i_NextHopProfile report)\<rparr>
           in Ret (s\<lparr>paths := setValue (paths s) (p_uuid fixed) fixed\<rparr>)))"

definition maintainPathsHealth :: "env \<Rightarrow> state \<Rightarrow> state outcome" where
  "maintainPathsHealth E s =
     obind (ofold (handle_blacklisted E) (blacklistPaths E s) s) (\<lambda>s1.
     let (reports, s2) = invalidPathProfiles E s1
     in ofold handle_invalid reports s2)"

section \<open>The workers of a connection\<close>

definition finish_task :: "task \<Rightarrow> state \<Rightarrow> state" where
  "finish_task g s = s\<lparr>tasks := remove1 g (tasks s)\<rparr>"

text \<open>
  The deferred cleanup: the path may have been replaced since the worker was started, and is removed only
  if its next hop is still the address this worker's connection goes to.  An absent path reads as the zero
  profile, whose next hop is the empty string.
\<close>

definition sendCover_cleanup :: "TCPConnectionProfile \<Rightarrow> PathProfile \<Rightarrow> state \<Rightarrow> state" where
  "sendCover_cleanup connProfile path s =
     (let current_next = (case getValue (paths s) (p_uuid path) of None \<Rightarrow> '''' | Some p \<Rightarrow> p_next p);
          s1 = (if current_next = tc_IP connProfile
                then s\<lparr>paths := deleteValue (paths s) (p_uuid path)\<rparr> else s)
      in case tc_Conn connProfile of None \<Rightarrow> s1 | Some c \<Rightarrow> close_conn c s1)"

text \<open>One round of the loop: \<open>True\<close> when the worker goes on.\<close>

definition sendCover_round ::
    "env \<Rightarrow> ctx \<Rightarrow> TCPConnectionProfile \<Rightarrow> PathProfile \<Rightarrow> state \<Rightarrow> (bool \<times> state) outcome" where
  "sendCover_round E ctx connProfile path s =
     (let s1 = s\<lparr>clock := clock s + 4\<rparr>
      in case NewCoverMessage (e_lib E) (e_gob E) (clock s) (p_proxyPublic path) (p_symKey path) of
           Inl err \<Rightarrow> Ret (False, s1)
         | Inr coverMsg \<Rightarrow>
             (case tc_Encoder connProfile of
                None \<Rightarrow> Panic NilDeref
              | Some encoder \<Rightarrow>
                  (case write_message E encoder coverMsg s1 of
                     (Some err, s2) \<Rightarrow> Ret (False, s2)
                   | (None, s2) \<Rightarrow> Ret (map_of (cancelled s2) ctx = None, s2))))"

definition sendCoverMessageWorker ::
    "env \<Rightarrow> ctx \<Rightarrow> TCPConnectionProfile \<Rightarrow> PathProfile \<Rightarrow> state \<Rightarrow> state outcome" where
  "sendCoverMessageWorker E ctx connProfile path s =
     obind (sendCover_round E ctx connProfile path s) (\<lambda>(continue, s1).
     Ret (if continue then s1
          else finish_task (SendCoverMessageWorker ctx connProfile path) (sendCover_cleanup connProfile path s1)))"

text \<open>What the \<open>select\<close> of \<open>handleApplicationMessageWorker\<close> finds ready.\<close>

datatype app_event = Received ApplicationMessage | ReceiveError go_error | CoverTimeout | ContextDone

definition handleApp_cleanup :: "conn \<Rightarrow> CoverNodeProfile \<Rightarrow> state \<Rightarrow> state" where
  "handleApp_cleanup conn coverProfile s =
     close_conn conn (s\<lparr>covers := deleteValue (covers s) (c_cover coverProfile)\<rparr>)"

definition handleApplicationMessageWorker ::
    "env \<Rightarrow> ctx \<Rightarrow> conn \<Rightarrow> CoverNodeProfile \<Rightarrow> PathProfile \<Rightarrow> app_event \<Rightarrow> state \<Rightarrow> state outcome" where
  "handleApplicationMessageWorker E ctx conn coverProfile forwardPathProfile event s =
     (case event of
        Received msg \<Rightarrow>
          obind (handleApplicationMessage E msg coverProfile forwardPathProfile s) (\<lambda>(err, s'). Ret s')
      | _ \<Rightarrow>
          Ret (finish_task (HandleApplicationMessageWorker ctx conn coverProfile forwardPathProfile)
                 (handleApp_cleanup conn coverProfile s)))"

end
