(* ===== verification/Invariants.thy ===== *)
theory Invariants
  imports Maintenance
begin

text \<open>
  What the operations of a node keep: the shape of its tables (\<open>node_ok\<close>), a usable connection for every
  path to another node (\<open>connected_ok\<close>), the bound on the covers.  Requests change no table; \<open>QueryPath\<close> changes
  only the caches; each of the other operations is covered by one lemma.
\<close>

section \<open>Requests\<close>

lemma tcpSend_same_node: "same_node s (snd (tcpSendAndWaitResponse decode E req ip keep s))"
  by (auto simp: tcpSendAndWaitResponse_def Let_def same_node_def node.defs tick_def close_conn_def
      split: option.splits sum.splits)

definition same_runtime :: "state \<Rightarrow> state \<Rightarrow> bool" where
  "same_runtime s s' \<longleftrightarrow> tasks s' = tasks s \<and> cancelled s' = cancelled s \<and> responses s' = responses s \<and>
     sent s' = sent s \<and> stored s' = stored s"

lemma same_runtime_refl [simp]: "same_runtime s s"
  by (simp add: same_runtime_def)

lemma same_runtime_trans: "same_runtime s t \<Longrightarrow> same_runtime t u \<Longrightarrow> same_runtime s u"
  by (simp add: same_runtime_def)

lemma tcpSend_same_runtime: "same_runtime s (snd (tcpSendAndWaitResponse decode E req ip keep s))"
  by (auto simp: tcpSendAndWaitResponse_def Let_def same_runtime_def tick_def close_conn_def
      split: option.splits sum.splits)

lemma send_same [frame_simps]:
  "same_node s (snd (sendQueryPathRequest E ip s))"
  "same_node s (snd (sendVerifyCoverRequest E ip x s))"
  "same_node s (snd (sendCreateProxyRequest E ip ex s))"
  "same_runtime s (snd (sendQueryPathRequest E ip s))"
  "same_runtime s (snd (sendVerifyCoverRequest E ip x s))"
  "same_runtime s (snd (sendCreateProxyRequest E ip ex s))"
  by (simp_all add: sendQueryPathRequest_def sendVerifyCoverRequest_def sendCreateProxyRequest_def
      Let_def case_prod_beta tcpSend_same_node tcpSend_same_runtime split: sum.splits)

text \<open>The connection a request returns is one it opened, with its encoder.\<close>

lemma tcpSend_profile:
  "tcpSendAndWaitResponse decode E req ip keep s = (Inr (r, tc), s') \<Longrightarrow>
   tc = \<lparr>tc_Conn = Some (clock s), tc_Encoder = Some (clock s), tc_IP = ip\<rparr>"
  by (auto simp: tcpSendAndWaitResponse_def Let_def split: option.splits sum.splits)

section \<open>QueryPath\<close>

text \<open>The caches \<open>QueryPath\<close> fills; everything else stays.\<close>

definition same_but_caches :: "state \<Rightarrow> state \<Rightarrow> bool" where
  "same_but_caches s s' \<longleftrightarrow>
     paths s' = paths s \<and> openConnections s' = openConnections s \<and> covers s' = covers s \<and>
     publishJobs s' = publishJobs s \<and> publicKey s' = publicKey s \<and> privateKey s' = privateKey s \<and>
     same_runtime s s'"

lemma same_but_caches_refl [simp]: "same_but_caches s s"
  by (simp add: same_but_caches_def)

lemma same_but_caches_trans: "same_but_caches s t \<Longrightarrow> same_but_caches t u \<Longrightarrow> same_but_caches s u"
  by (auto simp: same_but_caches_def intro: same_runtime_trans)

lemma same_node_runtime_caches: "same_node s t \<Longrightarrow> same_runtime s t \<Longrightarrow> same_but_caches s t"
  by (simp add: same_but_caches_def same_node_fields)

definition caches_ok :: "state \<Rightarrow> bool" where
  "caches_ok s \<longleftrightarrow> half_ok (halfOpenPath s) \<and> wf_map (peerPublicKeys s)"

lemma node_ok_caches: "same_but_caches s t \<Longrightarrow> caches_ok t \<Longrightarrow> node_ok s \<Longrightarrow> node_ok t"
  by (simp add: node_ok_def same_but_caches_def caches_ok_def)

lemma node_ok_caches_ok: "node_ok s \<Longrightarrow> caches_ok s"
  by (simp add: node_ok_def caches_ok_def)

lemma verify_half_open_same:
  "verify_half_open E half s = (b, s') \<Longrightarrow> same_node s s' \<and> same_runtime s s'"
  using send_same(2,5) [of s E "p_next2 half" "p_next half"]
  by (auto simp: verify_half_open_def Let_def split: if_splits prod.splits)

text \<open>
  A path that \<open>QueryPath\<close> offers goes through the queried peer, is in the half-open table, and its second hop is
  storage or confirmed the peer as its cover.
\<close>

definition offered_ok :: "string \<Rightarrow> PathProfile list \<times> state \<Rightarrow> bool" where
  "offered_ok ip acc \<longleftrightarrow>
     (\<forall>p \<in> set (fst acc). p_next p = ip \<and>
        (\<exists>h. getValue (halfOpenPath (snd acc)) (p_uuid p) = Some h \<and> p_next h = ip))"

lemma QueryPath_step_ok:
  assumes "QueryPath_step E ip path (v, s) = (v', s')"
    and "offered_ok ip (v, s)" and "caches_ok s"
  shows "same_but_caches s s' \<and> caches_ok s' \<and> offered_ok ip (v', s')"
proof -
  have keep: "halfOpenPath t = halfOpenPath s \<and> peerPublicKeys t = peerPublicKeys s \<and> same_but_caches s t"
    if "verify_half_open E h s = (b, t)" for h b t
    using verify_half_open_same [OF that] by (simp add: same_node_fields same_node_runtime_caches)
  show ?thesis
    using assms keep
    by (auto simp: QueryPath_step_def Let_def offered_ok_def caches_ok_def same_but_caches_def same_runtime_def
        split: sum.splits if_splits prod.splits option.splits intro!: wf_intros)
qed

lemma QueryPath_fold_ok:
  assumes "fold (QueryPath_step E ip) ps (v, s) = (v', s')" and "offered_ok ip (v, s)" and "caches_ok s"
  shows "same_but_caches s s' \<and> caches_ok s' \<and> offered_ok ip (v', s')"
  using assms
proof (induction ps arbitrary: v s)
  case Nil
  then show ?case by simp
next
  case (Cons p ps)
  obtain w t where t: "QueryPath_step E ip p (v, s) = (w, t)"
    by (cases "QueryPath_step E ip p (v, s)") auto
  then have "fold (QueryPath_step E ip) ps (w, t) = (v', s')"
    using Cons.prems(1) by simp
  then show ?case
    using QueryPath_step_ok [OF t Cons.prems(2,3)] Cons.IH [of w t] same_but_caches_trans by blast
qed

lemma QueryPath_ok:
  assumes "QueryPath E ip s = Ret (r, verified, s')" and "caches_ok s"
  shows "same_but_caches s s' \<and> caches_ok s' \<and> offered_ok ip (verified, s')"
proof -
  obtain r1 s1 where send: "sendQueryPathRequest E ip s = (r1, s1)"
    by (cases "sendQueryPathRequest E ip s") auto
  then have s1: "same_node s s1" "same_runtime s s1"
    using send_same(1,4) [of s E ip] by auto
  obtain resp where "r1 = Inr resp"
    using assms(1) send by (cases r1) (auto simp: QueryPath_def)
  then have run: "fold (QueryPath_step E ip) (qresp_Paths resp)
      ([], s1\<lparr>peerPublicKeys := setValue (peerPublicKeys s1) ip (qresp_ParentPublicKey resp)\<rparr>) = (verified, s')"
    using assms(1) send by (auto simp: QueryPath_def Let_def split: prod.splits)
  let ?s2 = "s1\<lparr>peerPublicKeys := setValue (peerPublicKeys s1) ip (qresp_ParentPublicKey resp)\<rparr>"
  have "caches_ok ?s2"
    using assms(2) s1(1) by (auto simp: caches_ok_def same_node_fields intro: wf_intros)
  moreover have "same_but_caches s ?s2"
    using s1 by (auto simp: same_but_caches_def same_node_fields same_runtime_def)
  moreover have "offered_ok ip ([], ?s2)"
    by (simp add: offered_ok_def)
  ultimately show ?thesis
    using QueryPath_fold_ok [OF run] same_but_caches_trans by blast
qed

section \<open>The invariant of a node\<close>

definition connected_ok :: "state \<Rightarrow> bool" where
  "connected_ok s \<longleftrightarrow>
     (\<forall>k p. getValue (paths s) k = Some p \<and> p_next p \<noteq> IS \<longrightarrow> usable (getValue (openConnections s) k) \<noteq> None)"

definition covers_bounded :: "env \<Rightarrow> state \<Rightarrow> bool" where
  "covers_bounded E s \<longleftrightarrow> int (getSize (covers s)) \<le> max 0 (MAXIMUM_NUMBER_OF_COVER_NODES (e_cfg E))"

text \<open>A running cover worker has the connection and the context it was started with.\<close>

definition task_ok :: "task \<Rightarrow> bool" where
  "task_ok g =
     (case g of
        SendCoverMessageWorker ctx tc p \<Rightarrow> usable (Some tc) \<noteq> None \<and> p_cancelFunc p = Some ctx
      | HandleApplicationMessageWorker ctx conn c p \<Rightarrow> c_cancelFunc c = Some ctx
      | CheckPublishJobStatusWorker jobID \<Rightarrow> True)"

definition node_inv :: "env \<Rightarrow> state \<Rightarrow> bool" where
  "node_inv E s \<longleftrightarrow> node_ok s \<and> connected_ok s \<and> covers_bounded E s \<and> (\<forall>g \<in> set (tasks s). task_ok g)"

lemma node_inv_caches:
  "same_but_caches s t \<Longrightarrow> caches_ok t \<Longrightarrow> node_inv E s \<Longrightarrow> node_inv E t"
  by (auto simp: node_inv_def connected_ok_def covers_bounded_def node_ok_caches same_but_caches_def
      same_runtime_def intro: node_ok_caches)

lemma node_inv_caches_ok: "node_inv E s \<Longrightarrow> caches_ok s"
  by (simp add: node_inv_def node_ok_caches_ok)

lemma node_inv_same_node:
  "same_node s t \<Longrightarrow> set (tasks t) \<subseteq> set (tasks s) \<Longrightarrow> node_inv E s \<Longrightarrow> node_inv E t"
  by (auto simp: node_inv_def connected_ok_def covers_bounded_def same_node_fields same_node_ok)

lemma node_inv_NewNode: "node_inv E (NewNode L t name)"
  by (simp add: node_inv_def NewNode_ok)
    (simp add: NewNode_def Let_def connected_ok_def covers_bounded_def split: prod.split)

section \<open>Connecting and creating paths\<close>

lemma open_exchange_same:
  "open_exchange E s = Ret (secret, info, s') \<Longrightarrow> same_node s s' \<and> same_runtime s s'"
  by (auto simp: open_exchange_def Let_def outcome_simps same_node_def node.defs same_runtime_def)

lemma learn_peer_ok:
  "learn_peer E ip treeID s = Ret (failed, s') \<Longrightarrow> caches_ok s \<Longrightarrow> same_but_caches s s' \<and> caches_ok s'"
  by (auto simp: learn_peer_def outcome_simps split: if_splits prod.splits dest: QueryPath_ok)

lemma post_connect_request_ok:
  assumes "post_connect_request E ip treeID n3X s = (r, s')"
  shows "same_node s s' \<and> same_runtime s s' \<and>
     (\<forall>resp tc. r = Inr (resp, tc) \<longrightarrow> usable (Some tc) \<noteq> None \<and> tc_IP tc = ip)"
proof -
  have tick: "same_node s (tick s)" "same_runtime s (tick s)"
    by (simp add: frame_simps) (simp add: same_runtime_def tick_def)
  have send: "same_node s u" "same_runtime s u"
    if "tcpSendAndWaitResponse d E m ip True (tick s) = (q, u)" for d :: "bytes \<Rightarrow> go_error + ConnectPathResp" and m q u
    using tick tcpSend_same_node [of "tick s" d E m ip True] tcpSend_same_runtime [of "tick s" d E m ip True] that
    by (auto intro: same_node_trans same_runtime_trans)
  show ?thesis
    using assms tick send
    by (auto simp: post_connect_request_def Let_def usable_def split: sum.splits dest: tcpSend_profile)
qed

lemma sendConnectPathRequest_ok:
  assumes "sendConnectPathRequest E ip treeID n3X s = Ret (r, s')" and "caches_ok s"
  shows "same_but_caches s s' \<and> caches_ok s' \<and>
     (\<forall>resp tc. r = Inr (resp, tc) \<longrightarrow> usable (Some tc) \<noteq> None \<and> tc_IP tc = ip)"
proof -
  obtain failed s1 where first: "learn_peer E ip treeID s = Ret (failed, s1)"
    using assms(1) unfolding sendConnectPathRequest_def by (auto simp: outcome_simps)
  have s1: "same_but_caches s s1" "caches_ok s1"
    using learn_peer_ok [OF first assms(2)] by auto
  show ?thesis
  proof (cases failed)
    case (Some e)
    with assms(1) first s1 show ?thesis
      by (auto simp: sendConnectPathRequest_def)
  next
    case None
    with assms(1) first have post: "post_connect_request E ip treeID n3X s1 = (r, s')"
      by (simp add: sendConnectPathRequest_def)
    from post_connect_request_ok [OF this] s1 show ?thesis
      by (auto simp: caches_ok_def same_node_fields intro: same_but_caches_trans same_node_runtime_caches)
  qed
qed

text \<open>
  \<open>ConnectPath\<close> either leaves the tables but for the caches, or installs one path with the connection it
  made.
\<close>

lemma ConnectPath_cases:
  assumes "ConnectPath E ip treeID s = Ret ((resp, err), s')" and "caches_ok s"
  obtains (unchanged) "same_but_caches s s'" "caches_ok s'" "err = None \<longrightarrow> (\<exists>m. resp = Some m \<and> \<not> cresp_Accepted m)"
    | (installed) t profile tc m where "same_but_caches s t" "caches_ok t" "p_uuid profile = treeID"
        "usable (Some tc) \<noteq> None" "tc_IP tc = ip" "s' = install_path profile tc treeID t"
        "err = None" "resp = Some m" "cresp_Accepted m"
proof -
  obtain secret info s1 where ex: "open_exchange E s = Ret (secret, info, s1)"
    using assms(1) unfolding ConnectPath_def by (auto simp: outcome_simps)
  then have s1: "same_but_caches s s1" "caches_ok s1"
    using open_exchange_same [OF ex] assms(2)
    by (auto simp: same_node_runtime_caches caches_ok_def same_node_fields)
  obtain r s2 where send: "sendConnectPathRequest E ip treeID info s1 = Ret (r, s2)"
    using assms(1) ex unfolding ConnectPath_def by (auto simp: outcome_simps)
  have s2: "same_but_caches s s2" "caches_ok s2"
    and tc: "\<And>m tc. r = Inr (m, tc) \<Longrightarrow> usable (Some tc) \<noteq> None \<and> tc_IP tc = ip"
    using sendConnectPathRequest_ok [OF send s1(2)] same_but_caches_trans [OF s1(1)] by auto
  have s3: "same_but_caches s (s2\<lparr>halfOpenPath := deleteValue (halfOpenPath s2) treeID\<rparr>)"
    "caches_ok (s2\<lparr>halfOpenPath := deleteValue (halfOpenPath s2) treeID\<rparr>)"
    using s2 by (auto simp: same_but_caches_def same_runtime_def caches_ok_def intro: wf_intros)
  have half: "getValue (halfOpenPath s2) treeID = Some h \<Longrightarrow> p_uuid h = treeID" for h
    using s2(2) by (auto simp: caches_ok_def half_ok_def)
  show ?thesis
  proof (cases r)
    case (Inl e)
    with assms(1) ex send s2 show ?thesis
      by (intro unchanged) (auto simp: ConnectPath_def)
  next
    case (Inr a)
    then obtain m tc where a: "r = Inr (m, tc)"
      by (cases a) auto
    show ?thesis
    proof (cases "cresp_Accepted m")
      case False
      with assms(1) ex send a s2 show ?thesis
        by (intro unchanged) (auto simp: ConnectPath_def)
    next
      case True
      show ?thesis
      proof (cases "getValue (halfOpenPath s2) treeID")
        case None
        with True assms(1) ex send a s2 show ?thesis
          by (intro unchanged) (auto simp: ConnectPath_def)
      next
        case (Some h)
        then obtain k where "s' = install_path (h\<lparr>p_symKey := k, p_successCount := 0, p_failureCount := 0\<rparr>) tc
            treeID (s2\<lparr>halfOpenPath := deleteValue (halfOpenPath s2) treeID\<rparr>)" "err = None" "resp = Some m"
          using True assms(1) ex send a by (auto simp: ConnectPath_def outcome_simps)
        with s3 half [OF Some] tc [OF a] True show ?thesis
          by (intro installed) auto
      qed
    qed
  qed
qed

lemma install_path_inv:
  assumes "node_inv E t" and "p_uuid profile = treeID" and "usable (Some tc) \<noteq> None"
  shows "node_inv E (install_path profile tc treeID t)"
  using assms
  by (auto simp: node_inv_def node_ok_def install_path_def Let_def spawn_def tick_def connected_ok_def
      covers_bounded_def task_ok_def intro!: wf_intros)

lemma ConnectPath_inv:
  assumes "ConnectPath E ip treeID s = Ret (r, s')" and "node_inv E s"
  shows "node_inv E s'"
proof -
  obtain resp err where r: "ConnectPath E ip treeID s = Ret ((resp, err), s')"
    using assms(1) by (cases r) auto
  then show ?thesis
    by (rule ConnectPath_cases [OF _ node_inv_caches_ok [OF assms(2)]])
      (use assms(2) in \<open>auto intro: node_inv_caches install_path_inv\<close>)
qed

lemma CreateProxy_inv:
  assumes "CreateProxy E ip s = Ret (r, s')" and "node_inv E s"
  shows "node_inv E s'"
proof -
  obtain secret info s1 where ex: "open_exchange E s = Ret (secret, info, s1)"
    using assms(1) unfolding CreateProxy_def by (auto simp: outcome_simps)
  obtain q s2 where send: "sendCreateProxyRequest E ip info s1 = (q, s2)"
    by (cases "sendCreateProxyRequest E ip info s1") auto
  have "same_node s s2" "same_runtime s s2"
    using open_exchange_same [OF ex] send_same(3,6) [of s1 E ip info] send
    by (auto intro: same_node_trans same_runtime_trans)
  then have s2: "node_inv E s2"
    using assms(2) by (auto simp: same_runtime_def intro: node_inv_same_node)
  have tc: "usable (Some tc) \<noteq> None" if "q = Inr (m, tc)" for m tc
    using send that by (auto simp: sendCreateProxyRequest_def usable_def split: sum.splits dest: tcpSend_profile)
  show ?thesis
    using assms(1) ex send s2 tc
    by (auto simp: CreateProxy_def outcome_simps split: sum.splits if_splits intro!: install_path_inv)
qed

end
