(* ===== verification/Preservation.thy ===== *)
theory Preservation
  imports Invariants
begin

text \<open>
  The handlers, the application traffic and the maintenance loops keep the invariant \<open>node_inv\<close> of
  the theory \<open>Invariants\<close>: one lemma per operation.
\<close>

section \<open>Handlers\<close>

lemma write_response_same:
  "write_response E c r s = (e, s') \<Longrightarrow> same_node s s' \<and> tasks s' = tasks s"
  by (auto simp: write_response_def tick_def same_node_def node.defs split: option.splits)

lemma write_message_same:
  "write_message E c am s = (e, s') \<Longrightarrow> same_node s s' \<and> tasks s' = tasks s"
  by (auto simp: write_message_def tick_def same_node_def node.defs split: option.splits)

lemma close_conn_same: "same_node s (close_conn c s)" "tasks (close_conn c s) = tasks s"
  by (simp_all add: close_conn_def same_node_def node.defs)

lemma close_conn_inv [wf_intros]: "node_inv E s \<Longrightarrow> node_inv E (close_conn c s)"
  by (rule node_inv_same_node [OF close_conn_same(1)]) (simp_all add: close_conn_same)

lemma tick_inv [wf_intros]: "node_inv E s \<Longrightarrow> node_inv E (tick s)"
  by (rule node_inv_same_node [OF same_node_runtime(1)]) (simp_all add: tick_def)

lemma clock_inv [wf_intros]: "node_inv E s \<Longrightarrow> node_inv E (s\<lparr>clock := t\<rparr>)"
  by (rule node_inv_same_node [where s = s]) (simp_all add: same_node_def node.defs)

lemma write_response_inv: "write_response E c r s = (e, s') \<Longrightarrow> node_inv E s \<Longrightarrow> node_inv E s'"
  using write_response_same node_inv_same_node by (metis order_refl)

lemma write_message_inv: "write_message E c am s = (e, s') \<Longrightarrow> node_inv E s \<Longrightarrow> node_inv E s'"
  using write_message_same node_inv_same_node by (metis order_refl)

lemma spawn_inv [wf_intros]: "node_inv E s \<Longrightarrow> task_ok g \<Longrightarrow> node_inv E (spawn g s)"
  by (auto simp: node_inv_def node_ok_def connected_ok_def covers_bounded_def spawn_def)

lemma QueryPathReq_entry_same:
  "same_node s (snd (QueryPathReq_entry E pk pathID path (ps, s))) \<and>
   tasks (snd (QueryPathReq_entry E pk pathID path (ps, s))) = tasks s"
  by (auto simp: QueryPathReq_entry_def tick_def same_node_def node.defs split: sum.splits)

lemma fold_snd_invariant:
  assumes "\<And>x a. I (snd a) \<Longrightarrow> I (snd (f x a))" and "I (snd a)"
  shows "I (snd (fold f xs a))"
  using assms(2)
proof (induction xs arbitrary: a)
  case Nil
  then show ?case by simp
next
  case (Cons x xs)
  then have "I (snd (f x a))"
    by (intro assms(1))
  then show ?case
    using Cons.IH by simp
qed

lemma iterate_snd_invariant:
  assumes "\<And>k v a. I (snd a) \<Longrightarrow> I (snd (f k v a))" and "I (snd a)"
  shows "I (snd (iterate f ord m a))"
  unfolding iterate_def
proof (rule fold_snd_invariant [where I = I])
  show "I (snd ((case x of (k, v) \<Rightarrow> f k v) b))" if "I (snd b)" for x b
    using that by (cases x) (simp add: assms(1))
qed (rule assms(2))

lemma handleQueryPathReq_inv: "node_inv E s \<Longrightarrow> node_inv E (snd (handleQueryPathReq E c req s))"
proof -
  assume inv: "node_inv E s"
  let ?r = "if getSize (paths s) > 0
         then iterate (QueryPathReq_entry E (qreq_CoverPublicKey req)) (e_order_uuid E (clock s)) (paths s) ([], s)
         else ([], s)"
  have step: "node_inv E (snd (QueryPathReq_entry E pk k v a))" if "node_inv E (snd a)" for pk k v a
    using QueryPathReq_entry_same [of "snd a" E pk k v "fst a"] that
    by (auto intro: node_inv_same_node)
  have "node_inv E (snd ?r)"
    using inv step by (auto intro: iterate_snd_invariant)
  then show ?thesis
    by (auto simp: handleQueryPathReq_def Let_def split: prod.splits
        intro!: wf_intros elim: write_response_inv)
qed

lemma handleVerifyCoverReq_inv: "node_inv E s \<Longrightarrow> node_inv E (snd (handleVerifyCoverReq E c req s))"
  by (auto simp: handleVerifyCoverReq_def Let_def split: prod.splits intro!: wf_intros elim: write_response_inv)

lemma answer_exchange_same:
  "answer_exchange E offer s = Ret (info, key, s') \<Longrightarrow> s' = tick s"
  by (auto simp: answer_exchange_def Let_def outcome_simps)

text \<open>Admission keeps the bound, because the size was tested against it.\<close>

lemma add_cover_inv:
  assumes "add_cover ip key tree s = (c, ctx, s')" and "node_inv E s" and "\<not> tooManyCovers E s"
  shows "node_inv E s' \<and> c_cancelFunc c = Some ctx \<and> paths s' = paths s"
proof -
  have size: "getSize (setValue (covers s) ip c) \<le> Suc (getSize (covers s))"
    using assms(2) mm.size_put [of "covers s" ip c] by (auto simp: node_inv_def node_ok_def covers_ok_def)
  have "covers s' = setValue (covers s) ip c" "same_node (s\<lparr>covers := setValue (covers s) ip c\<rparr>) s'"
    "c_cancelFunc c = Some ctx" "c_cover c = ip" "tasks s' = tasks s"
    using assms(1) by (auto simp: add_cover_def Let_def tick_def same_node_def node.defs)
  then show ?thesis
    using assms(2,3) size
    by (auto simp: node_inv_def node_ok_def connected_ok_def covers_bounded_def tooManyCovers_def
        same_node_fields intro!: wf_intros)
qed

lemma admit_inv:
  assumes "add_cover ip key tree s = (c, ctx, s2)" and "write_response E conn r t = (err, s3)"
    and "t = s2 \<or> t = tick s2" and "node_inv E s" and "\<not> tooManyCovers E s"
  shows "node_inv E s3 \<and> c_cancelFunc c = Some ctx"
proof -
  have "node_inv E s2" "c_cancelFunc c = Some ctx"
    using add_cover_inv [OF assms(1,4,5)] by auto
  then have "node_inv E t"
    using assms(3) by (auto intro: wf_intros)
  then show ?thesis
    using write_response_inv [OF assms(2)] \<open>c_cancelFunc c = Some ctx\<close> by simp
qed

lemma reject_inv:
  "(let (err, s1) = write_response E c r s in Ret (err, close_conn c s1)) = Ret (e, s') \<Longrightarrow>
   node_inv E s \<Longrightarrow> node_inv E s'"
  by (auto split: prod.splits intro!: wf_intros elim: write_response_inv)

lemma accept_connect_inv:
  assumes "accept_connect E c ip pid fp ex s = Ret (e, s')" and "node_inv E s" and "\<not> tooManyCovers E s"
  shows "node_inv E s'"
proof -
  obtain info key s1 where ans: "answer_exchange E ex s = Ret (info, key, s1)"
    using assms(1) by (auto simp: accept_connect_def outcome_simps)
  then have s1: "node_inv E s1" "\<not> tooManyCovers E s1"
    using answer_exchange_same [OF ans] assms(2,3) by (auto simp: tooManyCovers_def tick_def intro: wf_intros)
  obtain cov ctx s2 where add: "add_cover ip key pid s1 = (cov, ctx, s2)"
    by (cases "add_cover ip key pid s1") auto
  obtain err s3 where w: "write_response E (in_conn c)
      (RespConnectPath \<lparr>cresp_Accepted = True, cresp_ParentKeyExchange = info\<rparr>) s2 = (err, s3)"
    by fastforce
  have "node_inv E s3" "c_cancelFunc cov = Some ctx"
    using admit_inv [OF add w _ s1] by auto
  then show ?thesis
    using assms(1) ans add w by (auto simp: accept_connect_def task_ok_def split: option.splits intro!: wf_intros)
qed

lemma handleConnectPathReq_inv:
  assumes "handleConnectPathReq E conn req s = Ret (e, s')" and "node_inv E s"
  shows "node_inv E s'"
  using assms unfolding handleConnectPathReq_def
  by (auto split: option.splits sum.splits prod.splits bool.splits
      intro!: wf_intros elim: write_response_inv dest: accept_connect_inv)

lemma self_proxy_path_inv:
  "node_inv E s \<Longrightarrow> node_inv E (s\<lparr>paths := setValue (paths s) pathID (self_proxy_path pathID pub key)\<rparr>)"
  by (auto simp: node_inv_def node_ok_def connected_ok_def covers_bounded_def self_proxy_path_def
      intro!: wf_intros)

lemma accept_proxy_inv:
  assumes "accept_proxy E c ip req s = Ret (e, s')" and "node_inv E s" and "\<not> tooManyCovers E s"
  shows "node_inv E s'"
proof -
  obtain info key s1 where ans: "answer_exchange E (xreq_CoverKeyExchange req) s = Ret (info, key, s1)"
    using assms(1) by (auto simp: accept_proxy_def outcome_simps)
  define pid where "pid = e_uuid E (clock s1)"
  define s2 where "s2 = (tick s1)\<lparr>paths := setValue (paths s1) pid (self_proxy_path pid (publicKey s) key)\<rparr>"
  have "node_inv E (tick s1)"
    using answer_exchange_same [OF ans] assms(2) by (auto intro: wf_intros)
  then have s2: "node_inv E s2" "\<not> tooManyCovers E s2"
    using self_proxy_path_inv [of E "tick s1" pid "publicKey s" key] answer_exchange_same [OF ans] assms(3)
    by (auto simp: s2_def tick_def tooManyCovers_def)
  obtain cov ctx s3 where add: "add_cover ip key pid s2 = (cov, ctx, s3)"
    by (cases "add_cover ip key pid s2") auto
  have s3: "node_inv E s3" "node_inv E (close_conn (in_conn c) (tick s3))"
    using add_cover_inv [OF add s2] by (auto intro: wf_intros)
  show ?thesis
  proof (cases "EncryptUUID (e_lib E) (clock s3) pid (xreq_CoverPublicKey req)")
    case (Inl err)
    with assms(1) ans add s3 show ?thesis
      by (auto simp: accept_proxy_def Let_def pid_def [symmetric] s2_def [symmetric])
  next
    case (Inr enc)
    obtain err s4 where w: "write_response E (in_conn c)
        (RespCreateProxy \<lparr>xresp_Accepted = True, xresp_ProxyKeyExchange = info,
           xresp_ProxyPublicKey = publicKey s, xresp_EncryptedTreeUUID = enc\<rparr>) (tick s3) = (err, s4)"
      by fastforce
    have "node_inv E s4" "c_cancelFunc cov = Some ctx"
      using admit_inv [OF add w _ s2] by auto
    with assms(1) ans add w Inr show ?thesis
      by (auto simp: accept_proxy_def Let_def pid_def [symmetric] s2_def [symmetric] task_ok_def
          split: option.splits intro!: wf_intros)
  qed
qed

lemma handleCreateProxyReq_inv:
  assumes "handleCreateProxyReq E conn req s = Ret (e, s')" and "node_inv E s"
  shows "node_inv E s'"
  using assms unfolding handleCreateProxyReq_def Let_def
  by (auto split: option.splits sum.splits prod.splits if_splits
      intro!: wf_intros elim: write_response_inv dest: accept_proxy_inv)

lemma handleConnection_inv:
  assumes "handleConnection E c m s = Ret s'" and "node_inv E s"
  shows "node_inv E s'"
  using assms handleQueryPathReq_inv [OF assms(2)] handleVerifyCoverReq_inv [OF assms(2)]
  by (auto simp: handleConnection_def handleMessage_def Let_def outcome_simps
      split: sum.splits if_splits intro: wf_intros dest: handleConnectPathReq_inv handleCreateProxyReq_inv)
    (metis snd_conv)+

section \<open>Application traffic\<close>

lemma stored_inv [wf_intros]: "node_inv E s \<Longrightarrow> node_inv E (s\<lparr>stored := x\<rparr>)"
  by (rule node_inv_same_node [where s = s]) (simp_all add: same_node_def node.defs)

lemma cancelled_inv [wf_intros]: "node_inv E s \<Longrightarrow> node_inv E (s\<lparr>cancelled := x\<rparr>)"
  by (rule node_inv_same_node [where s = s]) (simp_all add: same_node_def node.defs)

lemma publishJobs_inv:
  "node_inv E s \<Longrightarrow> node_inv E (s\<lparr>publishJobs := setValue (publishJobs s) k v\<rparr>)"
  by (auto simp: node_inv_def node_ok_def connected_ok_def covers_bounded_def intro: wf_intros)

lemma jobs_tick_inv [wf_intros]:
  "node_inv E s \<Longrightarrow> node_inv E ((tick s)\<lparr>publishJobs := setValue (publishJobs s) k v\<rparr>)"
  using publishJobs_inv [of E "tick s" k v] tick_inv [of E s] by (simp add: tick_def)

text \<open>Rewriting a stored path keeps the invariant when identifier, next hop and cancel function stay.\<close>

lemma rewrite_path_inv:
  assumes "node_inv E s" and "getValue (paths s) k = Some p"
    and "p_uuid q = p_uuid p" and "p_next q = p_next p" and "p_cancelFunc q = p_cancelFunc p"
  shows "node_inv E (s\<lparr>paths := setValue (paths s) k q\<rparr>)"
proof -
  have "p_uuid q = k" "p_next q = IS \<or> p_cancelFunc q \<noteq> None"
    "p_next q \<noteq> IS \<Longrightarrow> usable (getValue (openConnections s) k) \<noteq> None"
    using assms by (auto simp: node_inv_def node_ok_def paths_ok_def connected_ok_def)
  then show ?thesis
    using assms(1) by (auto simp: node_inv_def node_ok_def connected_ok_def covers_bounded_def intro!: wf_intros)
qed

lemma markPublishJobStatus_inv: "node_inv E s \<Longrightarrow> node_inv E (markPublishJobStatus jobID job s)"
  using rewrite_path_inv [OF publishJobs_inv]
  by (auto simp: markPublishJobStatus_def Let_def publishJobs_inv split: option.splits)

lemma record_job_inv: "record_job E key onPath s = (j, s') \<Longrightarrow> node_inv E s \<Longrightarrow> node_inv E s'"
  by (auto simp: record_job_def Let_def task_ok_def intro!: wf_intros)

lemma publish_self_inv: "publish_self E key m s = (r, s') \<Longrightarrow> node_inv E s \<Longrightarrow> node_inv E s'"
  by (auto simp: publish_self_def Let_def split: sum.splits if_splits intro!: wf_intros)

lemma publish_remote_inv: "publish_remote E key m k p s = (r, s') \<Longrightarrow> node_inv E s \<Longrightarrow> node_inv E s'"
  by (auto simp: publish_remote_def Let_def split: sum.splits option.splits prod.splits
      intro!: wf_intros elim: write_message_inv)

lemma choose_path_inv: "choose_path E t s = Ret (r, s') \<Longrightarrow> node_inv E s \<Longrightarrow> node_inv E s'"
  by (auto simp: choose_path_def outcome_simps split: if_splits option.splits intro!: wf_intros)

lemma Publish_inv:
  assumes "Publish E key m t s = Ret (r, s')" and "node_inv E s"
  shows "node_inv E s'"
proof (cases "canPublish E s \<and> e_ValidateKey E key m")
  case False
  with assms show ?thesis
    by (auto simp: Publish_def split: if_splits)
next
  case True
  then obtain choice s1 where ch: "choose_path E t s = Ret (choice, s1)"
    using assms(1) by (auto simp: Publish_def outcome_simps)
  then have s1: "node_inv E s1"
    using assms(2) by (rule choose_path_inv)
  show ?thesis
  proof (cases choice)
    case (Inl err)
    with True ch assms(1) s1 show ?thesis by (simp add: Publish_def)
  next
    case (Inr a)
    obtain k p where a: "a = (k, p)"
      by (cases a) auto
    obtain failed s2 where act: "(if p_next p = IS then publish_self E key m s1
        else publish_remote E key m k p s1) = (failed, s2)"
      by fastforce
    then have s2: "node_inv E s2"
      using s1 by (auto split: if_splits intro: publish_self_inv publish_remote_inv)
    with True ch assms(1) Inr a act show ?thesis
      by (auto simp: Publish_def split: option.splits prod.splits elim: record_job_inv)
  qed
qed

lemma Forward_inv: "Forward E a c p s = (r, s') \<Longrightarrow> node_inv E s \<Longrightarrow> node_inv E s'"
  by (auto simp: Forward_def Let_def split: sum.splits option.splits prod.splits
      intro!: wf_intros elim: write_message_inv)

lemma store_real_inv: "store_real E b s = (r, s') \<Longrightarrow> node_inv E s \<Longrightarrow> node_inv E s'"
  by (auto simp: store_real_def Let_def split: sum.splits intro!: wf_intros)

lemma handleRealMessage_inv: "handleRealMessage E a c p s = (r, s') \<Longrightarrow> node_inv E s \<Longrightarrow> node_inv E s'"
  by (auto simp: handleRealMessage_def split: sum.splits if_splits intro: Forward_inv store_real_inv)

lemma handleApplicationMessage_inv:
  "handleApplicationMessage E m c p s = Ret (r, s') \<Longrightarrow> node_inv E s \<Longrightarrow> node_inv E s'"
  by (auto simp: handleApplicationMessage_def elim!: obind_RetE split: sum.splits if_splits
      intro: handleRealMessage_inv)

section \<open>Maintenance\<close>

lemma call_cancel_inv: "call_cancel f e s = Ret s' \<Longrightarrow> node_inv E s \<Longrightarrow> node_inv E s'"
  by (auto simp: call_cancel_def split: option.splits if_splits intro: wf_intros)

lemma cancel_covers_inv:
  assumes "cancel_covers_of E k s = Ret s'" and "node_inv E s"
  shows "node_inv E s'"
  using assms unfolding cancel_covers_of_def
  by (rule ofold_invariant [where I = "node_inv E"]) (auto split: if_splits intro: call_cancel_inv)

lemma become_proxy_inv: "node_inv E s \<Longrightarrow> node_inv E (become_proxy E s)"
  using self_proxy_path_inv [of E "tick s"] tick_inv [of E s] by (simp add: become_proxy_def Let_def tick_def)

lemma sendVerify_inv:
  "sendVerifyCoverRequest E ip x s = (r, s') \<Longrightarrow> node_inv E s \<Longrightarrow> node_inv E s'"
  using send_same(2,5) [of s E ip x] by (auto simp: same_runtime_def intro: node_inv_same_node)

lemma sendQuery_inv:
  "sendQueryPathRequest E ip s = (r, s') \<Longrightarrow> node_inv E s \<Longrightarrow> node_inv E s'"
  using send_same(1,4) [of s E ip] by (auto simp: same_runtime_def intro: node_inv_same_node)

lemma MoveUp_inv:
  assumes "MoveUp E p s = Ret s'" and "node_inv E s"
  shows "node_inv E s'"
proof -
  obtain r s1 where send: "sendVerifyCoverRequest E (p_next2 p) (p_next p) s = (r, s1)"
    by fastforce
  then have s1: "node_inv E s1"
    using assms(2) by (rule sendVerify_inv)
  show ?thesis
    using assms send s1
    by (auto simp: MoveUp_def outcome_simps split: if_splits sum.splits
        intro: become_proxy_inv cancel_covers_inv ConnectPath_inv)
qed

lemma QueryPath_inv: "QueryPath E ip s = Ret (r, v, s') \<Longrightarrow> node_inv E s \<Longrightarrow> node_inv E s'"
  using QueryPath_ok node_inv_caches node_inv_caches_ok by blast

lemma attempt_path_inv: "attempt_path E members s = Ret s' \<Longrightarrow> node_inv E s \<Longrightarrow> node_inv E s'"
  by (auto simp: attempt_path_def Let_def outcome_simps split: if_splits
      intro: wf_intros ConnectPath_inv CreateProxy_inv dest!: QueryPath_inv)

lemma getMorePaths_loop_inv:
  "getMorePaths_loop E members rounds s = Ret s' \<Longrightarrow> node_inv E s \<Longrightarrow> node_inv E s'"
proof (induction rounds arbitrary: s)
  case 0
  then show ?case
    by (auto simp: getMorePaths_loop.simps [of E members 0 s] outcome_simps split: if_splits
        intro: attempt_path_inv)
next
  case (Suc n)
  then show ?case
    by (auto simp: getMorePaths_loop.simps [of E members "Suc n" s] outcome_simps split: if_splits
        dest: attempt_path_inv)
qed

lemma maintainPathQuantity_inv:
  "maintainPathQuantity E rounds s = Ret s' \<Longrightarrow> node_inv E s \<Longrightarrow> node_inv E s'"
  by (auto simp: maintainPathQuantity_def getMorePaths_def split: if_splits sum.splits
      intro: wf_intros getMorePaths_loop_inv)

lemma handle_blacklisted_inv: "handle_blacklisted E p s = Ret s' \<Longrightarrow> node_inv E s \<Longrightarrow> node_inv E s'"
  by (auto simp: handle_blacklisted_def outcome_simps intro: MoveUp_inv call_cancel_inv)

end
