(* ===== verification/Samples.thy ===== *)
theory Samples
  imports Maintenance
begin

text \<open>
  A concrete environment, for evaluation at concrete inputs: encoders that write a message as a list of
  self-delimiting fields, services that always answer, and a way to build nodes.  Nothing in the model of the
  program depends on this theory.
\<close>

section \<open>A field format\<close>

fun unframe_one :: "bytes \<Rightarrow> (bytes \<times> bytes) option" where
  "unframe_one [] = None"
| "unframe_one [b] = (if b = 0 then Some ([], []) else None)"
| "unframe_one (b # c # bs) =
     (if b = 0 then Some ([], c # bs)
      else map_option (\<lambda>(f, rest). (c # f, rest)) (unframe_one bs))"

lemma unframe_one_frame [simp]: "unframe_one (frame f @ bs) = Some (f, bs)"
proof (induction f)
  case Nil
  then show ?case by (cases bs) auto
next
  case (Cons b f)
  then show ?case by simp
qed

fun write_fields :: "bytes list \<Rightarrow> bytes" where
  "write_fields [] = [0]"
| "write_fields (f # fs) = 1 # frame f @ write_fields fs"

fun read_fields :: "nat \<Rightarrow> bytes \<Rightarrow> bytes list option" where
  "read_fields 0 bs = None"
| "read_fields (Suc n) [] = None"
| "read_fields (Suc n) (b # bs) =
     (if b = 0 then Some []
      else case unframe_one bs of
             None \<Rightarrow> None
           | Some (f, rest) \<Rightarrow> map_option (Cons f) (read_fields n rest))"

lemma read_write_fields: "length fs < n \<Longrightarrow> read_fields n (write_fields fs) = Some fs"
proof (induction fs arbitrary: n)
  case Nil
  then show ?case by (cases n) auto
next
  case (Cons f fs)
  then show ?case by (cases n) auto
qed

lemma length_write_fields: "length fs < length (write_fields fs)"
  by (induction fs) auto

definition as_fields :: "('a \<Rightarrow> bytes list) \<Rightarrow> 'a \<Rightarrow> go_error + bytes" where
  "as_fields f m = Inr (write_fields (f m))"

definition of_fields :: "(bytes list \<Rightarrow> 'a option) \<Rightarrow> bytes \<Rightarrow> go_error + 'a" where
  "of_fields g bs =
     (case read_fields (length bs) bs of
        None \<Rightarrow> Inl (LibError ''gob: decode'')
      | Some fs \<Rightarrow> (case g fs of None \<Rightarrow> Inl (LibError ''gob: decode'') | Some m \<Rightarrow> Inr m))"

lemma fields_decode: "(\<And>m. g (f m) = Some m) \<Longrightarrow> decodes (as_fields f) (of_fields g)"
  by (auto simp: decodes_def as_fields_def of_fields_def read_write_fields length_write_fields)

section \<open>Fields of the types\<close>

definition put_int :: "int option \<Rightarrow> bytes" where
  "put_int x = (case x of None \<Rightarrow> [] | Some v \<Rightarrow> (if v < 0 then 2 else 1) # big_Bytes v)"

definition get_int :: "bytes \<Rightarrow> int option" where
  "get_int bs =
     (case bs of [] \<Rightarrow> None
      | b # m \<Rightarrow> Some (if b = 2 then - int (big_SetBytes m) else int (big_SetBytes m)))"

lemma get_put_int [simp]: "get_int (put_int x) = x"
  by (cases x) (auto simp: get_int_def put_int_def big_Bytes_def big_SetBytes_def)

definition put_str :: "string \<Rightarrow> bytes" where
  "put_str s = map (\<lambda>c. word_of_nat (of_char c)) s"

definition get_str :: "bytes \<Rightarrow> string" where
  "get_str bs = map (\<lambda>b. char_of (unat b)) bs"

lemma get_put_str [simp]: "get_str (put_str s) = s"
proof -
  have "char_of (unat (word_of_nat (of_char c) :: 8 word)) = c" for c
    by (simp add: unat_of_nat)
  then show ?thesis
    by (simp add: get_str_def put_str_def comp_def)
qed

definition put_bool :: "bool \<Rightarrow> bytes" where
  "put_bool b = (if b then [1] else [])"

lemma put_bool_eq [simp]: "put_bool b = [1] \<longleftrightarrow> b"
  by (simp add: put_bool_def)

definition put_w64 :: "64 word \<Rightarrow> bytes" where
  "put_w64 w = nat_be (unat w)"

definition get_w64 :: "bytes \<Rightarrow> 64 word" where
  "get_w64 bs = word_of_nat (be_nat bs)"

lemma get_put_w64 [simp]: "get_w64 (put_w64 w) = w"
  by (simp add: get_w64_def put_w64_def)

definition put_dh :: "DHKeyExchange \<Rightarrow> bytes list" where
  "put_dh d = [put_int (dh_G d), put_int (dh_P d), put_int (dh_HalfKey d)]"

definition get_dh :: "bytes \<Rightarrow> bytes \<Rightarrow> bytes \<Rightarrow> DHKeyExchange" where
  "get_dh g p h = \<lparr>dh_G = get_int g, dh_P = get_int p, dh_HalfKey = get_int h\<rparr>"

lemma get_dh_put [simp]: "get_dh (put_int (dh_G d)) (put_int (dh_P d)) (put_int (dh_HalfKey d)) = d"
  by (simp add: get_dh_def)

fun put_paths :: "Path list \<Rightarrow> bytes list" where
  "put_paths [] = []"
| "put_paths (p # ps) =
     [path_EncryptedTreeUUID p, put_str (path_NextHopIP p), put_str (path_NextNextHopIP p),
      path_ProxyPublicKey p] @ put_paths ps"

fun get_paths :: "bytes list \<Rightarrow> Path list option" where
  "get_paths [] = Some []"
| "get_paths (a # b # c # d # fs) =
     map_option (Cons \<lparr>path_EncryptedTreeUUID = a, path_NextHopIP = get_str b, path_NextNextHopIP = get_str c,
       path_ProxyPublicKey = d\<rparr>) (get_paths fs)"
| "get_paths fs = None"

lemma get_put_paths [simp]: "get_paths (put_paths ps) = Some ps"
  by (induction ps) auto

section \<open>The encoders\<close>

definition field_gob :: gob where
  "field_gob =
     \<lparr>enc_QueryPathReq = as_fields (\<lambda>m. [qreq_CoverPublicKey m]),
      dec_QueryPathReq = of_fields (\<lambda>fs. case fs of [a] \<Rightarrow> Some \<lparr>qreq_CoverPublicKey = a\<rparr> | _ \<Rightarrow> None),
      enc_QueryPathResp = as_fields (\<lambda>m. qresp_ParentPublicKey m # put_paths (qresp_Paths m)),
      dec_QueryPathResp = of_fields (\<lambda>fs. case fs of [] \<Rightarrow> None
        | a # ps \<Rightarrow> map_option (\<lambda>qs. \<lparr>qresp_ParentPublicKey = a, qresp_Paths = qs\<rparr>) (get_paths ps)),
      enc_VerifyCoverReq = as_fields (\<lambda>m. [put_str (vreq_NextHopIP m)]),
      dec_VerifyCoverReq = of_fields (\<lambda>fs. case fs of [a] \<Rightarrow> Some \<lparr>vreq_NextHopIP = get_str a\<rparr> | _ \<Rightarrow> None),
      enc_VerifyCoverResp = as_fields (\<lambda>m. [put_bool (vresp_IsVerified m)]),
      dec_VerifyCoverResp = of_fields (\<lambda>fs. case fs of [a] \<Rightarrow> Some \<lparr>vresp_IsVerified = (a = [1])\<rparr> | _ \<Rightarrow> None),
      enc_ConnectPathReq = as_fields (\<lambda>m. creq_EncryptedTreeUUID m # put_dh (creq_CoverKeyExchange m)),
      dec_ConnectPathReq = of_fields (\<lambda>fs. case fs of
          [a, g, p, h] \<Rightarrow> Some \<lparr>creq_EncryptedTreeUUID = a, creq_CoverKeyExchange = get_dh g p h\<rparr> | _ \<Rightarrow> None),
      enc_ConnectPathResp = as_fields (\<lambda>m. put_bool (cresp_Accepted m) # put_dh (cresp_ParentKeyExchange m)),
      dec_ConnectPathResp = of_fields (\<lambda>fs. case fs of
          [a, g, p, h] \<Rightarrow> Some \<lparr>cresp_Accepted = (a = [1]), cresp_ParentKeyExchange = get_dh g p h\<rparr> | _ \<Rightarrow> None),
      enc_CreateProxyReq = as_fields (\<lambda>m. xreq_CoverPublicKey m # put_dh (xreq_CoverKeyExchange m)),
      dec_CreateProxyReq = of_fields (\<lambda>fs. case fs of
          [a, g, p, h] \<Rightarrow> Some \<lparr>xreq_CoverPublicKey = a, xreq_CoverKeyExchange = get_dh g p h\<rparr> | _ \<Rightarrow> None),
      enc_CreateProxyResp = as_fields (\<lambda>m. [put_bool (xresp_Accepted m), xresp_ProxyPublicKey m,
          xresp_EncryptedTreeUUID m] @ put_dh (xresp_ProxyKeyExchange m)),
      dec_CreateProxyResp = of_fields (\<lambda>fs. case fs of
          [a, k, t, g, p, h] \<Rightarrow> Some \<lparr>xresp_Accepted = (a = [1]), xresp_ProxyKeyExchange = get_dh g p h,
            xresp_ProxyPublicKey = k, xresp_EncryptedTreeUUID = t\<rparr> | _ \<Rightarrow> None),
      enc_Asym = as_fields (\<lambda>m. [dm_Key (asym_Data m), dm_Content (asym_Data m), asym_Salt m]),
      dec_Asym = of_fields (\<lambda>fs. case fs of
          [k, c, z] \<Rightarrow> Some \<lparr>asym_Data = \<lparr>dm_Key = k, dm_Content = c\<rparr>, asym_Salt = z\<rparr> | _ \<Rightarrow> None),
      enc_Sym = as_fields (\<lambda>m. [put_w64 (sym_Type m), sym_AsymetricEncryptedPayload m]),
      dec_Sym = of_fields (\<lambda>fs. case fs of
          [t, c] \<Rightarrow> Some \<lparr>sym_Type = get_w64 t, sym_AsymetricEncryptedPayload = c\<rparr> | _ \<Rightarrow> None)\<rparr>"

lemma field_gob_correct: "gob_correct field_gob"
  unfolding gob_correct_def field_gob_def
  by (simp, intro conjI) (rule fields_decode, simp add: put_dh_def)+

section \<open>An environment and nodes\<close>

definition sample_cfg :: config where
  "sample_cfg =
     \<lparr>TARGET_NUMBER_OF_CONNECTED_PATHS = 3, MAXIMUM_NUMBER_OF_COVER_NODES = 10,
      NUMBER_OF_COVER_NODES_FOR_PUBLISH = 0, MOVE_UP_REQUIREMENT_FAILURE_THRESHOLD = 3,
      TESTING_TCP_SERVER_LISTEN_IP = None\<rparr>"

definition sample_lib :: lib where
  "sample_lib = box_lib\<lparr>rand_Prime := \<lambda>t. if even t then Inr (2 ^ 255) else Inr (2 ^ 256 + 1),
     rand_Read := \<lambda>t n. (replicate (n - 1) 0 @ [1], None)\<rparr>"

definition sample_env :: env where
  "sample_env =
     \<lparr>e_cfg = sample_cfg, e_lib = sample_lib, e_gob = field_gob,
      e_order_uuid = (\<lambda>t. []), e_order_ip = (\<lambda>t. []), e_draw = (\<lambda>t. t), e_uuid = (\<lambda>t. word_of_nat (t + 1)),
      e_dial = (\<lambda>t l a. None), e_write = (\<lambda>t c. None), e_arrival = (\<lambda>t ip m. TimedOut),
      e_ValidateKey = (\<lambda>k m. True), e_Store = (\<lambda>t k m. Inr True), e_Read = (\<lambda>t k. Inr k),
      e_IsDiscovered = (\<lambda>t k. Inr True), e_AvailableKeys = (\<lambda>t. Inr []), e_GetMembers = (\<lambda>t. Inr [])\<rparr>"

definition node0 :: state where
  "node0 = NewNode sample_lib 7 ''n''"

lemma sample_lib_laws:
  "ecc_pair sample_lib k k" "k \<noteq> k' \<Longrightarrow> ecc_alien sample_lib k k'" "gcm_correct sample_lib"
  "gcm_authentic sample_lib" "uuid_lib_correct sample_lib"
  using box_lib_laws
  by (simp_all add: sample_lib_def ecc_pair_def ecc_alien_def gcm_correct_def gcm_authentic_def uuid_lib_correct_def)

lemma node0_fields [simp]:
  "paths node0 = []" "covers node0 = []" "halfOpenPath node0 = []" "openConnections node0 = []"
  "publishJobs node0 = []" "peerPublicKeys node0 = []" "publicKey node0 = [7]" "privateKey node0 = [7]"
  "clock node0 = 8" "cancelled node0 = []" "tasks node0 = []" "opened node0 = []" "closed node0 = []"
  "responses node0 = []" "sent node0 = []" "stored node0 = []"
  by (simp_all add: node0_def NewNode_def GenerateAsymmetricKeyPair_def sample_lib_def box_lib_def
      NewMutexMap_def)

lemma sample_env_fields [simp]:
  "e_lib sample_env = sample_lib" "e_gob sample_env = field_gob" "e_cfg sample_env = sample_cfg"
  "e_write sample_env t c = None" "e_dial sample_env t l a = None" "e_arrival sample_env t ip m = TimedOut"
  "e_ValidateKey sample_env k v" "e_Store sample_env t k v = Inr True" "e_uuid sample_env t = word_of_nat (t + 1)"
  by (simp_all add: sample_env_def)

lemma sample_cfg_fields [simp]:
  "TARGET_NUMBER_OF_CONNECTED_PATHS sample_cfg = 3" "MAXIMUM_NUMBER_OF_COVER_NODES sample_cfg = 10"
  "NUMBER_OF_COVER_NODES_FOR_PUBLISH sample_cfg = 0" "MOVE_UP_REQUIREMENT_FAILURE_THRESHOLD sample_cfg = 3"
  by (simp_all add: sample_cfg_def)

lemma sample_secret [simp]: "RandomBigInt sample_lib t 32 = 1"
  by (simp add: RandomBigInt_def rand_fill_def sample_lib_def big_SetBytes_def be_nat_def numeral_eq_Suc)

lemma sample_AsymmetricEncrypt [simp]: "AsymmetricEncrypt sample_lib t m k = Inr (frame k @ m)"
  by (simp add: AsymmetricEncrypt_def sample_lib_def box_lib_def)

lemma sample_rand [simp]: "snd (rand_Read sample_lib t n) = None"
  by (simp add: sample_lib_def)

lemma sample_seal: "aes_key k \<Longrightarrow> \<exists>am. seal_data_message sample_lib field_gob t ty dm pub k = Inr am"
  by (simp add: seal_data_message_Inr SymmetricEncrypt_Inr field_gob_def as_fields_def)
    (metis ApplicationMessage.select_convs(1))

text \<open>A node that is a proxy for the path 5, a caller, and a half of an exchange.\<close>

definition proxy_node :: state where
  "proxy_node = node0\<lparr>paths := [(5, self_proxy_path 5 [7] 0)]\<rparr>"

definition caller :: incoming where
  "caller = \<lparr>in_conn = 3, in_remote = ''10.0.0.2:4711''\<rparr>"

definition half_exchange :: DHKeyExchange where
  "half_exchange = \<lparr>dh_G = Some (2 ^ 255), dh_P = Some (2 ^ 256 + 1), dh_HalfKey = Some (2 ^ 255)\<rparr>"

definition sample_connect :: ConnectPathReq where
  "sample_connect = \<lparr>creq_EncryptedTreeUUID = frame [7] @ uuid_bytes 5, creq_CoverKeyExchange = half_exchange\<rparr>"

definition sample_proxy_req :: CreateProxyReq where
  "sample_proxy_req = \<lparr>xreq_CoverPublicKey = [9], xreq_CoverKeyExchange = half_exchange\<rparr>"

lemma caller_address [simp]: "SplitHostPort (in_remote caller) = Inr (''10.0.0.2'', ''4711'')"
  using SplitHostPort_plain [of "''10.0.0.2''" "''4711''"] by (simp add: caller_def)

lemma sample_EncryptUUID [simp]: "EncryptUUID sample_lib t u k = Inr (frame k @ uuid_bytes u)"
  by (simp add: EncryptUUID_def AsymmetricEncrypt_def sample_lib_def box_lib_def)

lemma sample_tree [simp]: "DecryptUUID sample_lib (creq_EncryptedTreeUUID sample_connect) [7] = Inr 5"
  by (rule uuid_open [of _ "[7]" _ 0])
    (simp_all add: sample_lib_laws sample_connect_def)

lemma sample_exchange [simp]:
  "creq_CoverKeyExchange sample_connect = half_exchange" "xreq_CoverKeyExchange sample_proxy_req = half_exchange"
  "xreq_CoverPublicKey sample_proxy_req = [9]"
  "GenerateReturn half_exchange (Suc 0) = Ret half_exchange" "GetSymKey half_exchange (Suc 0) = Ret (2 ^ 255)"
  by (simp_all add: sample_connect_def sample_proxy_req_def half_exchange_def GenerateReturn_def GetSymKey_def
      big_Exp_def)

lemma proxy_node_fields [simp]:
  "paths proxy_node = [(5, self_proxy_path 5 [7] 0)]" "covers proxy_node = []" "privateKey proxy_node = [7]"
  "publicKey proxy_node = [7]" "clock proxy_node = 8" "tasks proxy_node = []"
  "openConnections proxy_node = []" "halfOpenPath proxy_node = []" "sent proxy_node = []"
  "stored proxy_node = []" "cancelled proxy_node = []" "publishJobs proxy_node = []"
  by (simp_all add: proxy_node_def)

end
