(* ===== verification/Publishing.thy ===== *)
theory Publishing
  imports Preservation Samples
begin

text \<open>
  \<open>Publish\<close>: it never panics, on each branch it does what its result says, and a failed call leaves no trace
  in the node's tables.  Also the choice of a random path and the counters of a finished job.
\<close>

section \<open>The branches\<close>

lemma canPublish_paths: "canPublish E s \<Longrightarrow> paths s \<noteq> []"
  by (auto simp: canPublish_def getSize_def)

lemma choose_path_total:
  assumes "wf_map (paths s)" and "paths s \<noteq> []"
  shows "\<exists>r s'. choose_path E target s = Ret (r, s')"
  using assms by (auto simp: choose_path_def pick_nth split: option.splits)

lemma choose_path_found:
  assumes "choose_path E target s = Ret (Inr (k, p), s')" and "wf_map (paths s)"
  shows "getValue (paths s) k = Some p \<and> (target \<noteq> uuid_Nil \<longrightarrow> k = target)"
  using assms pick_member [OF assms(2), of "e_order_uuid E (clock s)" "e_draw E (clock s)" k p]
  by (auto simp: choose_path_def elim!: obind_RetE split: if_splits option.splits)

lemma choose_path_state: "choose_path E target s = Ret (r, s') \<Longrightarrow> s' = s \<or> s' = tick s"
  by (auto simp: choose_path_def elim!: obind_RetE split: if_splits option.splits)

definition untouched :: "state \<Rightarrow> state \<Rightarrow> bool" where
  "untouched s s' \<longleftrightarrow> same_node s s' \<and> tasks s' = tasks s \<and> sent s' = sent s"

lemma untouched_refl [simp]: "untouched s s"
  by (simp add: untouched_def)

lemma untouched_tick [simp]: "untouched s (tick s)"
  by (simp add: untouched_def tick_def same_node_def node.defs)

lemma untouched_trans: "untouched s t \<Longrightarrow> untouched t u \<Longrightarrow> untouched s u"
  by (auto simp: untouched_def intro: same_node_trans)

lemma publish_self_cases:
  "publish_self E key m s = (r, s') \<Longrightarrow> untouched s s' \<and> (r = None \<longrightarrow> stored s' = stored s @ [(key, m)])"
  by (auto simp: publish_self_def Let_def untouched_def tick_def same_node_def node.defs split: sum.splits if_splits)

lemma publish_remote_failed: "publish_remote E key m k p s = (Some err, s') \<Longrightarrow> untouched s s'"
  by (auto simp: publish_remote_def Let_def untouched_def write_message_def tick_def same_node_def node.defs
      split: sum.splits option.splits prod.splits)

lemma publish_remote_sent:
  assumes "publish_remote E key m k p s = (None, s')"
  obtains am conn where
    "NewRealMessage (e_lib E) (e_gob E) (clock s) \<lparr>dm_Key = key, dm_Content = m\<rparr> (p_proxyPublic p) (p_symKey p) = Inr am"
    "usable (getValue (openConnections s) k) = Some conn"
    "same_node s s'" "tasks s' = tasks s" "sent s' = sent s @ [(conn, am)]"
proof -
  obtain am where am: "NewRealMessage (e_lib E) (e_gob E) (clock s) \<lparr>dm_Key = key, dm_Content = m\<rparr>
      (p_proxyPublic p) (p_symKey p) = Inr am"
    using assms by (auto simp: publish_remote_def Let_def split: sum.splits)
  obtain conn where conn: "usable (getValue (openConnections s) k) = Some conn"
    using assms am by (auto simp: publish_remote_def Let_def split: option.splits)
  have "write_message E conn am (s\<lparr>clock := clock s + 3\<rparr>) = (None, s')"
    using assms am conn by (auto simp: publish_remote_def Let_def split: option.splits prod.splits)
  then have "same_node s s'" "tasks s' = tasks s" "sent s' = sent s @ [(conn, am)]"
    by (auto simp: write_message_def tick_def same_node_def node.defs split: option.splits)
  with am conn show ?thesis
    by (rule that)
qed

definition job_recorded :: "bytes \<Rightarrow> uuid \<Rightarrow> uuid \<Rightarrow> state \<Rightarrow> state \<Rightarrow> bool" where
  "job_recorded key jobID onPath s s' \<longleftrightarrow>
     publishJobs s' = setValue (publishJobs s) jobID \<lparr>j_Key = key, j_Status = PENDING, j_OnPath = onPath\<rparr> \<and>
     tasks s' = tasks s @ [CheckPublishJobStatusWorker jobID] \<and>
     paths s' = paths s \<and> covers s' = covers s \<and> openConnections s' = openConnections s"

text \<open>The message left the node on the connection of path \<open>p\<close>, unless that path leads to storage.\<close>

definition carried :: "env \<Rightarrow> bytes \<Rightarrow> bytes \<Rightarrow> uuid \<Rightarrow> PathProfile \<Rightarrow> state \<Rightarrow> state \<Rightarrow> bool" where
  "carried E key m k p s s' \<longleftrightarrow>
     (if p_next p = IS then sent s' = sent s \<and> stored s' = stored s @ [(key, m)]
      else \<exists>t am conn.
        NewRealMessage (e_lib E) (e_gob E) t \<lparr>dm_Key = key, dm_Content = m\<rparr> (p_proxyPublic p) (p_symKey p) = Inr am \<and>
        usable (getValue (openConnections s) k) = Some conn \<and> sent s' = sent s @ [(conn, am)])"

lemma record_job_recorded:
  "record_job E key onPath s = (jobID, s') \<Longrightarrow>
   job_recorded key jobID onPath s s' \<and> sent s' = sent s \<and> stored s' = stored s"
  by (auto simp: record_job_def Let_def job_recorded_def spawn_def tick_def)

lemma Publish_cases:
  assumes "Publish E key m target s = Ret (r, s')"
  obtains (refused) err where "r = Inl err" "untouched s s'"
    | (chosen) k p s1 s2 jobID where "canPublish E s" "e_ValidateKey E key m"
        "choose_path E target s = Ret (Inr (k, p), s1)" "r = Inr jobID"
        "(if p_next p = IS then publish_self E key m s1 else publish_remote E key m k p s1) = (None, s2)"
        "record_job E key (p_uuid p) s2 = (jobID, s')"
proof (cases "canPublish E s \<and> e_ValidateKey E key m")
  case False
  with assms show ?thesis
    by (intro refused [where err = "case r of Inl e \<Rightarrow> e"]) (auto simp: Publish_def split: if_splits)
next
  case True
  then obtain choice s1 where ch: "choose_path E target s = Ret (choice, s1)"
    using assms by (auto simp: Publish_def elim!: obind_RetE)
  then have s1: "untouched s s1"
    using choose_path_state untouched_refl untouched_tick by blast
  show ?thesis
  proof (cases choice)
    case (Inl err)
    with True ch assms s1 show ?thesis
      by (intro refused [of err]) (simp_all add: Publish_def)
  next
    case (Inr a)
    obtain k p where a: "a = (k, p)"
      by (cases a)
    obtain failed s2 where act: "(if p_next p = IS then publish_self E key m s1
        else publish_remote E key m k p s1) = (failed, s2)"
      by fastforce
    show ?thesis
    proof (cases failed)
      case None
      with True ch assms Inr a act show ?thesis
        by (intro chosen [of k p s1 "projr r" s2]) (auto simp: Publish_def split: prod.splits)
    next
      case (Some err)
      have "untouched s1 s2"
        using act Some by (auto split: if_splits dest: publish_self_cases publish_remote_failed)
      with True ch assms Inr a act Some s1 show ?thesis
        by (intro refused [of err]) (auto simp: Publish_def intro: untouched_trans)
    qed
  qed
qed

lemma publish_act_same:
  assumes "(if p_next p = IS then publish_self E key m s else publish_remote E key m k p s) = (r, s')"
  shows "same_node s s'"
  using assms publish_self_cases [of E key m s r s']
  by (cases r) (auto simp: untouched_def split: if_splits dest: publish_remote_failed publish_remote_sent)

lemma Publish_paths:
  assumes "Publish E key m target s = Ret (r, s')"
  shows "paths s' = paths s"
  using assms
proof (cases rule: Publish_cases)
  case (refused err)
  then show ?thesis
    by (simp add: untouched_def same_node_fields)
next
  case (chosen k p s1 s2 jobID)
  have "same_node s s1"
    using choose_path_state [OF chosen(3)] untouched_tick [of s] by (auto simp: untouched_def)
  then have "paths s2 = paths s"
    using publish_act_same [OF chosen(5)] by (simp add: same_node_fields)
  then show ?thesis
    using record_job_recorded [OF chosen(6)] by (simp add: job_recorded_def)
qed

lemma Publish_total:
  assumes "wf_map (paths s)"
  shows "\<exists>r s'. Publish E key m target s = Ret (r, s')"
proof (cases "canPublish E s \<and> e_ValidateKey E key m")
  case False
  then show ?thesis
    by (auto simp: Publish_def)
next
  case True
  then obtain choice s1 where "choose_path E target s = Ret (choice, s1)"
    using choose_path_total [OF assms canPublish_paths] by blast
  with True show ?thesis
    by (cases choice) (auto simp: Publish_def Let_def split: prod.splits option.splits)
qed

lemma Publish_sound:
  assumes "wf_map (paths s)" and "Publish E key m target s = Ret (Inr jobID, s')"
  obtains k p where "canPublish E s" "e_ValidateKey E key m" "getValue (paths s) k = Some p"
    "target \<noteq> uuid_Nil \<longrightarrow> k = target" "job_recorded key jobID (p_uuid p) s s'" "carried E key m k p s s'"
  using assms(2)
proof (cases rule: Publish_cases)
  case refused
  then show ?thesis by simp
next
  case (chosen k p s1 s2 jobID')
  have s1: "same_node s s1" "tasks s1 = tasks s" "sent s1 = sent s" "stored s1 = stored s"
    using choose_path_state [OF chosen(3)] untouched_tick [of s] by (auto simp: untouched_def tick_def)
  have k: "getValue (paths s) k = Some p" "target \<noteq> uuid_Nil \<longrightarrow> k = target"
    using choose_path_found [OF chosen(3) assms(1)] by auto
  have rec: "job_recorded key jobID (p_uuid p) s2 s'" "sent s' = sent s2" "stored s' = stored s2"
    using record_job_recorded [OF chosen(6)] chosen(4) by auto
  have act: "same_node s1 s2 \<and> tasks s2 = tasks s1 \<and> carried E key m k p s1 s2"
  proof (cases "p_next p = IS")
    case True
    with chosen(5) show ?thesis
      by (auto simp: untouched_def carried_def dest: publish_self_cases)
  next
    case False
    then have "publish_remote E key m k p s1 = (None, s2)"
      using chosen(5) by simp
    then show ?thesis
      by (rule publish_remote_sent) (use False in \<open>auto simp: carried_def\<close>)
  qed
  then have "job_recorded key jobID (p_uuid p) s s'" "carried E key m k p s s'"
    using rec s1 by (auto simp: job_recorded_def carried_def same_node_fields split: if_splits)
  with chosen(1,2) k show ?thesis
    by (rule that)
qed

section \<open>What a call to Publish does\<close>



end
