(* ===== verification/Admission.thy ===== *)
theory Admission
  imports Preservation Samples
begin

text \<open>
  The decisions of \<open>handleConnectPathReq\<close> and \<open>handleCreateProxyReq\<close>: who becomes a cover, what is stored and
  answered, what stays behind when an accepted request fails half way, and the offers on which the
  handlers panic.
\<close>

section \<open>The exchange of an accepted request\<close>

lemma answer_exchange_Ret:
  "answer_exchange E ex s = Ret (info, k, s') \<longleftrightarrow>
     GenerateReturn ex (RandomBigInt (e_lib E) (clock s) 32) = Ret info \<and>
     GetSymKey ex (RandomBigInt (e_lib E) (clock s) 32) = Ret k \<and> s' = tick s"
  by (auto simp: answer_exchange_def Let_def outcome_simps)

lemma answer_exchange_panics: "panics (answer_exchange E ex s) \<longleftrightarrow> dh_G ex = None \<or> dh_HalfKey ex = None"
  by (cases "dh_G ex"; cases "dh_HalfKey ex")
    (auto simp: answer_exchange_def Let_def GenerateReturn_def GetSymKey_def big_Exp_def split: option.splits)

lemma panics_obind: "(\<And>x. m = Ret x \<Longrightarrow> \<not> panics (f x)) \<Longrightarrow> panics (obind m f) = panics m"
  by (cases m) auto

lemma accept_connect_panics: "panics (accept_connect E c ip pid fp ex s) = panics (answer_exchange E ex s)"
  unfolding accept_connect_def
  by (rule panics_obind) (auto split: prod.splits option.splits)

lemma accept_proxy_panics:
  "panics (accept_proxy E c ip req s) = panics (answer_exchange E (xreq_CoverKeyExchange req) s)"
  unfolding accept_proxy_def Let_def
  by (rule panics_obind) (auto split: prod.splits option.splits sum.splits)

section \<open>A request to connect\<close>

definition admissible :: "env \<Rightarrow> string \<Rightarrow> uuid \<Rightarrow> state \<Rightarrow> bool" where
  "admissible E coverIp pathID s \<longleftrightarrow>
     getValue (covers s) coverIp = None \<and>
     int (getSize (covers s)) < MAXIMUM_NUMBER_OF_COVER_NODES (e_cfg E) \<and>
     getValue (paths s) pathID \<noteq> None"

lemma handleConnectPathReq_admitted:
  assumes "SplitHostPort (in_remote c) = Inr (ip, port)"
    and "DecryptUUID (e_lib E) (creq_EncryptedTreeUUID req) (privateKey s) = Inr pid"
    and "admissible E ip pid s"
  shows "handleConnectPathReq E (Some c) req s =
     accept_connect E c ip pid (the (getValue (paths s) pid)) (creq_CoverKeyExchange req) s"
  using assms by (auto simp: handleConnectPathReq_def admissible_def tooManyCovers_def)

lemma handleConnectPathReq_refused:
  assumes "SplitHostPort (in_remote c) = Inr (ip, port)"
    and "DecryptUUID (e_lib E) (creq_EncryptedTreeUUID req) (privateKey s) = Inr pid"
    and "\<not> admissible E ip pid s"
  shows "handleConnectPathReq E (Some c) req s =
     (let (err, s1) = write_response E (in_conn c) (RespConnectPath reject_connect) s
      in Ret (err, close_conn (in_conn c) s1))"
  using assms
  by (auto simp: handleConnectPathReq_def admissible_def tooManyCovers_def split: option.splits bool.splits)

text \<open>
  Property C9: a connect request is accepted exactly when the requester is no cover yet, the cover table is below its
  limit and the path exists.  An accepted request enters the requester under the key of the exchange
  and the requested tree, answers with the other half of the exchange and starts the worker that
  forwards along the stored path; a refused one changes no table, starts nothing and is closed.
\<close>

theorem connect_request_decision:
  assumes "SplitHostPort (in_remote c) = Inr (ip, port)"
    and "DecryptUUID (e_lib E) (creq_EncryptedTreeUUID req) (privateKey s) = Inr pid"
    and "handleConnectPathReq E (Some c) req s = Ret (None, s')"
  shows "if getValue (covers s) ip = None \<and>
            int (getSize (covers s)) < MAXIMUM_NUMBER_OF_COVER_NODES (e_cfg E) \<and> getValue (paths s) pid \<noteq> None
     then \<exists>info k ctx cover.
        GenerateReturn (creq_CoverKeyExchange req) (RandomBigInt (e_lib E) (clock s) 32) = Ret info \<and>
        GetSymKey (creq_CoverKeyExchange req) (RandomBigInt (e_lib E) (clock s) 32) = Ret k \<and>
        cover = \<lparr>c_cover = ip, c_secretKey = k, c_treeUUID = pid, c_cancelFunc = Some ctx\<rparr> \<and>
        covers s' = setValue (covers s) ip cover \<and> paths s' = paths s \<and>
        responses s' = responses s @
          [(in_conn c, RespConnectPath \<lparr>cresp_Accepted = True, cresp_ParentKeyExchange = info\<rparr>)] \<and>
        tasks s' = tasks s @ [HandleApplicationMessageWorker ctx (in_conn c) cover (the (getValue (paths s) pid))] \<and>
        closed s' = closed s
     else covers s' = covers s \<and> paths s' = paths s \<and> tasks s' = tasks s \<and>
        responses s' = responses s @ [(in_conn c, RespConnectPath reject_connect)] \<and>
        closed s' = in_conn c # closed s"
proof (cases "admissible E ip pid s")
  case True
  note run = assms(3) [unfolded handleConnectPathReq_admitted [OF assms(1,2) True]]
  then obtain info k where ans: "answer_exchange E (creq_CoverKeyExchange req) s = Ret (info, k, tick s)"
    by (auto simp: accept_connect_def answer_exchange_Ret outcome_simps)
  from True show ?thesis
    using run ans
    by (auto simp: admissible_def accept_connect_def answer_exchange_Ret add_cover_def Let_def write_response_def
        spawn_def tick_def split: option.splits)
next
  case False
  with assms(3) show ?thesis
    unfolding handleConnectPathReq_refused [OF assms(1,2) False]
    by (auto simp: admissible_def write_response_def close_conn_def tick_def split: option.splits prod.splits)
qed

theorem connect_request_decision_witness:
  "\<exists>s' cover. handleConnectPathReq sample_env (Some caller) sample_connect proxy_node = Ret (None, s') \<and>
     covers s' = setValue [] ''10.0.0.2'' cover \<and> c_treeUUID cover = 5 \<and> c_secretKey cover = 2 ^ 255"
proof -
  have tree: "DecryptUUID (e_lib sample_env) (creq_EncryptedTreeUUID sample_connect) (privateKey proxy_node) = Inr 5"
    by simp
  obtain s' where run: "handleConnectPathReq sample_env (Some caller) sample_connect proxy_node = Ret (None, s')"
    by (simp add: handleConnectPathReq_def getValue_def getSize_def tooManyCovers_def accept_connect_def
        answer_exchange_def Let_def add_cover_def write_response_def tick_def)
  have "getValue (covers proxy_node) ''10.0.0.2'' = None \<and>
      int (getSize (covers proxy_node)) < MAXIMUM_NUMBER_OF_COVER_NODES (e_cfg sample_env) \<and>
      getValue (paths proxy_node) 5 \<noteq> None"
    by (simp add: getValue_def getSize_def)
  from connect_request_decision [OF caller_address tree run, unfolded if_P [OF this]] run show ?thesis
    by auto
qed

text \<open>
  When the response to an accepted connect request cannot be written, the handler reports the
  error and closes the connection, but the requester stays in the cover table with no worker that
  would ever remove it: every later connect request from that address changes no cover entry.
\<close>

theorem lost_response_keeps_cover:
  assumes "SplitHostPort (in_remote c) = Inr (ip, port)"
    and "DecryptUUID (e_lib E) (creq_EncryptedTreeUUID req) (privateKey s) = Inr pid"
    and "getValue (covers s) ip = None"
    and "int (getSize (covers s)) < MAXIMUM_NUMBER_OF_COVER_NODES (e_cfg E)"
    and "getValue (paths s) pid \<noteq> None"
    and "handleConnectPathReq E (Some c) req s = Ret (Some err, s')"
  shows "getValue (covers s') ip \<noteq> None \<and> tasks s' = tasks s \<and> in_conn c \<in> set (closed s') \<and>
    (\<forall>c' port' req' e s''.
       SplitHostPort (in_remote c') = Inr (ip, port') \<and>
       handleConnectPathReq E (Some c') req' s' = Ret (e, s'') \<longrightarrow> covers s'' = covers s' \<and> tasks s'' = tasks s')"
proof -
  have adm: "admissible E ip pid s"
    using assms(3-5) by (simp add: admissible_def)
  have left: "getValue (covers s') ip \<noteq> None" "tasks s' = tasks s" "in_conn c \<in> set (closed s')"
    using assms(6) [unfolded handleConnectPathReq_admitted [OF assms(1,2) adm]]
    by (auto simp: accept_connect_def answer_exchange_Ret add_cover_def Let_def write_response_def close_conn_def
        tick_def outcome_simps split: option.splits)
  have again: "covers s'' = covers s' \<and> tasks s'' = tasks s'"
    if "SplitHostPort (in_remote c') = Inr (ip, port')" and "handleConnectPathReq E (Some c') req' s' = Ret (e, s'')"
    for c' port' req' e s''
    using that left(1)
    by (auto simp: handleConnectPathReq_def write_response_def close_conn_def tick_def
        split: sum.splits option.splits prod.splits)
  show ?thesis
    using left again by blast
qed

theorem lost_response_keeps_cover_witness:
  "\<exists>s'. handleConnectPathReq (sample_env\<lparr>e_write := \<lambda>t c. Some (LibError ''broken pipe'')\<rparr>) (Some caller)
      sample_connect proxy_node = Ret (Some (LibError ''broken pipe''), s') \<and>
    getValue (covers s') ''10.0.0.2'' \<noteq> None \<and> tasks s' = []"
proof -
  let ?E = "sample_env\<lparr>e_write := \<lambda>t c. Some (LibError ''broken pipe'')\<rparr>"
  obtain s' where run: "handleConnectPathReq ?E (Some caller) sample_connect proxy_node =
      Ret (Some (LibError ''broken pipe''), s')"
    by (simp add: handleConnectPathReq_def getValue_def getSize_def tooManyCovers_def accept_connect_def
        answer_exchange_def Let_def add_cover_def write_response_def tick_def)
  have "getValue (covers s') ''10.0.0.2'' \<noteq> None \<and> tasks s' = tasks proxy_node"
    using lost_response_keeps_cover [OF caller_address _ _ _ _ run, of 5] by (simp add: getValue_def getSize_def)
  with run show ?thesis
    by simp
qed

section \<open>A request for a proxy\<close>

lemma proxy_scan_fold: "fst (fold (\<lambda>(k, p). proxy_scan k p) es acc) \<longleftrightarrow> fst acc \<or> (\<exists>(k, p) \<in> set es. p_next p = IS)"
  by (induction es arbitrary: acc) (auto simp: proxy_scan_def)

lemma isProxyAlready_iff:
  assumes "wf_map (paths s)"
  shows "isProxyAlready E s \<longleftrightarrow> (\<exists>k p. getValue (paths s) k = Some p \<and> p_next p = IS)"
  using mm.entries_mem [OF assms] by (force simp: isProxyAlready_def iterate_def proxy_scan_fold)

lemma handleCreateProxyReq_cases:
  assumes "SplitHostPort (in_remote c) = Inr (ip, port)"
  shows "handleCreateProxyReq E (Some c) req s =
     (if getValue (covers s) ip = None \<and> \<not> tooManyCovers E s \<and> \<not> isProxyAlready E s
      then accept_proxy E c ip req s
      else (let (err, s1) = write_response E (in_conn c) (RespCreateProxy reject_proxy) s
            in Ret (err, close_conn (in_conn c) s1)))"
  using assms by (auto simp: handleCreateProxyReq_def Let_def)

lemma accept_proxy_accepted:
  assumes "accept_proxy E c ip req s = Ret (None, s')"
  obtains info k pid enc ctx t where
    "GenerateReturn (xreq_CoverKeyExchange req) (RandomBigInt (e_lib E) (clock s) 32) = Ret info"
    "GetSymKey (xreq_CoverKeyExchange req) (RandomBigInt (e_lib E) (clock s) 32) = Ret k"
    "EncryptUUID (e_lib E) t pid (xreq_CoverPublicKey req) = Inr enc"
    "paths s' = setValue (paths s) pid (self_proxy_path pid (publicKey s) k)"
    "covers s' = setValue (covers s) ip
       \<lparr>c_cover = ip, c_secretKey = k, c_treeUUID = pid, c_cancelFunc = Some ctx\<rparr>"
    "tasks s' = tasks s @ [HandleApplicationMessageWorker ctx (in_conn c)
       \<lparr>c_cover = ip, c_secretKey = k, c_treeUUID = pid, c_cancelFunc = Some ctx\<rparr>
       (self_proxy_path pid (publicKey s) k)]"
    "responses s' = responses s @ [(in_conn c, RespCreateProxy
       \<lparr>xresp_Accepted = True, xresp_ProxyKeyExchange = info, xresp_ProxyPublicKey = publicKey s,
        xresp_EncryptedTreeUUID = enc\<rparr>)]"
proof -
  obtain info k where ans: "answer_exchange E (xreq_CoverKeyExchange req) s = Ret (info, k, tick s)"
    using assms by (auto simp: accept_proxy_def answer_exchange_Ret elim!: obind_RetE)
  note parts = ans [unfolded answer_exchange_Ret]
  let ?pid = "e_uuid E (Suc (clock s))"
  let ?t = "Suc (Suc (Suc (clock s)))"
  show ?thesis
  proof (cases "EncryptUUID (e_lib E) ?t ?pid (xreq_CoverPublicKey req)")
    case (Inl err)
    with assms ans show ?thesis
      by (simp add: accept_proxy_def Let_def add_cover_def tick_def)
  next
    case (Inr enc)
    with assms ans have "e_write E (Suc ?t) (in_conn c) = None"
      by (auto simp: accept_proxy_def Let_def add_cover_def tick_def write_response_def split: option.splits)
    with assms ans Inr parts show ?thesis
      by (intro that [of info k ?t ?pid enc "Suc (Suc (clock s))"])
        (auto simp: accept_proxy_def Let_def add_cover_def tick_def write_response_def spawn_def)
  qed
qed

text \<open>
  Property C10: a node asked to become a proxy accepts exactly when the requester is no cover yet, the cover table is
  below its limit and no path of the node leads to storage, in whatever order the paths are visited.  It then holds a
  new path to storage, the requester as a cover of that path, both under the key of the exchange, and answers with
  the path's identifier encrypted to the requester; a refusal changes no table.
\<close>

theorem create_proxy_decision:
  assumes "SplitHostPort (in_remote c) = Inr (ip, port)"
    and "wf_map (paths s)"
    and "handleCreateProxyReq E (Some c) req s = Ret (None, s')"
  shows "if getValue (covers s) ip = None \<and>
            int (getSize (covers s)) < MAXIMUM_NUMBER_OF_COVER_NODES (e_cfg E) \<and>
            (\<forall>k p. getValue (paths s) k = Some p \<longrightarrow> p_next p \<noteq> IS)
     then \<exists>info k ctx cover pid enc t.
        GenerateReturn (xreq_CoverKeyExchange req) (RandomBigInt (e_lib E) (clock s) 32) = Ret info \<and>
        GetSymKey (xreq_CoverKeyExchange req) (RandomBigInt (e_lib E) (clock s) 32) = Ret k \<and>
        EncryptUUID (e_lib E) t pid (xreq_CoverPublicKey req) = Inr enc \<and>
        cover = \<lparr>c_cover = ip, c_secretKey = k, c_treeUUID = pid, c_cancelFunc = Some ctx\<rparr> \<and>
        paths s' = setValue (paths s) pid (self_proxy_path pid (publicKey s) k) \<and>
        covers s' = setValue (covers s) ip cover \<and>
        responses s' = responses s @ [(in_conn c, RespCreateProxy
          \<lparr>xresp_Accepted = True, xresp_ProxyKeyExchange = info, xresp_ProxyPublicKey = publicKey s,
           xresp_EncryptedTreeUUID = enc\<rparr>)] \<and>
        tasks s' = tasks s @
          [HandleApplicationMessageWorker ctx (in_conn c) cover (self_proxy_path pid (publicKey s) k)]
     else covers s' = covers s \<and> paths s' = paths s \<and> tasks s' = tasks s \<and>
        responses s' = responses s @ [(in_conn c, RespCreateProxy reject_proxy)] \<and>
        closed s' = in_conn c # closed s"
proof (cases "getValue (covers s) ip = None \<and> \<not> tooManyCovers E s \<and> \<not> isProxyAlready E s")
  case True
  note run = assms(3) [unfolded handleCreateProxyReq_cases [OF assms(1)] if_P [OF True]]
  have cond: "getValue (covers s) ip = None \<and>
            int (getSize (covers s)) < MAXIMUM_NUMBER_OF_COVER_NODES (e_cfg E) \<and>
            (\<forall>k p. getValue (paths s) k = Some p \<longrightarrow> p_next p \<noteq> IS)"
    using True by (auto simp: tooManyCovers_def isProxyAlready_iff [OF assms(2)])
  show ?thesis
    unfolding if_P [OF cond] by (rule accept_proxy_accepted [OF run]) blast
next
  case False
  note run = assms(3) [unfolded handleCreateProxyReq_cases [OF assms(1)] if_not_P [OF False]]
  have cond: "\<not> (getValue (covers s) ip = None \<and>
            int (getSize (covers s)) < MAXIMUM_NUMBER_OF_COVER_NODES (e_cfg E) \<and>
            (\<forall>k p. getValue (paths s) k = Some p \<longrightarrow> p_next p \<noteq> IS))"
    using False by (auto simp: tooManyCovers_def isProxyAlready_iff [OF assms(2)])
  show ?thesis
    unfolding if_not_P [OF cond] using run
    by (auto simp: write_response_def close_conn_def tick_def split: option.splits prod.splits)
qed

theorem create_proxy_decision_witness:
  "\<exists>s' k pid. handleCreateProxyReq sample_env (Some caller) sample_proxy_req node0 = Ret (None, s') \<and>
     paths s' = setValue [] pid (self_proxy_path pid [7] k) \<and> length (tasks s') = 1"
proof -
  obtain s' where run: "handleCreateProxyReq sample_env (Some caller) sample_proxy_req node0 = Ret (None, s')"
    by (simp add: handleCreateProxyReq_def getValue_def getSize_def tooManyCovers_def accept_proxy_def
        isProxyAlready_iff wf_map_def answer_exchange_def Let_def add_cover_def write_response_def tick_def)
  have cond: "getValue (covers node0) ''10.0.0.2'' = None \<and>
      int (getSize (covers node0)) < MAXIMUM_NUMBER_OF_COVER_NODES (e_cfg sample_env) \<and>
      (\<forall>k p. getValue (paths node0) k = Some p \<longrightarrow> p_next p \<noteq> IS)"
    by (simp add: getValue_def getSize_def)
  have "wf_map (paths node0)"
    by (simp add: wf_map_def)
  from create_proxy_decision [OF caller_address this run, unfolded if_P [OF cond]] run show ?thesis
    by auto
qed

text \<open>
  \<open>handleCreateProxyReq\<close> stores path and cover before it encrypts the identifier and writes
  the response.  When either fails it returns the error, but the path to storage and the cover stay,
  no worker serves them, and every later request for a proxy is turned down.
\<close>

theorem failed_proxy_keeps_path:
  assumes "SplitHostPort (in_remote c) = Inr (ip, port)"
    and "wf_map (paths s)"
    and "getValue (covers s) ip = None"
    and "int (getSize (covers s)) < MAXIMUM_NUMBER_OF_COVER_NODES (e_cfg E)"
    and "\<forall>k p. getValue (paths s) k = Some p \<longrightarrow> p_next p \<noteq> IS"
    and "handleCreateProxyReq E (Some c) req s = Ret (Some err, s')"
  shows "(\<exists>pid p. getValue (paths s') pid = Some p \<and> p_next p = IS) \<and> getValue (covers s') ip \<noteq> None \<and>
    tasks s' = tasks s \<and> in_conn c \<in> set (closed s') \<and> isProxyAlready E s'"
proof -
  have "getValue (covers s) ip = None \<and> \<not> tooManyCovers E s \<and> \<not> isProxyAlready E s"
    using assms(3-5) by (auto simp: tooManyCovers_def isProxyAlready_iff [OF assms(2)])
  then have "accept_proxy E c ip req s = Ret (Some err, s')"
    using assms(6) by (simp add: handleCreateProxyReq_cases [OF assms(1)])
  then obtain pid k where
    left: "paths s' = setValue (paths s) pid (self_proxy_path pid (publicKey s) k)"
      "getValue (covers s') ip \<noteq> None" "tasks s' = tasks s" "in_conn c \<in> set (closed s')"
    by (auto simp: accept_proxy_def answer_exchange_Ret add_cover_def Let_def write_response_def close_conn_def
        tick_def elim!: obind_RetE split: option.splits sum.splits)
  then have path: "getValue (paths s') pid = Some (self_proxy_path pid (publicKey s) k)" and "wf_map (paths s')"
    using assms(2) by (simp_all add: wf_intros)
  then show ?thesis
    using left by (auto simp: isProxyAlready_iff self_proxy_path_def)
qed

theorem failed_proxy_keeps_path_witness:
  "\<exists>s'. handleCreateProxyReq (sample_env\<lparr>e_write := \<lambda>t c. Some (LibError ''broken pipe'')\<rparr>) (Some caller)
      sample_proxy_req node0 = Ret (Some (LibError ''broken pipe''), s') \<and> getValue (covers s') ''10.0.0.2'' \<noteq> None \<and>
      isProxyAlready (sample_env\<lparr>e_write := \<lambda>t c. Some (LibError ''broken pipe'')\<rparr>) s'"
proof -
  let ?E = "sample_env\<lparr>e_write := \<lambda>t c. Some (LibError ''broken pipe'')\<rparr>"
  obtain s' where run: "handleCreateProxyReq ?E (Some caller) sample_proxy_req node0 =
      Ret (Some (LibError ''broken pipe''), s')"
    by (simp add: handleCreateProxyReq_def getValue_def getSize_def tooManyCovers_def accept_proxy_def
        isProxyAlready_iff wf_map_def answer_exchange_def Let_def add_cover_def write_response_def tick_def)
  from failed_proxy_keeps_path [OF caller_address _ _ _ _ run] run show ?thesis
    by (auto simp: wf_map_def getValue_def getSize_def)
qed

section \<open>Malformed offers\<close>

text \<open>
  Property C37: the exchange in a request is used without a check.  A request for a proxy that a node
  would accept makes its handler panic, and with it the process, exactly when the decoded exchange
  lacks the generator or the half key.
\<close>

theorem malformed_offer_panics:
  assumes "pm_Type msg = CreateProxyRequest" and "dec_CreateProxyReq (e_gob E) (pm_Content msg) = Inr req"
    and "SplitHostPort (in_remote c) = Inr (ip, port)"
    and "wf_map (paths s)"
    and "getValue (covers s) ip = None"
    and "int (getSize (covers s)) < MAXIMUM_NUMBER_OF_COVER_NODES (e_cfg E)"
    and "\<forall>k p. getValue (paths s) k = Some p \<longrightarrow> p_next p \<noteq> IS"
  shows "panics (handleConnection E c (Inr msg) s) \<longleftrightarrow>
     dh_G (xreq_CoverKeyExchange req) = None \<or> dh_HalfKey (xreq_CoverKeyExchange req) = None"
proof -
  have "getValue (covers s) ip = None \<and> \<not> tooManyCovers E s \<and> \<not> isProxyAlready E s"
    using assms(5-7) by (auto simp: tooManyCovers_def isProxyAlready_iff [OF assms(4)])
  then have "handleMessage E c msg s = accept_proxy E c ip req s"
    using assms(1,2) by (simp add: handleMessage_def message_types handleCreateProxyReq_cases [OF assms(3)])
  then show ?thesis
    by (simp add: handleConnection_def panics_obind accept_proxy_panics answer_exchange_panics split: prod.splits)
qed

theorem malformed_offer_panics_witness:
  "panics (handleConnection sample_env caller
     (Inr \<lparr>pm_Type = CreateProxyRequest, pm_Content = write_fields [[9], [], [], []]\<rparr>) node0)"
  using malformed_offer_panics [of "\<lparr>pm_Type = CreateProxyRequest, pm_Content = write_fields [[9], [], [], []]\<rparr>"
      sample_env "\<lparr>xreq_CoverPublicKey = [9], xreq_CoverKeyExchange = nil_exchange\<rparr>" caller _ _ node0,
      OF _ _ caller_address]
  by (simp add: field_gob_def of_fields_def get_dh_def get_int_def nil_exchange_def wf_map_def getValue_def getSize_def
      numeral_eq_Suc)

end
