(* ===== verification/Peers.thy ===== *)
theory Peers
  imports Server
begin

text \<open>
  What one node receives when another, in a given state, handles the message it was sent: the answer, encoded, if the handler
  writes exactly one and reports no error.  A handler answers with the response that belongs to its request.
\<close>

definition encoded :: "gob \<Rightarrow> response \<Rightarrow> go_error + bytes" where
  "encoded G r =
     (case r of
        RespQueryPath q \<Rightarrow> enc_QueryPathResp G q
      | RespVerifyCover v \<Rightarrow> enc_VerifyCoverResp G v
      | RespConnectPath n \<Rightarrow> enc_ConnectPathResp G n
      | RespCreateProxy x \<Rightarrow> enc_CreateProxyResp G x)"

definition answer_of :: "env \<Rightarrow> incoming \<Rightarrow> state \<Rightarrow> ProtocolMessage \<Rightarrow> arrival" where
  "answer_of E c p msg =
     (case handleMessage E c msg p of
        Ret (None, p') \<Rightarrow>
          (case map snd (drop (length (responses p)) (responses p')) of
             [r] \<Rightarrow> (case encoded (e_gob E) r of Inl err \<Rightarrow> ReadFailed err | Inr bs \<Rightarrow> Arrived bs)
           | _ \<Rightarrow> TimedOut)
      | _ \<Rightarrow> TimedOut)"

lemma answer_of_eq:
  assumes "handleMessage E c msg p = Ret (None, p')" and "responses p' = responses p @ [(in_conn c, r)]"
    and "encoded (e_gob E) r = Inr bs"
  shows "answer_of E c p msg = Arrived bs"
  using assms by (simp add: answer_of_def)

lemma answer_of_Arrived:
  assumes "answer_of E c p msg = Arrived bs"
  obtains p' r where "handleMessage E c msg p = Ret (None, p')"
    "map snd (drop (length (responses p)) (responses p')) = [r]" "encoded (e_gob E) r = Inr bs"
  using assms by (auto simp: answer_of_def split: outcome.splits option.splits list.splits sum.splits)

lemma written_response: "write_response E c r s = (None, s') \<Longrightarrow> responses s' = responses s @ [(c, r)]"
  by (auto simp: write_response_def tick_def split: option.splits)

lemma close_conn_responses [simp]: "responses (close_conn c s) = responses s"
  by (simp add: close_conn_def)

lemma QueryPathReq_entries_responses:
  "responses (snd (iterate (QueryPathReq_entry E pub) ord m acc)) = responses (snd acc)"
  unfolding iterate_def
  by (rule fold_invariant_on [where I = "\<lambda>a. responses (snd a) = responses (snd acc)"])
    (auto simp: QueryPathReq_entry_def Let_def tick_def split: sum.splits)

lemma handled_query: "handleQueryPathReq E c q p = (None, p') \<Longrightarrow> \<exists>r. responses p' = responses p @ [(in_conn c, RespQueryPath r)]"
  using QueryPathReq_entries_responses [of E "qreq_CoverPublicKey q" "e_order_uuid E (clock p)" "paths p" "([], p)"]
  by (auto simp: handleQueryPathReq_def Let_def dest!: written_response split: prod.splits if_splits)

lemma handled_verify: "handleVerifyCoverReq E c v p = (None, p') \<Longrightarrow> \<exists>r. responses p' = responses p @ [(in_conn c, RespVerifyCover r)]"
  by (auto simp: handleVerifyCoverReq_def Let_def dest!: written_response split: prod.splits)

lemma answer_exchange_responses: "answer_exchange E offer s = Ret (info, k, s') \<Longrightarrow> responses s' = responses s"
  by (auto simp: answer_exchange_def Let_def tick_def elim!: obind_RetE)

lemma handled_connect:
  assumes "handleConnectPathReq E (Some c) n p = Ret (None, p')"
  shows "\<exists>r. responses p' = responses p @ [(in_conn c, RespConnectPath r)]"
proof -
  have refused: ?thesis if "write_response E (in_conn c) (RespConnectPath reject_connect) p = (None, u)"
    "p' = close_conn (in_conn c) u" for u
    using that by (auto dest!: written_response)
  have accepted: ?thesis if run: "accept_connect E c ip tree fwd offer p = Ret (None, p')" for ip tree fwd offer
    using run
    by (auto simp: accept_connect_def add_cover_def Let_def spawn_def tick_def elim!: obind_RetE
        dest!: written_response answer_exchange_responses split: prod.splits option.splits)
  show ?thesis
    using assms refused accepted
    by (auto simp: handleConnectPathReq_def split: sum.splits prod.splits option.splits bool.splits)
qed

lemma handled_proxy:
  assumes "handleCreateProxyReq E (Some c) x p = Ret (None, p')"
  shows "\<exists>r. responses p' = responses p @ [(in_conn c, RespCreateProxy r)]"
proof -
  have refused: ?thesis if "write_response E (in_conn c) (RespCreateProxy reject_proxy) p = (None, u)"
    "p' = close_conn (in_conn c) u" for u
    using that by (auto dest!: written_response)
  have accepted: ?thesis if run: "accept_proxy E c ip x p = Ret (None, p')" for ip
    using run
    by (auto simp: accept_proxy_def add_cover_def Let_def spawn_def tick_def elim!: obind_RetE
        dest!: written_response answer_exchange_responses split: prod.splits option.splits sum.splits)
  show ?thesis
    using assms refused accepted
    by (auto simp: handleCreateProxyReq_def Let_def split: sum.splits prod.splits if_splits)
qed

text \<open>The answers to the four requests.\<close>

lemma answered_query:
  assumes "answer_of E c p \<lparr>pm_Type = QueryPathRequest, pm_Content = m\<rparr> = Arrived bs"
  obtains q p' r where "dec_QueryPathReq (e_gob E) m = Inr q" "handleQueryPathReq E c q p = (None, p')"
    "responses p' = responses p @ [(in_conn c, RespQueryPath r)]" "enc_QueryPathResp (e_gob E) r = Inr bs"
proof (rule answer_of_Arrived [OF assms])
  fix p' r'
  assume run: "handleMessage E c \<lparr>pm_Type = QueryPathRequest, pm_Content = m\<rparr> p = Ret (None, p')"
    and r': "map snd (drop (length (responses p)) (responses p')) = [r']" "encoded (e_gob E) r' = Inr bs"
  obtain q where h: "dec_QueryPathReq (e_gob E) m = Inr q" "handleQueryPathReq E c q p = (None, p')"
    using run by (auto simp: handleMessage_def message_types Let_def split: sum.splits)
  obtain r where r: "responses p' = responses p @ [(in_conn c, RespQueryPath r)]"
    using handled_query [OF h(2)] by blast
  with r' have "enc_QueryPathResp (e_gob E) r = Inr bs"
    by (auto simp: encoded_def)
  with h r show thesis
    by (rule that)
qed

lemma answered_verify:
  assumes "answer_of E c p \<lparr>pm_Type = VerifyCoverRequest, pm_Content = m\<rparr> = Arrived bs"
  obtains v p' r where "dec_VerifyCoverReq (e_gob E) m = Inr v" "handleVerifyCoverReq E c v p = (None, p')"
    "responses p' = responses p @ [(in_conn c, RespVerifyCover r)]" "enc_VerifyCoverResp (e_gob E) r = Inr bs"
proof (rule answer_of_Arrived [OF assms])
  fix p' r'
  assume run: "handleMessage E c \<lparr>pm_Type = VerifyCoverRequest, pm_Content = m\<rparr> p = Ret (None, p')"
    and r': "map snd (drop (length (responses p)) (responses p')) = [r']" "encoded (e_gob E) r' = Inr bs"
  obtain v where h: "dec_VerifyCoverReq (e_gob E) m = Inr v" "handleVerifyCoverReq E c v p = (None, p')"
    using run by (auto simp: handleMessage_def message_types Let_def split: sum.splits)
  obtain r where r: "responses p' = responses p @ [(in_conn c, RespVerifyCover r)]"
    using handled_verify [OF h(2)] by blast
  with r' have "enc_VerifyCoverResp (e_gob E) r = Inr bs"
    by (auto simp: encoded_def)
  with h r show thesis
    by (rule that)
qed

lemma answered_connect:
  assumes "answer_of E c p \<lparr>pm_Type = ConnectPathRequest, pm_Content = m\<rparr> = Arrived bs"
  obtains n p' r where "dec_ConnectPathReq (e_gob E) m = Inr n" "handleConnectPathReq E (Some c) n p = Ret (None, p')"
    "responses p' = responses p @ [(in_conn c, RespConnectPath r)]" "enc_ConnectPathResp (e_gob E) r = Inr bs"
proof (rule answer_of_Arrived [OF assms])
  fix p' r'
  assume run: "handleMessage E c \<lparr>pm_Type = ConnectPathRequest, pm_Content = m\<rparr> p = Ret (None, p')"
    and r': "map snd (drop (length (responses p)) (responses p')) = [r']" "encoded (e_gob E) r' = Inr bs"
  obtain n where h: "dec_ConnectPathReq (e_gob E) m = Inr n" "handleConnectPathReq E (Some c) n p = Ret (None, p')"
    using run by (auto simp: handleMessage_def message_types Let_def split: sum.splits)
  obtain r where r: "responses p' = responses p @ [(in_conn c, RespConnectPath r)]"
    using handled_connect [OF h(2)] by blast
  with r' have "enc_ConnectPathResp (e_gob E) r = Inr bs"
    by (auto simp: encoded_def)
  with h r show thesis
    by (rule that)
qed

lemma answered_proxy:
  assumes "answer_of E c p \<lparr>pm_Type = CreateProxyRequest, pm_Content = m\<rparr> = Arrived bs"
  obtains x p' r where "dec_CreateProxyReq (e_gob E) m = Inr x" "handleCreateProxyReq E (Some c) x p = Ret (None, p')"
    "responses p' = responses p @ [(in_conn c, RespCreateProxy r)]" "enc_CreateProxyResp (e_gob E) r = Inr bs"
proof (rule answer_of_Arrived [OF assms])
  fix p' r'
  assume run: "handleMessage E c \<lparr>pm_Type = CreateProxyRequest, pm_Content = m\<rparr> p = Ret (None, p')"
    and r': "map snd (drop (length (responses p)) (responses p')) = [r']" "encoded (e_gob E) r' = Inr bs"
  obtain x where h: "dec_CreateProxyReq (e_gob E) m = Inr x" "handleCreateProxyReq E (Some c) x p = Ret (None, p')"
    using run by (auto simp: handleMessage_def message_types Let_def split: sum.splits)
  obtain r where r: "responses p' = responses p @ [(in_conn c, RespCreateProxy r)]"
    using handled_proxy [OF h(2)] by blast
  with r' have "enc_CreateProxyResp (e_gob E) r = Inr bs"
    by (auto simp: encoded_def)
  with h r show thesis
    by (rule that)
qed

end
