(* ===== verification/Link.thy ===== *)
theory Link
  imports Admission Peers
begin

text \<open>
  Two nodes: \<open>ConnectPath\<close> on one against the handler of connect requests on the other.
\<close>

text \<open>The requester's side: an accepted \<open>ConnectPath\<close> sent its exchange and installed the key it derived from the answer.\<close>

lemma tcpSend_arrived:
  assumes "tcpSendAndWaitResponse decode E msg ip keep s = (Inr (resp, tc), s')"
  obtains t bs where "e_arrival E t ip msg = Arrived bs" "decode bs = Inr resp"
  using assms
  by (auto simp: tcpSendAndWaitResponse_def waitForResponse_def Let_def split: option.splits sum.splits arrival.splits)

lemma sendConnect_arrived:
  assumes "sendConnectPathRequest E ip tree info s = Ret (Inr (resp, tc), s')"
  obtains s1 t enc msg bs where "learn_peer E ip tree s = Ret (None, s1)"
    "EncryptUUID (e_lib E) (clock s1) tree (case getValue (peerPublicKeys s1) ip of None \<Rightarrow> [] | Some k \<Rightarrow> k) = Inr enc"
    "enc_ConnectPathReq (e_gob E) \<lparr>creq_EncryptedTreeUUID = enc, creq_CoverKeyExchange = info\<rparr> = Inr msg"
    "e_arrival E t ip \<lparr>pm_Type = ConnectPathRequest, pm_Content = msg\<rparr> = Arrived bs"
    "dec_ConnectPathResp (e_gob E) bs = Inr resp"
proof -
  obtain s1 where "learn_peer E ip tree s = Ret (None, s1)" "post_connect_request E ip tree info s1 = (Inr (resp, tc), s')"
    using assms by (auto simp: sendConnectPathRequest_def elim!: obind_RetE split: option.splits)
  then show ?thesis
    by (auto simp: post_connect_request_def Let_def split: sum.splits elim!: tcpSend_arrived intro: that)
qed

lemma ConnectPath_accepted:
  assumes "ConnectPath E ip tree s = Ret ((Some resp, None), s')" and "cresp_Accepted resp"
  obtains secret info tc path s1 s2 where
    "offered_with info secret" "same_node s s1"
    "sendConnectPathRequest E ip tree info s1 = Ret (Inr (resp, tc), s2)"
    "GetSymKey (cresp_ParentKeyExchange resp) secret = Ret (p_symKey path)"
    "getValue (paths s') tree = Some path" "getValue (openConnections s') tree = Some tc"
    "\<exists>ctx. SendCoverMessageWorker ctx tc path \<in> set (tasks s')"
proof -
  obtain secret info s1 where ex: "open_exchange E s = Ret (secret, info, s1)"
    using assms(1) by (auto simp: ConnectPath_def elim!: obind_RetE)
  then have off: "offered_with info secret"
    by (auto simp: open_exchange_def Let_def elim!: obind_RetE dest: NewKeyExchange_offered)
  obtain r s2 where send: "sendConnectPathRequest E ip tree info s1 = Ret (r, s2)"
    using assms(1) ex by (auto simp: ConnectPath_def elim!: obind_RetE)
  obtain tc where r: "r = Inr (resp, tc)"
    using assms(1) ex send by (cases r) (auto simp: ConnectPath_def split: if_splits option.splits elim!: obind_RetE)
  obtain half where half: "getValue (halfOpenPath s2) tree = Some half"
    using assms ex send r by (auto simp: ConnectPath_def split: option.splits)
  obtain k where k: "GetSymKey (cresp_ParentKeyExchange resp) secret = Ret k"
    using assms ex send r half by (auto simp: ConnectPath_def elim!: obind_RetE)
  let ?path = "half\<lparr>p_symKey := k, p_successCount := 0, p_failureCount := 0, p_cancelFunc := Some (clock s2)\<rparr>"
  have s': "s' = install_path (half\<lparr>p_symKey := k, p_successCount := 0, p_failureCount := 0\<rparr>) tc tree
      (s2\<lparr>halfOpenPath := deleteValue (halfOpenPath s2) tree\<rparr>)"
    using assms ex send r half k by (simp add: ConnectPath_def)
  show ?thesis
    using off conjunct1 [OF open_exchange_same [OF ex]] send [unfolded r]
    by (rule that [of info secret s1 tc s2 ?path])
      (auto simp: s' k install_path_def Let_def spawn_def tick_def)
qed

text \<open>The other side: an accepting answer carries the half of the key that the cover entry holds.\<close>

lemma handleMessage_connect:
  assumes "gob_correct (e_gob E)"
    and "enc_ConnectPathReq (e_gob E) req = Inr m"
  shows "handleMessage E c \<lparr>pm_Type = ConnectPathRequest, pm_Content = m\<rparr> p = handleConnectPathReq E (Some c) req p"
  using gob_decode(5) [OF assms] by (simp add: handleMessage_def message_types)

lemma connect_accepted_cover:
  assumes "handleConnectPathReq E (Some c) req p = Ret (None, p')"
    and "map snd (drop (length (responses p)) (responses p')) = [RespConnectPath r]" and "cresp_Accepted r"
  obtains ip port b cover pid fwd ctx where "SplitHostPort (in_remote c) = Inr (ip, port)"
    "GenerateReturn (creq_CoverKeyExchange req) b = Ret (cresp_ParentKeyExchange r)"
    "GetSymKey (creq_CoverKeyExchange req) b = Ret (c_secretKey cover)"
    "DecryptUUID (e_lib E) (creq_EncryptedTreeUUID req) (privateKey p) = Inr pid"
    "getValue (covers p') ip = Some cover" "getValue (paths p) pid = Some fwd" "c_treeUUID cover = pid" "c_cover cover = ip"
    "HandleApplicationMessageWorker ctx (in_conn c) cover fwd \<in> set (tasks p')"
proof -
  obtain ip port where ip: "SplitHostPort (in_remote c) = Inr (ip, port)"
    using assms(1) by (auto simp: handleConnectPathReq_def split: sum.splits)
  obtain pid where pid: "DecryptUUID (e_lib E) (creq_EncryptedTreeUUID req) (privateKey p) = Inr pid"
    using assms(1) ip by (auto simp: handleConnectPathReq_def split: sum.splits)
  show ?thesis
  proof (cases "admissible E ip pid p")
    case False
    then have "r = reject_connect"
      using assms(1,2) unfolding handleConnectPathReq_refused [OF ip pid False]
      by (auto simp: write_response_def close_conn_def tick_def split: option.splits prod.splits)
    with assms(3) show ?thesis
      by (simp add: reject_connect_def)
  next
    case True
    note run = assms(1) [unfolded handleConnectPathReq_admitted [OF ip pid True]]
    obtain info k where ans: "answer_exchange E (creq_CoverKeyExchange req) p = Ret (info, k, tick p)"
      using run by (auto simp: accept_connect_def answer_exchange_Ret elim!: obind_RetE)
    obtain fwd where fwd: "getValue (paths p) pid = Some fwd"
      using True by (auto simp: admissible_def)
    let ?cover = "\<lparr>c_cover = ip, c_secretKey = k, c_treeUUID = pid, c_cancelFunc = Some (Suc (clock p))\<rparr>"
    have p': "getValue (covers p') ip = Some ?cover"
      "responses p' = responses p @ [(in_conn c, RespConnectPath \<lparr>cresp_Accepted = True, cresp_ParentKeyExchange = info\<rparr>)]"
      "HandleApplicationMessageWorker (Suc (clock p)) (in_conn c) ?cover fwd \<in> set (tasks p')"
      using run ans fwd
      by (auto simp: accept_connect_def add_cover_def Let_def write_response_def spawn_def tick_def split: option.splits)
    then have "cresp_ParentKeyExchange r = info"
      using assms(2) by auto
    with ip pid p' fwd ans [unfolded answer_exchange_Ret] show ?thesis
      by (intro that [of ip port _ ?cover pid fwd]) auto
  qed
qed

text \<open>
  Property C38: the type of a message decides how its content is read.  A request that its sender encoded reaches the
  handler of its type unchanged; a message of any other type (the response types and the delete request are among
  them), or one whose content does not decode as its type says, is an error and leaves the node as it was.
\<close>

theorem dispatch_by_type:
  assumes "gob_correct (e_gob E)"
  shows "(enc_QueryPathReq (e_gob E) q = Inr m \<longrightarrow>
       handleMessage E c \<lparr>pm_Type = QueryPathRequest, pm_Content = m\<rparr> s = Ret (handleQueryPathReq E c q s)) \<and>
    (enc_VerifyCoverReq (e_gob E) v = Inr m \<longrightarrow>
       handleMessage E c \<lparr>pm_Type = VerifyCoverRequest, pm_Content = m\<rparr> s = Ret (handleVerifyCoverReq E c v s)) \<and>
    (enc_ConnectPathReq (e_gob E) n = Inr m \<longrightarrow>
       handleMessage E c \<lparr>pm_Type = ConnectPathRequest, pm_Content = m\<rparr> s = handleConnectPathReq E (Some c) n s) \<and>
    (enc_CreateProxyReq (e_gob E) x = Inr m \<longrightarrow>
       handleMessage E c \<lparr>pm_Type = CreateProxyRequest, pm_Content = m\<rparr> s = handleCreateProxyReq E (Some c) x s) \<and>
    (pm_Type msg \<in> {QueryPathResponse, VerifyCoverResponse, ConnectPathResponse, CreateProxyResponse, DeleteCoverRequest} \<or>
       pm_Type msg \<notin> {QueryPathRequest, VerifyCoverRequest, ConnectPathRequest, CreateProxyRequest} \<or>
       (pm_Type msg = QueryPathRequest \<and> (\<exists>e. dec_QueryPathReq (e_gob E) (pm_Content msg) = Inl e)) \<or>
       (pm_Type msg = VerifyCoverRequest \<and> (\<exists>e. dec_VerifyCoverReq (e_gob E) (pm_Content msg) = Inl e)) \<or>
       (pm_Type msg = ConnectPathRequest \<and> (\<exists>e. dec_ConnectPathReq (e_gob E) (pm_Content msg) = Inl e)) \<or>
       (pm_Type msg = CreateProxyRequest \<and> (\<exists>e. dec_CreateProxyReq (e_gob E) (pm_Content msg) = Inl e)) \<longrightarrow>
       handleMessage E c msg s = Ret (Some (ErrNew ''invalid incoming ProtocolMessage''), s))"
proof (intro conjI impI)
  show "handleMessage E c \<lparr>pm_Type = QueryPathRequest, pm_Content = m\<rparr> s = Ret (handleQueryPathReq E c q s)"
    if "enc_QueryPathReq (e_gob E) q = Inr m"
    using gob_decode(1) [OF assms that] by (simp add: handleMessage_def message_types)
  show "handleMessage E c \<lparr>pm_Type = VerifyCoverRequest, pm_Content = m\<rparr> s = Ret (handleVerifyCoverReq E c v s)"
    if "enc_VerifyCoverReq (e_gob E) v = Inr m"
    using gob_decode(3) [OF assms that] by (simp add: handleMessage_def message_types)
  show "handleMessage E c \<lparr>pm_Type = ConnectPathRequest, pm_Content = m\<rparr> s = handleConnectPathReq E (Some c) n s"
    if "enc_ConnectPathReq (e_gob E) n = Inr m"
    by (rule handleMessage_connect [OF assms that])
  show "handleMessage E c \<lparr>pm_Type = CreateProxyRequest, pm_Content = m\<rparr> s = handleCreateProxyReq E (Some c) x s"
    if "enc_CreateProxyReq (e_gob E) x = Inr m"
    using gob_decode(7) [OF assms that] by (simp add: handleMessage_def message_types)
qed (auto simp: handleMessage_def message_types)

theorem dispatch_by_type_witness:
  "handleMessage sample_env caller \<lparr>pm_Type = DeleteCoverRequest, pm_Content = []\<rparr> proxy_node =
     Ret (Some (ErrNew ''invalid incoming ProtocolMessage''), proxy_node)"
  using dispatch_by_type [where E = sample_env and c = caller and s = proxy_node and
      msg = "\<lparr>pm_Type = DeleteCoverRequest, pm_Content = []\<rparr>"]
  by (simp add: field_gob_correct)

text \<open>The link of the two, with what the requester sealed as the identifier of the tree.\<close>

lemma link_sealed:
  assumes "gob_correct (e_gob E)" and "e_gob E' = e_gob E"
    and "\<forall>t m. e_arrival E t ip \<lparr>pm_Type = ConnectPathRequest, pm_Content = m\<rparr> =
           answer_of E' c p \<lparr>pm_Type = ConnectPathRequest, pm_Content = m\<rparr>"
    and "ConnectPath E ip tree s = Ret ((Some resp, None), s')" and "cresp_Accepted resp"
  obtains m p' path tc ctx cover port fwd s1 u enc where
    "handleMessage E' c \<lparr>pm_Type = ConnectPathRequest, pm_Content = m\<rparr> p = Ret (None, p')"
    "SplitHostPort (in_remote c) = Inr (c_cover cover, port)"
    "getValue (paths s') tree = Some path" "getValue (covers p') (c_cover cover) = Some cover"
    "p_symKey path = c_secretKey cover"
    "SendCoverMessageWorker ctx tc path \<in> set (tasks s')" "getValue (openConnections s') tree = Some tc"
    "getValue (paths p) (c_treeUUID cover) = Some fwd"
    "\<exists>ctx. HandleApplicationMessageWorker ctx (in_conn c) cover fwd \<in> set (tasks p')"
    "same_node s s1" "learn_peer E ip tree s1 = Ret (None, u)"
    "EncryptUUID (e_lib E) (clock u) tree (case getValue (peerPublicKeys u) ip of None \<Rightarrow> [] | Some k \<Rightarrow> k) = Inr enc"
    "DecryptUUID (e_lib E') enc (privateKey p) = Inr (c_treeUUID cover)"
proof -
  obtain secret info tc path s1 s2 where req: "offered_with info secret"
    "sendConnectPathRequest E ip tree info s1 = Ret (Inr (resp, tc), s2)"
    "GetSymKey (cresp_ParentKeyExchange resp) secret = Ret (p_symKey path)" "same_node s s1"
    and path: "getValue (paths s') tree = Some path" "getValue (openConnections s') tree = Some tc"
    "\<exists>ctx. SendCoverMessageWorker ctx tc path \<in> set (tasks s')"
    by (rule ConnectPath_accepted [OF assms(4,5)])
  obtain u t enc m bs where msg:
    "enc_ConnectPathReq (e_gob E') \<lparr>creq_EncryptedTreeUUID = enc, creq_CoverKeyExchange = info\<rparr> = Inr m"
    "e_arrival E t ip \<lparr>pm_Type = ConnectPathRequest, pm_Content = m\<rparr> = Arrived bs"
    "dec_ConnectPathResp (e_gob E') bs = Inr resp"
    and sealed: "learn_peer E ip tree s1 = Ret (None, u)"
    "EncryptUUID (e_lib E) (clock u) tree (case getValue (peerPublicKeys u) ip of None \<Rightarrow> [] | Some k \<Rightarrow> k) = Inr enc"
    using sendConnect_arrived [OF req(2)] assms(2) by metis
  have G: "gob_correct (e_gob E')"
    using assms(1,2) by simp
  have req_m: "dec_ConnectPathReq (e_gob E') m = Inr \<lparr>creq_EncryptedTreeUUID = enc, creq_CoverKeyExchange = info\<rparr>"
    by (rule gob_decode(5) [OF G msg(1)])
  have "answer_of E' c p \<lparr>pm_Type = ConnectPathRequest, pm_Content = m\<rparr> = Arrived bs"
    using msg(2) assms(3) by simp
  then obtain p' r where run: "handleConnectPathReq E' (Some c) \<lparr>creq_EncryptedTreeUUID = enc, creq_CoverKeyExchange = info\<rparr> p =
      Ret (None, p')" "responses p' = responses p @ [(in_conn c, RespConnectPath r)]" "enc_ConnectPathResp (e_gob E') r = Inr bs"
    using req_m by (elim answered_connect) simp
  have ans: "handleMessage E' c \<lparr>pm_Type = ConnectPathRequest, pm_Content = m\<rparr> p = Ret (None, p')"
    "map snd (drop (length (responses p)) (responses p')) = [RespConnectPath r]"
    "enc_ConnectPathResp (e_gob E') r = Inr bs"
    using run handleMessage_connect [OF G msg(1)] by simp_all
  have r: "r = resp"
    using gob_decode(6) [OF G ans(3)] msg(3) by simp
  note hdl = ans(1) [unfolded handleMessage_connect [OF G msg(1)]]
  show ?thesis
  proof (rule connect_accepted_cover [OF hdl ans(2)])
    show "cresp_Accepted r"
      using r assms(5) by simp
  next
    fix ip' port b cover pid fwd ctx
    assume side: "SplitHostPort (in_remote c) = Inr (ip', port)"
      "GenerateReturn (creq_CoverKeyExchange \<lparr>creq_EncryptedTreeUUID = enc, creq_CoverKeyExchange = info\<rparr>) b =
         Ret (cresp_ParentKeyExchange r)"
      "GetSymKey (creq_CoverKeyExchange \<lparr>creq_EncryptedTreeUUID = enc, creq_CoverKeyExchange = info\<rparr>) b =
         Ret (c_secretKey cover)"
      "DecryptUUID (e_lib E')
         (creq_EncryptedTreeUUID \<lparr>creq_EncryptedTreeUUID = enc, creq_CoverKeyExchange = info\<rparr>) (privateKey p) = Inr pid"
      "getValue (covers p') ip' = Some cover" "getValue (paths p) pid = Some fwd" "c_treeUUID cover = pid"
      "c_cover cover = ip'" "HandleApplicationMessageWorker ctx (in_conn c) cover fwd \<in> set (tasks p')"
    have "p_symKey path = c_secretKey cover"
      using dh.derive_agrees [OF req(1), of b "cresp_ParentKeyExchange r"] side(2,3) req(3) r by simp
    then show ?thesis
      using ans(1) side path req(4) sealed by (auto intro: that)
  qed
qed

lemma link_established:
  assumes "gob_correct (e_gob E)" and "e_gob E' = e_gob E"
    and "\<forall>t m. e_arrival E t ip \<lparr>pm_Type = ConnectPathRequest, pm_Content = m\<rparr> =
           answer_of E' c p \<lparr>pm_Type = ConnectPathRequest, pm_Content = m\<rparr>"
    and "ConnectPath E ip tree s = Ret ((Some resp, None), s')" and "cresp_Accepted resp"
  shows "\<exists>m p' path cover ip' port fwd.
     handleMessage E' c \<lparr>pm_Type = ConnectPathRequest, pm_Content = m\<rparr> p = Ret (None, p') \<and>
     SplitHostPort (in_remote c) = Inr (ip', port) \<and>
     getValue (paths s') tree = Some path \<and> getValue (covers p') ip' = Some cover \<and>
     p_symKey path = c_secretKey cover \<and>
     (\<exists>ctx tc. SendCoverMessageWorker ctx tc path \<in> set (tasks s')) \<and>
     getValue (paths p) (c_treeUUID cover) = Some fwd \<and>
     (\<exists>ctx. HandleApplicationMessageWorker ctx (in_conn c) cover fwd \<in> set (tasks p'))"
  by (rule link_sealed [OF assms]) blast

text \<open>
  When \<open>ConnectPath\<close> succeeds against a node that answers with its own handler, the path the requester
  installs and the cover entry the other node holds for it have the same symmetric key; the requester's cover
  worker runs with that path, and the other node's receiving worker with that cover entry and a stored path.
\<close>

theorem link_keys_agree:
  assumes "gob_correct (e_gob E)" and "e_gob E' = e_gob E"
    and "\<forall>t m. e_arrival E t ip \<lparr>pm_Type = ConnectPathRequest, pm_Content = m\<rparr> =
           answer_of E' c p \<lparr>pm_Type = ConnectPathRequest, pm_Content = m\<rparr>"
    and "ConnectPath E ip tree s = Ret ((Some resp, None), s')" and "cresp_Accepted resp"
  shows "\<exists>m p' path cover ip' port fwd.
     handleMessage E' c \<lparr>pm_Type = ConnectPathRequest, pm_Content = m\<rparr> p = Ret (None, p') \<and>
     SplitHostPort (in_remote c) = Inr (ip', port) \<and>
     getValue (paths s') tree = Some path \<and> getValue (covers p') ip' = Some cover \<and>
     p_symKey path = c_secretKey cover \<and>
     (\<exists>ctx tc. SendCoverMessageWorker ctx tc path \<in> set (tasks s')) \<and>
     getValue (paths p) (c_treeUUID cover) = Some fwd \<and>
     (\<exists>ctx. HandleApplicationMessageWorker ctx (in_conn c) cover fwd \<in> set (tasks p'))"
  using assms by (rule link_established)

definition child :: state where
  "child = node0\<lparr>clock := 9, peerPublicKeys := [(''10.0.0.7'', [7])],
     halfOpenPath := [(5, \<lparr>p_uuid = 5, p_next = ''10.0.0.7'', p_next2 = IS, p_proxyPublic = [7], p_symKey = 0,
       p_successCount = 0, p_failureCount = 0, p_cancelFunc = None\<rparr>)]\<rparr>"

definition child_env :: env where
  "child_env = sample_env\<lparr>e_arrival := \<lambda>t ip m. answer_of sample_env caller proxy_node m\<rparr>"

lemma sample_connection:
  assumes "e_lib E = sample_lib" and "e_gob E = field_gob" and "\<And>t l a. e_dial E t l a = None"
    and "\<And>t c. e_write E t c = None"
    and "\<And>t m. e_arrival E t ip \<lparr>pm_Type = ConnectPathRequest, pm_Content = m\<rparr> =
           answer_of sample_env caller d \<lparr>pm_Type = ConnectPathRequest, pm_Content = m\<rparr>"
    and "getValue (paths d) 5 = Some q" and "covers d = []" and "privateKey d = [7]"
    and "clock s = 9" and "getValue (peerPublicKeys s) ip = Some [7]" and "getValue (halfOpenPath s) 5 = Some half"
  shows "\<exists>resp s' p. ConnectPath E ip 5 s = Ret ((Some resp, None), s') \<and> cresp_Accepted resp \<and>
     paths s' = setValue (paths s) 5 p \<and> p_symKey p = 2 ^ 255 \<and> usable (getValue (openConnections s') 5) \<noteq> None"
proof -
  let ?resp = "\<lparr>cresp_Accepted = True, cresp_ParentKeyExchange = half_exchange\<rparr>"
  obtain m where m: "enc_ConnectPathReq field_gob sample_connect = Inr m"
    by (simp add: field_gob_def as_fields_def)
  obtain bs where bs: "enc_ConnectPathResp field_gob ?resp = Inr bs"
    by (simp add: field_gob_def as_fields_def)
  have "handleMessage sample_env caller \<lparr>pm_Type = ConnectPathRequest, pm_Content = m\<rparr> d =
      handleConnectPathReq sample_env (Some caller) sample_connect d"
    using handleMessage_connect [of sample_env sample_connect m caller d] m
    by (simp add: field_gob_correct)
  then have "answer_of sample_env caller d \<lparr>pm_Type = ConnectPathRequest, pm_Content = m\<rparr> = Arrived bs"
    using bs assms(6-8)
    by (simp add: answer_of_def handleConnectPathReq_def getValue_def getSize_def tooManyCovers_def accept_connect_def
        answer_exchange_def Let_def add_cover_def write_response_def tick_def spawn_def encoded_def)
  moreover have "open_exchange E s = Ret (1, half_exchange, s\<lparr>clock := 12\<rparr>)"
    using assms(1,9) by (simp add: open_exchange_def NewKeyExchange_eq half_exchange_def)
      (simp add: sample_lib_def big_Exp_def)
  moreover have "\<lparr>creq_EncryptedTreeUUID = frame [7] @ uuid_bytes 5, creq_CoverKeyExchange = half_exchange\<rparr> =
      sample_connect"
    by (simp add: sample_connect_def)
  moreover have "GetSymKey half_exchange 1 = Ret (2 ^ 255)"
    by (simp add: half_exchange_def GetSymKey_def big_Exp_def)
  ultimately show ?thesis
    using m gob_decode(6) [OF field_gob_correct bs] assms
    by (simp add: ConnectPath_def sendConnectPathRequest_def learn_peer_def post_connect_request_def
        tcpSendAndWaitResponse_def waitForResponse_def Let_def tick_def install_path_def spawn_def usable_def)
      (intro exI conjI, rule refl, simp)
qed

lemma sample_connects:
  assumes "e_lib E = sample_lib" and "e_gob E = field_gob" and "\<And>t l a. e_dial E t l a = None"
    and "\<And>t c. e_write E t c = None"
    and "\<And>t m. e_arrival E t ip \<lparr>pm_Type = ConnectPathRequest, pm_Content = m\<rparr> =
           answer_of sample_env caller d \<lparr>pm_Type = ConnectPathRequest, pm_Content = m\<rparr>"
    and "getValue (paths d) 5 = Some q" and "covers d = []" and "privateKey d = [7]"
    and "clock s = 9" and "getValue (peerPublicKeys s) ip = Some [7]" and "getValue (halfOpenPath s) 5 = Some half"
  shows "\<exists>resp s'. ConnectPath E ip 5 s = Ret ((Some resp, None), s') \<and> cresp_Accepted resp"
  using sample_connection [OF assms] by blast

lemma child_connects_with:
  "\<exists>resp s'. ConnectPath child_env ''10.0.0.7'' 5 (child\<lparr>halfOpenPath := [(5, half)]\<rparr>) = Ret ((Some resp, None), s') \<and>
     cresp_Accepted resp"
  by (rule sample_connects [where d = proxy_node]) (simp_all add: child_env_def child_def getValue_def)

lemma child_connects:
  "\<exists>resp s'. ConnectPath child_env ''10.0.0.7'' 5 child = Ret ((Some resp, None), s') \<and> cresp_Accepted resp"
  using child_connects_with [of "snd (hd (halfOpenPath child))"] by (simp add: child_def)

theorem link_keys_agree_witness:
  "\<exists>resp s' path. ConnectPath child_env ''10.0.0.7'' 5 child = Ret ((Some resp, None), s') \<and>
     getValue (paths s') 5 = Some path \<and>
     (\<exists>m p' cover. handleMessage sample_env caller \<lparr>pm_Type = ConnectPathRequest, pm_Content = m\<rparr> proxy_node =
        Ret (None, p') \<and> getValue (covers p') ''10.0.0.2'' = Some cover \<and> p_symKey path = c_secretKey cover)"
proof -
  obtain resp s' where run: "ConnectPath child_env ''10.0.0.7'' 5 child = Ret ((Some resp, None), s')"
    "cresp_Accepted resp"
    using child_connects by blast
  have "gob_correct (e_gob child_env)" "e_gob sample_env = e_gob child_env"
    by (simp_all add: child_env_def field_gob_correct)
  from link_keys_agree [OF this _ run, of caller proxy_node] run show ?thesis
    by (auto simp: child_env_def)
qed

end
