(* ===== verification/Forming.thy ===== *)
theory Forming
  imports Link
begin

text \<open>
  Forming paths: when \<open>QueryPath\<close> panics and what it offers, what \<open>ConnectPath\<close> installs, what the
  reports of the health check say, and what the loop that looks for more paths achieves.
\<close>

section \<open>Querying a peer\<close>

text \<open>
  \<open>QueryPath\<close> panics exactly when its request fails (the peer cannot be dialled, does not answer in time,
  or answers with something that does not decode): the response is nil then, and the last log statement reads
  its paths.
\<close>

theorem QueryPath_panics_iff:
  "panics (QueryPath E ip s) \<longleftrightarrow> (\<exists>err. fst (sendQueryPathRequest E ip s) = Inl err)"
  by (auto simp: QueryPath_def Let_def split: sum.splits prod.splits)

text \<open>One path of a response: offered and remembered only if the second hop is storage or vouched for the peer.\<close>

definition vouched :: "env \<Rightarrow> string \<Rightarrow> PathProfile \<Rightarrow> bool" where
  "vouched E ip p \<longleftrightarrow> p_next p = ip \<and>
     (p_next2 p = IS \<or> (\<exists>u resp. fst (sendVerifyCoverRequest E (p_next2 p) ip u) = Inr resp \<and> vresp_IsVerified resp))"

definition offers_ok :: "env \<Rightarrow> string \<Rightarrow> state \<Rightarrow> PathProfile list \<times> state \<Rightarrow> bool" where
  "offers_ok E ip s acc \<longleftrightarrow> privateKey (snd acc) = privateKey s \<and> paths (snd acc) = paths s \<and>
     (\<forall>p \<in> set (fst acc). vouched E ip p \<and>
        (\<exists>c. DecryptUUID (e_lib E) c (privateKey s) = Inr (p_uuid p)) \<and>
        (\<forall>q. getValue (paths s) (p_uuid p) = Some q \<longrightarrow> p_next2 q = ip))"

lemma verify_half_open_vouched:
  assumes "verify_half_open E half s = (True, s')"
  shows "vouched E (p_next half) half"
proof (cases "p_next2 half = IS")
  case True
  then show ?thesis by (simp add: vouched_def)
next
  case False
  then obtain resp where "fst (sendVerifyCoverRequest E (p_next2 half) (p_next half) s) = Inr resp"
    "vresp_IsVerified resp"
    using assms by (auto simp: verify_half_open_def Let_def split: prod.splits sum.splits)
  then show ?thesis
    by (auto simp: vouched_def)
qed

lemma QueryPath_step_offers:
  assumes "offers_ok E ip s acc"
  shows "offers_ok E ip s (QueryPath_step E ip path acc)"
proof -
  obtain v u where acc: "acc = (v, u)"
    by (cases acc)
  have same: "privateKey u = privateKey s" "paths u = paths s"
    using assms acc by (simp_all add: offers_ok_def)
  show ?thesis
  proof (cases "DecryptUUID (e_lib E) (path_EncryptedTreeUUID path) (privateKey u)")
    case (Inl err)
    with assms acc show ?thesis by (simp add: QueryPath_step_def)
  next
    case (Inr pathID)
    let ?half = "\<lparr>p_uuid = pathID, p_next = ip, p_next2 = path_NextHopIP path,
      p_proxyPublic = path_ProxyPublicKey path, p_symKey = 0, p_successCount = 0, p_failureCount = 0, p_cancelFunc = None\<rparr>"
    obtain b u' where ver: "verify_half_open E ?half u = (b, u')"
      by fastforce
    have u': "privateKey u' = privateKey s" "paths u' = paths s"
      using verify_half_open_same [OF ver] same same_node_fields(1,8) [of u u'] by simp_all
    have "vouched E ip ?half" if b
      using verify_half_open_vouched [of E ?half u u'] ver that by simp
    then show ?thesis
      using assms acc Inr ver u' same
      by (auto simp: QueryPath_step_def Let_def offers_ok_def split: option.splits)
  qed
qed

lemma QueryPath_fold_offers:
  "offers_ok E ip s acc \<Longrightarrow> offers_ok E ip s (fold (QueryPath_step E ip) ps acc)"
  by (induction ps arbitrary: acc) (simp_all add: QueryPath_step_offers)

text \<open>
  Property C13: every path \<open>QueryPath\<close> offers leads through the queried peer, has an identifier that was encrypted to
  this node, ends in storage behind the peer or has a second hop that confirmed the peer as its cover, is none of
  the paths the node already has (unless the peer is the second hop of that path), and is remembered as half open.
\<close>

theorem QueryPath_offers_verified:
  assumes "QueryPath E ip s = Ret (Inr resp, offers, s')" and "half_ok (halfOpenPath s)"
    and "wf_map (peerPublicKeys s)"
  shows "(\<forall>p \<in> set offers. vouched E ip p \<and>
      (\<exists>c. DecryptUUID (e_lib E) c (privateKey s) = Inr (p_uuid p)) \<and>
      (\<forall>q. getValue (paths s) (p_uuid p) = Some q \<longrightarrow> p_next2 q = ip) \<and>
      (\<exists>h. getValue (halfOpenPath s') (p_uuid p) = Some h \<and> p_next h = ip)) \<and>
    paths s' = paths s \<and> covers s' = covers s"
proof -
  obtain r s1 where send: "sendQueryPathRequest E ip s = (r, s1)"
    by fastforce
  then have s1: "same_node s s1"
    using send_same(1) [of s E ip] by simp
  let ?s2 = "s1\<lparr>peerPublicKeys := setValue (peerPublicKeys s1) ip (qresp_ParentPublicKey resp)\<rparr>"
  have run: "fold (QueryPath_step E ip) (qresp_Paths resp) ([], ?s2) = (offers, s')"
    using assms(1) send by (auto simp: QueryPath_def Let_def split: sum.splits prod.splits)
  have "offers_ok E ip s ([], ?s2)"
    using s1 by (simp add: offers_ok_def same_node_fields)
  then have "offers_ok E ip s (offers, s')"
    using QueryPath_fold_offers run by metis
  moreover have "caches_ok s"
    using assms(2,3) by (simp add: caches_ok_def)
  ultimately show ?thesis
    using QueryPath_ok [OF assms(1)] by (auto simp: offers_ok_def offered_ok_def same_but_caches_def)
qed

text \<open>A peer that answers a query with one path to storage, whose identifier is encrypted to this node.\<close>

definition offer_env :: env where
  "offer_env = sample_env\<lparr>e_arrival := \<lambda>t ip m.
     (case enc_QueryPathResp field_gob \<lparr>qresp_ParentPublicKey = [8], qresp_Paths =
        [\<lparr>path_EncryptedTreeUUID = frame [7] @ uuid_bytes 5, path_NextHopIP = IS, path_NextNextHopIP = [],
          path_ProxyPublicKey = [8]\<rparr>]\<rparr> of Inl err \<Rightarrow> ReadFailed err | Inr bs \<Rightarrow> Arrived bs)\<rparr>"

definition offered_half :: PathProfile where
  "offered_half = \<lparr>p_uuid = 5, p_next = ''10.0.0.8'', p_next2 = IS, p_proxyPublic = [8], p_symKey = 0,
     p_successCount = 0, p_failureCount = 0, p_cancelFunc = None\<rparr>"

lemma offer_query:
  "\<exists>resp s'. QueryPath offer_env ''10.0.0.8'' node0 = Ret (Inr resp, [offered_half], s')"
proof -
  let ?resp = "\<lparr>qresp_ParentPublicKey = [8], qresp_Paths =
        [\<lparr>path_EncryptedTreeUUID = frame [7] @ uuid_bytes 5, path_NextHopIP = IS, path_NextNextHopIP = [],
          path_ProxyPublicKey = [8]\<rparr>]\<rparr>"
  obtain bs where bs: "enc_QueryPathResp field_gob ?resp = Inr bs"
    by (simp add: field_gob_def as_fields_def)
  have arr: "e_arrival offer_env t ip m = Arrived bs" for t ip m
    using bs by (simp add: offer_env_def)
  obtain qs where qs: "enc_QueryPathReq field_gob \<lparr>qreq_CoverPublicKey = [7]\<rparr> = Inr qs"
    by (simp add: field_gob_def as_fields_def)
  have E: "e_lib offer_env = sample_lib" "e_gob offer_env = field_gob" "e_dial offer_env t l a = None"
    "e_write offer_env t c = None" for t l a c
    by (simp_all add: offer_env_def)
  have tree: "DecryptUUID sample_lib (frame [7] @ uuid_bytes 5) [7] = Inr 5"
    using sample_tree by (simp add: sample_connect_def)
  show ?thesis
    using gob_decode(2) [OF field_gob_correct bs] tree qs
    by (simp add: QueryPath_def sendQueryPathRequest_def tcpSendAndWaitResponse_def waitForResponse_def Let_def arr E
        QueryPath_step_def getValue_def verify_half_open_def tick_def close_conn_def offered_half_def)
qed

theorem QueryPath_offers_verified_witness:
  "\<exists>resp s'. QueryPath offer_env ''10.0.0.8'' node0 = Ret (Inr resp, [offered_half], s') \<and>
     vouched offer_env ''10.0.0.8'' offered_half \<and> getValue (halfOpenPath s') 5 \<noteq> None"
proof -
  obtain resp s' where run: "QueryPath offer_env ''10.0.0.8'' node0 = Ret (Inr resp, [offered_half], s')"
    using offer_query by blast
  have "half_ok (halfOpenPath node0)" "wf_map (peerPublicKeys node0)"
    by (simp_all add: half_ok_def wf_map_def getValue_def)
  from QueryPath_offers_verified [OF run this] run show ?thesis
    by (auto simp: offered_half_def)
qed

section \<open>Connecting\<close>

text \<open>
  Property C14: \<open>ConnectPath\<close> either changes nothing but the caches, or installs exactly one path: under the requested
  identifier, with a fresh context, with the connection to the asked peer as its open connection and a
  cover worker on that connection.  It installs a path exactly when it returns no error and an accepting
  response.
\<close>

theorem ConnectPath_installs:
  assumes "caches_ok s" and "ConnectPath E ip treeID s = Ret ((resp, err), s')"
  shows "if err = None \<and> (\<exists>r. resp = Some r \<and> cresp_Accepted r)
     then \<exists>path ctx tc. p_uuid path = treeID \<and> p_cancelFunc path = Some ctx \<and> tc_IP tc = ip \<and>
        usable (Some tc) \<noteq> None \<and> paths s' = setValue (paths s) treeID path \<and>
        openConnections s' = setValue (openConnections s) treeID tc \<and>
        tasks s' = tasks s @ [SendCoverMessageWorker ctx tc path]
     else same_but_caches s s'"
  using assms(2,1)
proof (cases rule: ConnectPath_cases)
  case unchanged
  then show ?thesis
    by auto
next
  case (installed t profile tc m)
  let ?path = "profile\<lparr>p_cancelFunc := Some (clock t)\<rparr>"
  have "paths s' = setValue (paths s) treeID ?path"
    "openConnections s' = setValue (openConnections s) treeID tc"
    "tasks s' = tasks s @ [SendCoverMessageWorker (clock t) tc ?path]"
    using installed by (simp_all add: install_path_def Let_def spawn_def tick_def same_but_caches_def same_runtime_def)
  then show ?thesis
    using installed by (auto intro!: exI [of _ ?path] exI [of _ "clock t"] exI [of _ tc])
qed

theorem ConnectPath_installs_witness:
  "\<exists>resp s' path. ConnectPath child_env ''10.0.0.7'' 5 child = Ret ((Some resp, None), s') \<and>
     paths s' = setValue [] 5 path \<and> p_uuid path = 5 \<and> p_cancelFunc path \<noteq> None"
proof -
  obtain resp s' where run: "ConnectPath child_env ''10.0.0.7'' 5 child = Ret ((Some resp, None), s')"
    "cresp_Accepted resp"
    using child_connects by blast
  have "caches_ok child"
    by (simp add: caches_ok_def child_def half_ok_def wf_map_def getValue_def)
  from ConnectPath_installs [OF this run(1)] run show ?thesis
    by (auto simp: child_def)
qed

section \<open>The reports of the health check\<close>

text \<open>
  What the health check says of a path given the next hop's answer \<open>r\<close>: clean it when the hop did not answer
  or lists no path whose identifier decrypts to it; repair it from the first such entry when that entry
  names another second hop or another proxy key; otherwise leave it.
\<close>

theorem judge_path_cases:
  "judge_path E priv k p r =
     (if \<forall>resp. r = Inr resp \<longrightarrow>
           (\<forall>q \<in> set (qresp_Paths resp). DecryptUUID (e_lib E) (path_EncryptedTreeUUID q) priv \<noteq> Inr k)
      then [clean_report p]
      else let q = hd (filter (\<lambda>q. DecryptUUID (e_lib E) (path_EncryptedTreeUUID q) priv = Inr k)
                         (qresp_Paths (projr r)))
           in if p_next2 p = path_NextHopIP q \<and> p_proxyPublic p = path_ProxyPublicKey q then []
              else [\<lparr>i_SelfProfile = p, i_NextHopProfile = q, i_HandleType = FIX\<rparr>])"
proof (cases r)
  case (Inl err)
  then show ?thesis by (simp add: judge_path_def)
next
  case (Inr resp)
  have find_hd: "find P xs = (if \<forall>x \<in> set xs. \<not> P x then None else Some (hd (filter P xs)))"
    for P and xs :: "Path list"
    by (induction xs) auto
  show ?thesis
    using Inr by (auto simp: judge_path_def find_hd Let_def)
qed

theorem judge_path_cases_witness:
  "judge_path sample_env [7] 5 offered_half (Inr \<lparr>qresp_ParentPublicKey = [], qresp_Paths = []\<rparr>) =
     [clean_report offered_half]"
  by (subst judge_path_cases) simp

section \<open>Looking for more paths\<close>

lemma getMorePaths_loop_fuel:
  "getMorePaths_loop E members rounds s = Ret s' \<Longrightarrow> \<not> needMorePaths E s' \<or>
   (\<exists>run. length run = Suc (Suc rounds) \<and> run ! 0 = s \<and> last run = s' \<and>
      (\<forall>i \<le> rounds. needMorePaths E (run ! i) \<and> attempt_path E members (run ! i) = Ret (run ! Suc i)))"
proof (induction rounds arbitrary: s)
  case 0
  show ?case
  proof (cases "needMorePaths E s")
    case True
    with 0 have "attempt_path E members s = Ret s'"
      by (simp add: getMorePaths_loop.simps [of E members 0 s])
    with True show ?thesis
      by (intro disjI2 exI [of _ "[s, s']"]) simp
  next
    case False
    with 0 show ?thesis
      by (simp add: getMorePaths_loop.simps [of E members 0 s])
  qed
next
  case (Suc n)
  show ?case
  proof (cases "needMorePaths E s")
    case False
    with Suc.prems show ?thesis
      by (simp add: getMorePaths_loop.simps [of E members "Suc n" s])
  next
    case True
    with Suc.prems obtain u where u: "attempt_path E members s = Ret u" "getMorePaths_loop E members n u = Ret s'"
      by (auto simp: getMorePaths_loop.simps [of E members "Suc n" s] elim!: obind_RetE)
    show ?thesis
    proof (cases "needMorePaths E s'")
      case False
      then show ?thesis by simp
    next
      case True': True
      then obtain run where "length run = Suc (Suc n)" "run ! 0 = u" "last run = s'"
        "\<forall>i \<le> n. needMorePaths E (run ! i) \<and> attempt_path E members (run ! i) = Ret (run ! Suc i)"
        using Suc.IH [OF u(2)] by blast
      with u(1) True show ?thesis
        by (intro disjI2 exI [of _ "s # run"]) (auto simp: nth_Cons' le_Suc_eq split: if_splits)
    qed
  qed
qed

definition one_more :: "state \<Rightarrow> state \<Rightarrow> bool" where
  "one_more s s' \<longleftrightarrow> paths s' = paths s \<or> (\<exists>k p. paths s' = setValue (paths s) k p)"

lemma one_moreI: "paths s' = paths s \<Longrightarrow> one_more s s'" "paths s' = setValue (paths s) k p \<Longrightarrow> one_more s s'"
  by (auto simp: one_more_def)

lemma install_path_paths:
  "paths (install_path profile tc k s) = setValue (paths s) k (profile\<lparr>p_cancelFunc := Some (clock s)\<rparr>)"
  by (simp add: install_path_def Let_def spawn_def tick_def)

lemma ConnectPath_one_more:
  assumes "ConnectPath E ip treeID s = Ret (r, s')" and "caches_ok s"
  shows "one_more s s'"
proof -
  obtain resp err where "ConnectPath E ip treeID s = Ret ((resp, err), s')"
    using assms(1) by (cases r) auto
  then show ?thesis
    by (rule ConnectPath_cases [OF _ assms(2)])
      (auto simp: one_more_def same_but_caches_def install_path_def Let_def spawn_def tick_def)
qed

lemma CreateProxy_one_more:
  assumes "CreateProxy E ip s = Ret (r, s')"
  shows "one_more s s'"
proof -
  obtain secret info s1 where ex: "open_exchange E s = Ret (secret, info, s1)"
    using assms unfolding CreateProxy_def by (auto elim!: obind_RetE)
  obtain q s2 where send: "sendCreateProxyRequest E ip info s1 = (q, s2)"
    by fastforce
  have "same_node s s2"
    using open_exchange_same [OF ex] send_same(3) [of s1 E ip info] send by (auto intro: same_node_trans)
  then have "paths s2 = paths s"
    by (rule same_node_fields)
  then have "paths s' = paths s \<or> (\<exists>profile tc k. s' = install_path profile tc k s2)"
    using assms ex send
    by (cases q) (fastforce simp: CreateProxy_def elim!: obind_RetE split: sum.splits if_splits)+
  then show ?thesis
    using \<open>paths s2 = paths s\<close> install_path_paths one_moreI by metis
qed

lemma attempt_path_one_more:
  assumes "attempt_path E members s = Ret s'" and "caches_ok s"
  shows "one_more s s'"
proof -
  obtain c where c: "rand_Intn (e_draw E (clock s)) (length members) = Ret c"
    using assms(1) by (auto simp: attempt_path_def elim!: obind_RetE)
  obtain r v s1 where q: "QueryPath E (members ! c) (tick s) = Ret (r, v, s1)"
    using assms(1) c by (auto simp: attempt_path_def Let_def elim!: obind_RetE)
  have "caches_ok (tick s)" "paths (tick s) = paths s"
    using assms(2) by (simp_all add: caches_ok_def tick_def)
  then have s1: "paths s1 = paths s" "caches_ok s1" "caches_ok (tick s1)" "paths (tick s1) = paths s"
    using QueryPath_ok [OF q] by (auto simp: same_but_caches_def caches_ok_def tick_def)
  from assms(1) c q consider
      (connect) ip k r' where "ConnectPath E ip k (tick s1) = Ret (r', s')"
    | (proxy) ip r' where "CreateProxy E ip s1 = Ret (r', s')"
    by (auto simp: attempt_path_def Let_def elim!: obind_RetE split: if_splits)
  then show ?thesis
  proof cases
    case connect
    from ConnectPath_one_more [OF this s1(3)] s1(4) show ?thesis
      by (simp add: one_more_def)
  next
    case proxy
    from CreateProxy_one_more [OF this] s1(1) show ?thesis
      by (simp add: one_more_def)
  qed
qed

lemma one_more_size: "one_more s s' \<Longrightarrow> wf_map (paths s) \<Longrightarrow> getSize (paths s') \<le> Suc (getSize (paths s))"
  by (auto simp: one_more_def mm.size_put)

lemma getMorePaths_loop_bound:
  "getMorePaths_loop E members rounds s = Ret s' \<Longrightarrow> node_inv E s \<Longrightarrow>
   int (getSize (paths s')) \<le> max (int (getSize (paths s))) (TARGET_NUMBER_OF_CONNECTED_PATHS (e_cfg E))"
proof (induction rounds arbitrary: s)
  case 0
  have "wf_map (paths s)" "caches_ok s"
    using 0(2) by (simp_all add: node_inv_def node_ok_def paths_ok_def caches_ok_def)
  with 0 show ?case
    using one_more_size attempt_path_one_more
    by (fastforce simp: getMorePaths_loop.simps [of E members 0 s] needMorePaths_def elim!: obind_RetE split: if_splits)
next
  case (Suc n)
  show ?case
  proof (cases "needMorePaths E s")
    case False
    with Suc.prems show ?thesis
      by (simp add: getMorePaths_loop.simps [of E members "Suc n" s])
  next
    case True
    with Suc.prems obtain u where u: "attempt_path E members s = Ret u" "getMorePaths_loop E members n u = Ret s'"
      by (auto simp: getMorePaths_loop.simps [of E members "Suc n" s] elim!: obind_RetE)
    have "wf_map (paths s)" "caches_ok s"
      using Suc.prems(2) by (simp_all add: node_inv_def node_ok_def paths_ok_def caches_ok_def)
    then have "getSize (paths u) \<le> Suc (getSize (paths s))"
      using one_more_size attempt_path_one_more [OF u(1)] by blast
    moreover have "node_inv E u"
      using attempt_path_inv [OF u(1) Suc.prems(2)] .
    ultimately show ?thesis
      using Suc.IH [OF u(2)] True by (simp add: needMorePaths_def)
  qed
qed

lemma maintainPathQuantity_bound:
  assumes "node_inv E s" and "maintainPathQuantity E rounds s = Ret s'"
  shows "int (getSize (paths s')) \<le> max (int (getSize (paths s))) (TARGET_NUMBER_OF_CONNECTED_PATHS (e_cfg E))"
proof -
  have "node_inv E (tick s)" "paths (tick s) = paths s"
    using assms(1) by (simp_all add: tick_inv) (simp add: tick_def)
  then show ?thesis
    using assms(2) getMorePaths_loop_bound [of E _ rounds "tick s" s']
    by (auto simp: maintainPathQuantity_def getMorePaths_def split: if_splits sum.splits)
qed



end
