(* ===== verification/Http.thy ===== *)
theory Http
  imports Base64 Publishing Forming
begin

text \<open>
  The HTTP interface: the handlers of \<open>p2p/handlers_http.go\<close> over the data schemas of \<open>p2p/msg_json.go\<close>.  A handler
  gets its path parameter or its bound request body (the result of \<open>BindJSON\<close>) and writes a status and a body;
  one that returns without writing leaves gin's default, an empty response with status 200.  JSON itself and the
  router are gin's.  \<open>uuid.Parse\<close> is an argument.
\<close>

section \<open>Schemas\<close>

record HTTPSchemaPathAnalytics =
  ha_SuccessCount :: int
  ha_FailureCount :: int

record HTTPSchemaPath =
  hp_Id :: uuid
  hp_Next :: string
  hp_Next2 :: string
  hp_ProxyPublicKey :: bytes
  hp_SymmetricKeyInByte :: bytes
  hp_Analytics :: HTTPSchemaPathAnalytics

record HTTPSchemaCoverNode =
  hc_CoverIP :: string
  hc_SymmetricKeyInByte :: bytes
  hc_ConnectedPathId :: uuid

record HTTPSchemaPublishJob =
  hj_Key :: string
  hj_Status :: string
  hj_ViaPath :: uuid

record HTTPPostMessageReq =
  pmr_Content :: bytes
  pmr_PathID :: uuid

record HTTPPostMessagesReq =
  pms_Keys :: "string list"

record HTTPPostPathReq =
  ppr_IP :: string
  ppr_PathID :: uuid

record HTTPSchemaKeyMessage =
  hkm_Key :: string
  hkm_Content :: bytes

record HTTPSchemaMessage =
  hm_Content :: bytes

record HTTPSchemaKeyPair =
  hkp_Pub :: bytes
  hkp_Pri :: bytes

record HTTPSchemaPublishJobID =
  hid_ID :: uuid

datatype config_item = DurationItem int | IntItem int | StringItem string | BoolItem bool

datatype body =
    Nothing
  | Failure string
  | Message HTTPSchemaMessage
  | Keys "string list"
  | KeyMessages "HTTPSchemaKeyMessage list"
  | PublishJobID HTTPSchemaPublishJobID
  | PathBody HTTPSchemaPath
  | PathsBody "HTTPSchemaPath list"
  | JobBody HTTPSchemaPublishJob
  | Members "string list"
  | CoverBody HTTPSchemaCoverNode
  | CoversBody "HTTPSchemaCoverNode list"
  | KeyPair HTTPSchemaKeyPair
  | PublishCondition bool nat nat int
  | Configs "(string \<times> config_item) list"

type_synonym reply = "nat \<times> body"

definition StatusOK :: nat where "StatusOK = 200"
definition StatusCreated :: nat where "StatusCreated = 201"
definition StatusBadRequest :: nat where "StatusBadRequest = 400"
definition StatusNotFound :: nat where "StatusNotFound = 404"
definition StatusInternalServerError :: nat where "StatusInternalServerError = 500"

lemmas statuses = StatusOK_def StatusCreated_def StatusBadRequest_def StatusNotFound_def
  StatusInternalServerError_def

section \<open>Rendering\<close>

text \<open>\<open>big.Int.MarshalJSON\<close> writes the decimal digits; it does not fail.\<close>

fun decimal :: "nat \<Rightarrow> bytes" where
  "decimal n = (if n < 10 then [word_of_nat (48 + n)] else decimal (n div 10) @ [word_of_nat (48 + n mod 10)])"

declare decimal.simps [simp del]

definition MarshalJSON :: "int \<Rightarrow> bytes" where
  "MarshalJSON x = (if x < 0 then 45 # decimal (nat (- x)) else decimal (nat x))"

definition path_schema :: "PathProfile \<Rightarrow> HTTPSchemaPath" where
  "path_schema path =
     \<lparr>hp_Id = p_uuid path, hp_Next = p_next path, hp_Next2 = p_next2 path, hp_ProxyPublicKey = p_proxyPublic path,
      hp_SymmetricKeyInByte = MarshalJSON (p_symKey path),
      hp_Analytics = \<lparr>ha_SuccessCount = p_successCount path, ha_FailureCount = p_failureCount path\<rparr>\<rparr>"

definition cover_schema :: "string \<Rightarrow> CoverNodeProfile \<Rightarrow> HTTPSchemaCoverNode" where
  "cover_schema coverIP cover =
     \<lparr>hc_CoverIP = coverIP, hc_SymmetricKeyInByte = MarshalJSON (c_secretKey cover),
      hc_ConnectedPathId = c_treeUUID cover\<rparr>"

fun status_text :: "PublishJobStatus \<Rightarrow> string" where
  "status_text SUCCESS = ''success''"
| "status_text PENDING = ''pending''"
| "status_text TIMEOUT = ''timeout''"

section \<open>Messages\<close>

definition decode_key :: "string \<Rightarrow> string + bytes" where
  "decode_key keyBase64Url =
     (case URL_DecodeString keyBase64Url of
        Inl err \<Rightarrow> Inl ''key should be base64 encoded string''
      | Inr key \<Rightarrow> if length key \<noteq> 48 then Inl ''key length is not 48 bytes'' else Inr key)"

definition handleGetMessage :: "env \<Rightarrow> string \<Rightarrow> state \<Rightarrow> reply \<times> state" where
  "handleGetMessage E keyBase64Url s =
     (case decode_key keyBase64Url of
        Inl m \<Rightarrow> ((StatusBadRequest, Failure m), s)
      | Inr key \<Rightarrow>
          (case e_Read E (clock s) key of
             Inl err \<Rightarrow> ((StatusNotFound, Failure ''message not found''), tick s)
           | Inr content \<Rightarrow> ((StatusOK, Message \<lparr>hm_Content = content\<rparr>), tick s)))"

definition handleGetAllMessageKeys :: "env \<Rightarrow> state \<Rightarrow> reply \<times> state" where
  "handleGetAllMessageKeys E s =
     (case e_AvailableKeys E (clock s) of
        Inl err \<Rightarrow> ((StatusNotFound, Failure ''message not found''), tick s)
      | Inr ks \<Rightarrow> ((StatusOK, Keys (map URL_EncodeToString ks)), tick s))"

text \<open>An error of the store returns without a response.\<close>

fun read_keys :: "env \<Rightarrow> string list \<Rightarrow> HTTPSchemaKeyMessage list \<Rightarrow> state \<Rightarrow> reply \<times> state" where
  "read_keys E [] messages s = ((StatusOK, KeyMessages messages), s)"
| "read_keys E (keyBase64Url # rest) messages s =
     (case URL_DecodeString keyBase64Url of
        Inl err \<Rightarrow> ((StatusBadRequest, Failure ''some key is not in base64-url encoded format''), s)
      | Inr key \<Rightarrow>
          if length key \<noteq> 48 then ((StatusBadRequest, Failure ''some key length is not 48 bytes''), s)
          else
            (case e_Read E (clock s) key of
               Inl err \<Rightarrow> ((StatusOK, Nothing), tick s)
             | Inr content \<Rightarrow> read_keys E rest (messages @ [\<lparr>hkm_Key = keyBase64Url, hkm_Content = content\<rparr>]) (tick s)))"

definition handleGetMessagesByKey :: "env \<Rightarrow> go_error + HTTPPostMessagesReq \<Rightarrow> state \<Rightarrow> reply \<times> state" where
  "handleGetMessagesByKey E body s =
     (case body of
        Inl err \<Rightarrow> ((StatusBadRequest, Failure ''request body is invalid''), s)
      | Inr req \<Rightarrow>
          if pms_Keys req = [] then ((StatusBadRequest, Failure ''keys is missing or empty''), s)
          else read_keys E (pms_Keys req) [] s)"

definition handlePostMessage ::
    "env \<Rightarrow> string \<Rightarrow> go_error + HTTPPostMessageReq \<Rightarrow> state \<Rightarrow> (reply \<times> state) outcome" where
  "handlePostMessage E keyBase64Url body s =
     (case decode_key keyBase64Url of
        Inl m \<Rightarrow> Ret ((StatusBadRequest, Failure m), s)
      | Inr key \<Rightarrow>
          (case body of
             Inl err \<Rightarrow> Ret ((StatusBadRequest, Failure ''request body is invalid''), s)
           | Inr req \<Rightarrow>
               if pmr_Content req = [] then Ret ((StatusBadRequest, Failure ''content is missing or empty''), s)
               else if pmr_PathID req \<noteq> uuid_Nil \<and> getValue (paths s) (pmr_PathID req) = None
               then Ret ((StatusBadRequest, Failure ''path is not found''), s)
               else obind (Publish E key (pmr_Content req) (pmr_PathID req) s) (\<lambda>(r, s').
                    Ret (case r of
                           Inl err \<Rightarrow> ((StatusInternalServerError, Failure ''publish error''), s')
                         | Inr publishJobId \<Rightarrow> ((StatusCreated, PublishJobID \<lparr>hid_ID = publishJobId\<rparr>), s')))))"

section \<open>Paths\<close>

definition handleGetPath :: "(string \<Rightarrow> go_error + uuid) \<Rightarrow> string \<Rightarrow> state \<Rightarrow> reply" where
  "handleGetPath uuid_Parse pathIDStr s =
     (case uuid_Parse pathIDStr of
        Inl err \<Rightarrow> (StatusBadRequest, Failure ''id should be uuid'')
      | Inr pathID \<Rightarrow>
          (case getValue (paths s) pathID of
             None \<Rightarrow> (StatusNotFound, Failure ''path not found'')
           | Some path \<Rightarrow> (StatusOK, PathBody (path_schema path))))"

definition handleGetPaths :: "env \<Rightarrow> state \<Rightarrow> reply" where
  "handleGetPaths E s =
     (StatusOK, PathsBody
        (iterate (\<lambda>pathID path result. result @ [path_schema path]) (e_order_uuid E (clock s)) (paths s) []))"

definition created_path :: "uuid \<Rightarrow> state \<Rightarrow> reply" where
  "created_path resultPathId s =
     (case getValue (paths s) resultPathId of
        None \<Rightarrow> (StatusInternalServerError, Failure ''path created but immediately removed'')
      | Some path \<Rightarrow> (StatusCreated, PathBody (path_schema path)))"

text \<open>A response of \<open>ConnectPath\<close> without an error is never nil.\<close>

definition handlePostPath :: "env \<Rightarrow> go_error + HTTPPostPathReq \<Rightarrow> state \<Rightarrow> (reply \<times> state) outcome" where
  "handlePostPath E body s =
     (case body of
        Inl err \<Rightarrow> Ret ((StatusBadRequest, Failure ''request body is invalid''), s)
      | Inr req \<Rightarrow>
          if length (ppr_IP req) > 0 \<and> ppr_PathID req \<noteq> uuid_Nil
          then obind (ConnectPath E (ppr_IP req) (ppr_PathID req) s) (\<lambda>((resp, err), s').
               case err of
                 Some e \<Rightarrow> Ret ((StatusInternalServerError, Failure ''connect path error''), s')
               | None \<Rightarrow>
                   (case resp of
                      None \<Rightarrow> Panic NilDeref
                    | Some m \<Rightarrow>
                        if \<not> cresp_Accepted m
                        then Ret ((StatusInternalServerError, Failure ''target node deny''), s')
                        else Ret (created_path (ppr_PathID req) s', s')))
          else if length (ppr_IP req) = 0 \<and> ppr_PathID req = uuid_Nil
          then (let s' = become_proxy E s in Ret (created_path (e_uuid E (clock s)) s', s'))
          else Ret ((StatusBadRequest, Failure ''request body is invalid''), s))"

section \<open>Jobs, members, covers, keys, condition\<close>

definition handleGetPublishJob :: "(string \<Rightarrow> go_error + uuid) \<Rightarrow> string \<Rightarrow> state \<Rightarrow> reply" where
  "handleGetPublishJob uuid_Parse publishJobIDStr s =
     (case uuid_Parse publishJobIDStr of
        Inl err \<Rightarrow> (StatusBadRequest, Failure ''id should be uuid'')
      | Inr publishJobID \<Rightarrow>
          (case getValue (publishJobs s) publishJobID of
             None \<Rightarrow> (StatusNotFound, Failure ''publish job not found'')
           | Some job \<Rightarrow>
               (StatusOK, JobBody \<lparr>hj_Key = URL_EncodeToString (j_Key job), hj_Status = status_text (j_Status job),
                  hj_ViaPath = j_OnPath job\<rparr>)))"

definition handleGetMembers :: "env \<Rightarrow> state \<Rightarrow> reply \<times> state" where
  "handleGetMembers E s =
     (case e_GetMembers E (clock s) of
        Inl err \<Rightarrow> ((StatusInternalServerError, Failure ''node-discovery get members error''), tick s)
      | Inr ms \<Rightarrow> ((StatusOK, Members ms), tick s))"

definition handleGetCover :: "string \<Rightarrow> state \<Rightarrow> reply" where
  "handleGetCover coverIP s =
     (if length coverIP = 0 then (StatusBadRequest, Failure ''ip should be string'')
      else case getValue (covers s) coverIP of
             None \<Rightarrow> (StatusNotFound, Failure ''cover not found'')
           | Some cover \<Rightarrow> (StatusOK, CoverBody (cover_schema coverIP cover)))"

definition handleGetCovers :: "env \<Rightarrow> state \<Rightarrow> reply" where
  "handleGetCovers E s =
     (StatusOK, CoversBody
        (iterate (\<lambda>coverIP cover result. result @ [cover_schema coverIP cover]) (e_order_ip E (clock s)) (covers s) []))"

definition handleGetKeyPair :: "state \<Rightarrow> reply" where
  "handleGetKeyPair s = (StatusOK, KeyPair \<lparr>hkp_Pub = publicKey s, hkp_Pri = privateKey s\<rparr>)"

definition handleGetPublishCondition :: "env \<Rightarrow> state \<Rightarrow> reply" where
  "handleGetPublishCondition E s =
     (StatusOK, PublishCondition (canPublish E s) (getSize (covers s)) (getSize (paths s))
        (NUMBER_OF_COVER_NODES_FOR_PUBLISH (e_cfg E)))"

definition handleGetConfigs :: "viper \<Rightarrow> settings \<Rightarrow> reply" where
  "handleGetConfigs V v =
     (StatusOK, Configs
        (map (\<lambda>k. (k, DurationItem (GetDuration V v k)))
           [''COVER_MESSAGE_SENDING_INTERVAL'', ''APPLICATION_MESSAGE_RECEIVING_INTERVAL'',
            ''PUBLISH_JOB_FAILED_TIMEOUT'', ''PUBLISH_JOB_CHECKING_INTERVAL'', ''TCP_REQUEST_TIMEOUT'',
            ''MAINTAIN_PATHS_HEALTH_CHECKING_INTERVAL'', ''PUBLISH_CONDITION_CHECKING_INTERVAL'',
            ''FULFILL_PUBLISH_CONDITION_TIMEOUT'', ''FULFILL_PUBLISH_CONDITION_INTERVAL''] @
         map (\<lambda>k. (k, IntItem (GetInt V v k)))
           [''HALF_OPEN_PATH_BUFFER_SIZE'', ''TARGET_NUMBER_OF_CONNECTED_PATHS'', ''MAXIMUM_NUMBER_OF_COVER_NODES'',
            ''NUMBER_OF_COVER_NODES_FOR_PUBLISH'', ''MOVE_UP_REQUIREMENT_FAILURE_THRESHOLD''] @
         map (\<lambda>k. (k, StringItem (GetString V v k)))
           [''TCP_SERVER_LISTEN_PORT'', ''HTTP_SERVER_LISTEN_PORT'', ''NODE_DISCOVERY_SERVER_LISTEN_PORT'',
            ''IMMUTABLE_STORAGE_SERVER_LISTEN_PORT'', ''CLUSTER_CONTACT_NODE_IP''] @
         [(''HTTP_SERVER_LISTEN_ALL'', BoolItem (GetBool V v ''HTTP_SERVER_LISTEN_ALL''))]))"

section \<open>Properties\<close>

lemma decode_key_encode: "length key = 48 \<Longrightarrow> URL_DecodeString (URL_EncodeToString key) = Inr key \<Longrightarrow>
    decode_key (URL_EncodeToString key) = Inr key"
  by (simp add: decode_key_def)

lemma decode_key_length: "decode_key s = Inr key \<Longrightarrow> length key = 48"
  by (auto simp: decode_key_def split: sum.splits if_splits)



lemma read_keys_cases:
  "read_keys E ks acc s = ((code, b), s') \<Longrightarrow>
   (code = StatusOK \<and> (\<exists>ms. b = KeyMessages (acc @ ms) \<and> map hkm_Key ms = ks \<and>
      (\<forall>k \<in> set ks. \<exists>key. URL_DecodeString k = Inr key \<and> length key = 48))) \<or>
   (code = StatusBadRequest \<and> (\<exists>m. b = Failure m) \<and>
      (\<exists>k \<in> set ks. \<forall>key. URL_DecodeString k = Inr key \<longrightarrow> length key \<noteq> 48)) \<or>
   (code = StatusOK \<and> b = Nothing \<and> (\<exists>k \<in> set ks. \<exists>key t err. URL_DecodeString k = Inr key \<and> e_Read E t key = Inl err))"
proof (induction ks arbitrary: acc s)
  case Nil
  then show ?case by simp
next
  case (Cons k ks)
  show ?case
  proof (cases "\<exists>key content. URL_DecodeString k = Inr key \<and> length key = 48 \<and> e_Read E (clock s) key = Inr content")
    case False
    with Cons.prems show ?thesis
      by (auto split: sum.splits if_splits)
  next
    case True
    then obtain key content where k: "URL_DecodeString k = Inr key" "length key = 48"
      "e_Read E (clock s) key = Inr content"
      by blast
    with Cons.prems have "read_keys E ks (acc @ [\<lparr>hkm_Key = k, hkm_Content = content\<rparr>]) (tick s) = ((code, b), s')"
      by simp
    from Cons.IH [OF this] k show ?thesis
      by (elim disjE conjE exE) (auto intro!: exI [of _ "\<lparr>hkm_Key = k, hkm_Content = content\<rparr> # _"])
  qed
qed

text \<open>
  A request for several messages is answered in one of three ways: with one message per requested key, in
  the order of the keys; with 400 when some key is not the text of 48 bytes; or, when the store reports an error for
  some key, with an empty response whose status is still 200.
\<close>

theorem messages_response:
  "\<exists>code b s'. handleGetMessagesByKey E body s = ((code, b), s') \<and>
    ((code = StatusOK \<and> (\<exists>ms. b = KeyMessages ms \<and> body = Inr \<lparr>pms_Keys = map hkm_Key ms\<rparr> \<and> ms \<noteq> [])) \<or>
     (code = StatusBadRequest \<and> (\<exists>m. b = Failure m)) \<or>
     (code = StatusOK \<and> b = Nothing \<and> (\<exists>key t err. e_Read E t key = Inl err)))"
proof (cases "\<exists>ks. body = Inr \<lparr>pms_Keys = ks\<rparr> \<and> ks \<noteq> []")
  case False
  then show ?thesis
    by (cases body) (auto simp: handleGetMessagesByKey_def intro: HTTPPostMessagesReq.cases)
next
  case True
  then obtain ks where ks: "body = Inr \<lparr>pms_Keys = ks\<rparr>" "ks \<noteq> []"
    by blast
  obtain code b s' where run: "read_keys E ks [] s = ((code, b), s')"
    by (cases "read_keys E ks [] s") auto
  from read_keys_cases [OF run] ks run show ?thesis
    by (auto simp: handleGetMessagesByKey_def)
qed

text \<open>
  Posting a path answers 201 only with a path that the node has stored, under the requested identifier or
  (for an empty request) as its own proxy; any other answer is 400 or 500 and leaves the path table as it was.
\<close>

theorem post_path_response:
  assumes "caches_ok s" and "handlePostPath E (Inr req) s = Ret ((code, b), s')"
  shows "(code = StatusCreated \<and> one_more s s' \<and>
      (\<exists>p. getValue (paths s') (if ppr_IP req = [] then e_uuid E (clock s) else ppr_PathID req) = Some p \<and>
         b = PathBody (path_schema p) \<and> (ppr_IP req = [] \<longrightarrow> p_next p = IS))) \<or>
    (code \<in> {StatusBadRequest, StatusInternalServerError} \<and> (\<exists>m. b = Failure m) \<and> paths s' = paths s)"
proof (cases "ppr_IP req \<noteq> [] \<and> ppr_PathID req \<noteq> uuid_Nil")
  case False
  then show ?thesis
    using assms(2)
    by (auto simp: handlePostPath_def Let_def created_path_def become_proxy_def tick_def self_proxy_path_def
        split: if_splits intro: one_moreI)
next
  case True
  then obtain resp err s1 where con: "ConnectPath E (ppr_IP req) (ppr_PathID req) s = Ret ((resp, err), s1)"
    using assms(2) by (auto simp: handlePostPath_def elim!: obind_RetE)
  from con assms(1) show ?thesis
  proof (cases rule: ConnectPath_cases)
    case unchanged
    then show ?thesis
      using assms(2) True con
      by (auto simp: handlePostPath_def same_but_caches_def split: option.splits)
  next
    case (installed t profile tc m)
    have paths: "paths s1 = setValue (paths s) (ppr_PathID req) (profile\<lparr>p_cancelFunc := Some (clock t)\<rparr>)"
      using installed(1,6) by (simp add: install_path_paths same_but_caches_def)
    have "code = StatusCreated" "s' = s1"
      "b = PathBody (path_schema (profile\<lparr>p_cancelFunc := Some (clock t)\<rparr>))"
      using assms(2) True con installed(7-9) paths by (auto simp: handlePostPath_def created_path_def)
    with True paths show ?thesis
      by (auto intro: one_moreI)
  qed
qed

theorem post_path_response_witness:
  "\<exists>code b s'. handlePostPath sample_env (Inr \<lparr>ppr_IP = [], ppr_PathID = 0\<rparr>) node0 = Ret ((code, b), s') \<and>
     code = StatusCreated \<and> one_more node0 s'"
proof -
  obtain b s' where run:
    "handlePostPath sample_env (Inr \<lparr>ppr_IP = [], ppr_PathID = 0\<rparr>) node0 = Ret ((StatusCreated, b), s')"
    by (simp add: handlePostPath_def uuid_Nil_def Let_def become_proxy_def tick_def created_path_def)
  have "caches_ok node0"
    by (simp add: caches_ok_def half_ok_def wf_map_def getValue_def)
  from post_path_response [OF this run] run show ?thesis
    by (auto simp: statuses)
qed

end
