(* ===== verification/Transitions.thy ===== *)
theory Transitions
  imports Prelude
begin

text \<open>
  Transition systems: the states reachable from an initial predicate under a step relation, and three proof principles as
  locales whose assumptions are the obligations: safety by an inductive invariant, refinement by a forward
  simulation, and progress by a measure under a fair scheduler.
\<close>

inductive reach :: "('s \<Rightarrow> bool) \<Rightarrow> ('s \<Rightarrow> 's \<Rightarrow> bool) \<Rightarrow> 's \<Rightarrow> bool"
  for init :: "'s \<Rightarrow> bool" and step :: "'s \<Rightarrow> 's \<Rightarrow> bool" where
  reach_init: "init s \<Longrightarrow> reach init step s"
| reach_step: "reach init step s \<Longrightarrow> step s t \<Longrightarrow> reach init step t"

locale inductive_invariant =
  fixes init :: "'s \<Rightarrow> bool"
    and step :: "'s \<Rightarrow> 's \<Rightarrow> bool"
    and inv :: "'s \<Rightarrow> bool"
  assumes inv_init: "init s \<Longrightarrow> inv s"
    and inv_step: "inv s \<Longrightarrow> step s t \<Longrightarrow> inv t"
begin

lemma reachable_inv: "reach init step s \<Longrightarrow> inv s"
  by (induction rule: reach.induct) (auto intro: inv_init inv_step)

lemma reachable_step_inv: "reach init step s \<Longrightarrow> step s t \<Longrightarrow> inv t"
  by (rule reachable_inv [OF reach_step])

end

text \<open>
  Refinement: an abstraction function under which every concrete step, taken where the invariant holds, is a finite sequence
  of abstract steps.  Reachable states then abstract to reachable states.
\<close>

locale forward_simulation = inductive_invariant init step inv
  for init :: "'s \<Rightarrow> bool" and step :: "'s \<Rightarrow> 's \<Rightarrow> bool" and inv :: "'s \<Rightarrow> bool" +
  fixes ainit :: "'a \<Rightarrow> bool"
    and astep :: "'a \<Rightarrow> 'a \<Rightarrow> bool"
    and abs :: "'s \<Rightarrow> 'a"
  assumes start: "init s \<Longrightarrow> ainit (abs s)"
    and square: "inv s \<Longrightarrow> step s t \<Longrightarrow> astep\<^sup>*\<^sup>* (abs s) (abs t)"
begin

lemma reach_closure: "astep\<^sup>*\<^sup>* a b \<Longrightarrow> reach ainit astep a \<Longrightarrow> reach ainit astep b"
  by (induction rule: rtranclp_induct) (auto intro: reach_step)

lemma refines: "reach init step s \<Longrightarrow> reach ainit astep (abs s)"
  by (induction rule: reach.induct) (auto intro: reach_init start reach_closure square reachable_inv)

lemma refines_step:
  "reach init step s \<Longrightarrow> step s t \<Longrightarrow> astep\<^sup>*\<^sup>* (abs s) (abs t)"
  by (rule square [OF reachable_inv])

end

text \<open>A finite relation in which every element reached from \<open>i\<close> has a successor has a cycle that is reached from \<open>i\<close>.\<close>

lemma finite_cycle:
  assumes "finite R" and "\<And>j. (i, j) \<in> R\<^sup>* \<Longrightarrow> \<exists>k. (j, k) \<in> R"
  shows "\<exists>j. (i, j) \<in> R\<^sup>* \<and> (j, j) \<in> R\<^sup>+"
proof (rule ccontr)
  let ?S = "R \<inter> R\<^sup>* `` {i} \<times> UNIV"
  assume no: "\<not> ?thesis"
  have "acyclic ?S"
  proof (rule acyclicI, intro allI notI)
    fix j
    assume cyc: "(j, j) \<in> ?S\<^sup>+"
    then have "(i, j) \<in> R\<^sup>*"
      by (auto dest: tranclD)
    moreover have "(j, j) \<in> R\<^sup>+"
      using cyc by (rule trancl_mono) blast
    ultimately show False
      using no by blast
  qed
  then have "wf (?S\<inverse>)"
    using assms(1) by (intro finite_acyclic_wf_converse) auto
  moreover have "i \<in> R\<^sup>* `` {i}"
    by blast
  ultimately obtain j where j: "j \<in> R\<^sup>* `` {i}" "\<And>k. (k, j) \<in> ?S\<inverse> \<Longrightarrow> k \<notin> R\<^sup>* `` {i}"
    by (rule wfE_min) blast
  then obtain k where "(j, k) \<in> R"
    using assms(2) by blast
  with j show False
    by (blast intro: rtrancl_into_rtrancl)
qed

text \<open>
  Progress: no step increases the measure, and wherever it is not yet zero some step decreases it.  Under a scheduler that does
  not put off such a step forever the measure reaches zero, and stays there.  A run may stutter.
\<close>

definition run_of :: "('s \<Rightarrow> bool) \<Rightarrow> ('s \<Rightarrow> 's \<Rightarrow> bool) \<Rightarrow> (nat \<Rightarrow> 's) \<Rightarrow> bool" where
  "run_of init step f \<longleftrightarrow> init (f 0) \<and> (\<forall>i. step (f i) (f (Suc i)) \<or> f (Suc i) = f i)"

definition fair_for :: "('s \<Rightarrow> nat) \<Rightarrow> ('s \<Rightarrow> 's \<Rightarrow> bool) \<Rightarrow> (nat \<Rightarrow> 's) \<Rightarrow> bool" where
  "fair_for left step f \<longleftrightarrow>
     (\<forall>i. (\<exists>t. step (f i) t \<and> left t < left (f i)) \<longrightarrow> (\<exists>j \<ge> i. left (f (Suc j)) < left (f j)))"

locale fair_progress = inductive_invariant init step inv
  for init :: "'s \<Rightarrow> bool" and step :: "'s \<Rightarrow> 's \<Rightarrow> bool" and inv :: "'s \<Rightarrow> bool" +
  fixes left :: "'s \<Rightarrow> nat"
  assumes never_back: "inv s \<Longrightarrow> step s t \<Longrightarrow> left t \<le> left s"
    and enabled: "inv s \<Longrightarrow> left s \<noteq> 0 \<Longrightarrow> \<exists>t. step s t \<and> left t < left s"
begin

lemma run_reach: "run_of init step f \<Longrightarrow> reach init step (f i)"
proof (induction i)
  case 0
  then show ?case by (simp add: run_of_def reach_init)
next
  case (Suc i)
  then show ?case by (metis reach_step run_of_def)
qed

lemma run_inv: "run_of init step f \<Longrightarrow> inv (f i)"
  by (rule reachable_inv [OF run_reach])

lemma left_mono:
  assumes "run_of init step f" and "i \<le> j"
  shows "left (f j) \<le> left (f i)"
  using assms(2)
proof (induction j rule: dec_induct)
  case base
  then show ?case by simp
next
  case (step n)
  have "left (f (Suc n)) \<le> left (f n)"
    using assms(1) never_back run_inv [OF assms(1)] by (metis order_refl run_of_def)
  with step.IH show ?case by simp
qed

lemma reaches_zero:
  assumes "run_of init step f" and "fair_for left step f"
  shows "\<exists>n. \<forall>m \<ge> n. left (f m) = 0"
proof -
  have "\<exists>n. left (f n) = 0" if "left (f i) = k" for i k
    using that
  proof (induction k arbitrary: i rule: less_induct)
    case (less k)
    show ?case
    proof (cases "k = 0")
      case False
      then obtain j where "i \<le> j" "left (f (Suc j)) < left (f j)"
        using less.prems enabled [OF run_inv [OF assms(1)]] assms(2) unfolding fair_for_def by metis
      with left_mono [OF assms(1), of i j] less show ?thesis
        by (metis order_less_le_trans)
    qed (use less.prems in blast)
  qed
  then obtain n where "left (f n) = 0"
    by blast
  then show ?thesis
    using left_mono [OF assms(1)] by (metis le_zero_eq)
qed

end

end
