(* ===== verification/NodeSystem.thy ===== *)
theory NodeSystem
  imports Preservation Transitions Samples
begin

text \<open>
  A node as a transition system.  A step is one operation run to its end: a connection handled, a path
  connected or created, a message published, a round of a worker, an iteration of a maintenance loop, the end of a
  publish job.  The environment is arbitrary, so a step relates all outcomes that any peers, stores, timers
  and random sources can produce; a panicking operation is no step (the process ends there).
\<close>

section \<open>The health worker\<close>

definition report_ok :: "state \<Rightarrow> InvalidPathProfile \<Rightarrow> bool" where
  "report_ok s r \<longleftrightarrow>
     (let p = i_SelfProfile r
      in p_next p \<noteq> IS \<and> p_cancelFunc p \<noteq> None \<and> usable (getValue (openConnections s) (p_uuid p)) \<noteq> None)"

lemma judge_path_self: "r \<in> set (judge_path E priv k p q) \<Longrightarrow> i_SelfProfile r = p"
  by (auto simp: judge_path_def clean_report_def split: sum.splits option.splits if_splits)

definition invalid_inv :: "env \<Rightarrow> state \<Rightarrow> InvalidPathProfile list \<times> state \<Rightarrow> bool" where
  "invalid_inv E s acc \<longleftrightarrow> node_inv E (snd acc) \<and> same_node s (snd acc) \<and> (\<forall>r \<in> set (fst acc). report_ok s r)"

lemma invalid_step_inv:
  assumes "node_inv E s" and "getValue (paths s) k = Some p" and "invalid_inv E s acc"
  shows "invalid_inv E s (invalid_step E k p acc)"
proof -
  obtain rs u where acc: "acc = (rs, u)"
    by (cases acc)
  obtain q u1 where send: "sendQueryPathRequest E (p_next p) u = (q, u1)"
    by fastforce
  have "same_node u u1"
    using send_same(1) [of u E "p_next p"] send by simp
  moreover have "report_ok s r" if "p_next p \<noteq> IS" "r \<in> set (judge_path E x k p q)" for r x
    using assms(1,2) that judge_path_self [OF that(2)]
    by (auto simp: report_ok_def Let_def node_inv_def node_ok_def paths_ok_def connected_ok_def)
  ultimately show ?thesis
    using assms(3) acc send
    by (auto simp: invalid_inv_def invalid_step_def Let_def intro: same_node_trans sendQuery_inv)
qed

lemma iterate_invariant:
  assumes "wf_map m" and "\<And>k v a. getValue m k = Some v \<Longrightarrow> I a \<Longrightarrow> I (f k v a)" and "I a"
  shows "I (iterate f ord m a)"
  unfolding iterate_def
proof (rule fold_invariant_on [where I = I])
  show "I ((case x of (k, v) \<Rightarrow> f k v) b)" if x: "x \<in> set (range_entries ord m)" and b: "I b" for x b
  proof -
    obtain k v where kv: "x = (k, v)"
      by (cases x)
    with x have "getValue m k = Some v"
      by (simp add: mm.entries_mem [OF assms(1)])
    then show ?thesis
      using assms(2) b kv by simp
  qed
qed (rule assms(3))

lemma invalidPathProfiles_inv:
  assumes "node_inv E s"
  shows "invalid_inv E s (invalidPathProfiles E s)"
  unfolding invalidPathProfiles_def
proof (rule iterate_invariant [where I = "invalid_inv E s"])
  show "wf_map (paths s)"
    using assms by (simp add: node_inv_def node_ok_def paths_ok_def)
  show "invalid_inv E s ([], s)"
    using assms by (simp add: invalid_inv_def)
qed (rule invalid_step_inv [OF assms])

lemma handle_invalid_inv:
  assumes "handle_invalid r s = Ret s'" and "node_inv E s" and "report_ok s r"
  shows "node_inv E s' \<and> openConnections s' = openConnections s"
proof (cases "i_HandleType r")
  case CLEAN
  with assms show ?thesis
    by (auto simp: handle_invalid_def call_cancel_def split: option.splits if_splits intro: wf_intros)
next
  case FIX
  with assms show ?thesis
    by (auto simp: handle_invalid_def Let_def report_ok_def node_inv_def node_ok_def connected_ok_def
        covers_bounded_def split: if_splits intro!: wf_intros)
qed

lemma handle_invalid_all_inv:
  assumes "ofold handle_invalid rs s = Ret s'" and "node_inv E s" and "\<forall>r \<in> set rs. report_ok s r"
  shows "node_inv E s'"
proof -
  have "node_inv E s' \<and> openConnections s' = openConnections s"
    using assms(1)
  proof (rule ofold_invariant [where I = "\<lambda>u. node_inv E u \<and> openConnections u = openConnections s"])
    show "node_inv E s \<and> openConnections s = openConnections s"
      using assms(2) by simp
  next
    fix r u v
    assume r: "r \<in> set rs" and u: "node_inv E u \<and> openConnections u = openConnections s"
      and step: "handle_invalid r u = Ret v"
    from r u assms(3) have "report_ok u r"
      by (simp add: report_ok_def)
    with handle_invalid_inv [OF step] u show "node_inv E v \<and> openConnections v = openConnections s"
      by auto
  qed
  then show ?thesis ..
qed

lemma maintainPathsHealth_inv:
  assumes "maintainPathsHealth E s = Ret s'" and "node_inv E s"
  shows "node_inv E s'"
proof -
  obtain s1 where black: "ofold (handle_blacklisted E) (blacklistPaths E s) s = Ret s1"
    using assms(1) unfolding maintainPathsHealth_def by (auto elim: obind_RetE)
  then have s1: "node_inv E s1"
    by (rule ofold_invariant [where I = "node_inv E"]) (use assms(2) in \<open>auto intro: handle_blacklisted_inv\<close>)
  obtain rs s2 where inv: "invalidPathProfiles E s1 = (rs, s2)"
    by fastforce
  then have s2: "node_inv E s2" "\<forall>r \<in> set rs. report_ok s2 r"
    using invalidPathProfiles_inv [OF s1] by (auto simp: invalid_inv_def report_ok_def same_node_fields)
  have "ofold handle_invalid rs s2 = Ret s'"
    using assms(1) black inv by (simp add: maintainPathsHealth_def)
  then show ?thesis
    using s2 by (rule handle_invalid_all_inv)
qed

section \<open>The workers of a connection\<close>

lemma finish_task_inv: "node_inv E s \<Longrightarrow> node_inv E (finish_task g s)"
  by (rule node_inv_same_node [where s = s])
    (auto simp: finish_task_def same_node_def node.defs dest: notin_set_remove1 intro: set_remove1_subset [THEN subsetD])

lemma delete_path_inv: "node_inv E s \<Longrightarrow> node_inv E (s\<lparr>paths := deleteValue (paths s) k\<rparr>)"
  by (auto simp: node_inv_def node_ok_def connected_ok_def covers_bounded_def intro: wf_intros)

lemma delete_cover_inv: "node_inv E s \<Longrightarrow> node_inv E (s\<lparr>covers := deleteValue (covers s) k\<rparr>)"
proof -
  assume inv: "node_inv E s"
  have "getSize (deleteValue (covers s) k) \<le> getSize (covers s)"
    using inv mm.size_drop [of "covers s" k] by (simp add: node_inv_def node_ok_def covers_ok_def)
  then show ?thesis
    using inv by (auto simp: node_inv_def node_ok_def connected_ok_def covers_bounded_def intro: wf_intros)
qed

lemma sendCover_cleanup_inv: "node_inv E s \<Longrightarrow> node_inv E (sendCover_cleanup tc p s)"
  by (auto simp: sendCover_cleanup_def Let_def split: option.splits intro!: wf_intros delete_path_inv)

lemma sendCoverMessageWorker_inv:
  "sendCoverMessageWorker E ctx tc p s = Ret s' \<Longrightarrow> node_inv E s \<Longrightarrow> node_inv E s'"
  by (auto simp: sendCoverMessageWorker_def sendCover_round_def Let_def elim!: obind_RetE
      split: sum.splits option.splits prod.splits if_splits
      intro!: finish_task_inv sendCover_cleanup_inv wf_intros elim: write_message_inv)

lemma handleApplicationMessageWorker_inv:
  "handleApplicationMessageWorker E ctx conn c p ev s = Ret s' \<Longrightarrow> node_inv E s \<Longrightarrow> node_inv E s'"
  by (auto simp: handleApplicationMessageWorker_def handleApp_cleanup_def elim!: obind_RetE
      split: app_event.splits
      intro!: finish_task_inv wf_intros delete_cover_inv dest: handleApplicationMessage_inv)

section \<open>Steps\<close>

inductive node_step :: "env \<Rightarrow> state \<Rightarrow> state \<Rightarrow> bool" for E :: env where
  step_connection: "handleConnection E c m s = Ret s' \<Longrightarrow> node_step E s s'"
| step_connect: "ConnectPath E ip treeID s = Ret (r, s') \<Longrightarrow> node_step E s s'"
| step_become_proxy: "node_step E s (become_proxy E s)"
| step_publish: "Publish E key message target s = Ret (r, s') \<Longrightarrow> node_step E s s'"
| step_quantity: "maintainPathQuantity E rounds s = Ret s' \<Longrightarrow> node_step E s s'"
| step_health: "maintainPathsHealth E s = Ret s' \<Longrightarrow> node_step E s s'"
| step_send_cover: "SendCoverMessageWorker ctx tc p \<in> set (tasks s) \<Longrightarrow>
    sendCoverMessageWorker E ctx tc p s = Ret s' \<Longrightarrow> node_step E s s'"
| step_handle_app: "HandleApplicationMessageWorker ctx conn c p \<in> set (tasks s) \<Longrightarrow>
    handleApplicationMessageWorker E ctx conn c p ev s = Ret s' \<Longrightarrow> node_step E s s'"
| step_job_done: "CheckPublishJobStatusWorker jobID \<in> set (tasks s) \<Longrightarrow>
    getValue (publishJobs s) jobID = Some job \<Longrightarrow> PENDING < st \<Longrightarrow>
    node_step E s (finish_task (CheckPublishJobStatusWorker jobID)
      (markPublishJobStatus jobID (job\<lparr>j_Status := st\<rparr>) s))"
| step_time: "node_step E s (tick s)"

definition node_start :: "state \<Rightarrow> bool" where
  "node_start s \<longleftrightarrow> (\<exists>L t name. s = NewNode L t name)"

lemma node_step_inv: "node_step E s s' \<Longrightarrow> node_inv E s \<Longrightarrow> node_inv E s'"
  by (induction rule: node_step.induct)
    (auto intro: handleConnection_inv ConnectPath_inv become_proxy_inv Publish_inv maintainPathQuantity_inv
      maintainPathsHealth_inv sendCoverMessageWorker_inv handleApplicationMessageWorker_inv
      finish_task_inv markPublishJobStatus_inv tick_inv)

interpretation node_system: inductive_invariant node_start "node_step E" "node_inv E" for E
  by unfold_locales (auto simp: node_start_def intro: node_inv_NewNode node_step_inv)



end
