(* ===== verification/Startup.thy ===== *)
theory Startup
  imports Http NodeSystem
begin

text \<open>
  Starting a node: the clients of the two services (\<open>p2p/grpc_transport.go\<close>), and \<open>StartNodeInternal\<close>, the listeners and
  the routes of \<open>p2p/node.go\<close>.

  The generated gRPC clients are the record \<open>stubs\<close>: each call gets the time, the timeout of its context and the request.
  \<open>grpc.Dial\<close> blocks until the connection is up or fails for good: an answer of \<open>dial\<close> may be that it never
  returns.  What may run forever is a \<open>partial_function\<close> whose value is then \<open>None\<close>.
\<close>

section \<open>The clients of the two services\<close>

record stubs =
  st_JoinCluster :: "nat \<Rightarrow> int \<Rightarrow> string \<Rightarrow> go_error option"
  st_LeaveCluster :: "nat \<Rightarrow> int \<Rightarrow> go_error option"
  st_GetMembers :: "nat \<Rightarrow> int \<Rightarrow> go_error + string list"
  st_Store :: "nat \<Rightarrow> int \<Rightarrow> bytes \<Rightarrow> bytes \<Rightarrow> go_error + bool"
  st_Read :: "nat \<Rightarrow> int \<Rightarrow> bytes \<Rightarrow> go_error + bytes"
  st_AvailableKeys :: "nat \<Rightarrow> int \<Rightarrow> go_error + bytes list"
  st_IsDiscovered :: "nat \<Rightarrow> int \<Rightarrow> bytes \<Rightarrow> go_error + bool"

definition ndc_JoinCluster :: "stubs \<Rightarrow> nat \<Rightarrow> string \<Rightarrow> go_error option" where
  "ndc_JoinCluster S t ip = st_JoinCluster S t (10 * Second) ip"

definition ndc_LeaveCluster :: "stubs \<Rightarrow> nat \<Rightarrow> go_error option" where
  "ndc_LeaveCluster S t = st_LeaveCluster S t (10 * Second)"

definition ndc_GetMembers :: "stubs \<Rightarrow> nat \<Rightarrow> go_error + string list" where
  "ndc_GetMembers S t = st_GetMembers S t (10 * Second)"

definition isc_Store :: "stubs \<Rightarrow> nat \<Rightarrow> bytes \<Rightarrow> bytes \<Rightarrow> go_error + bool" where
  "isc_Store S t key body = st_Store S t (3 * Minute) key body"

definition isc_Read :: "stubs \<Rightarrow> nat \<Rightarrow> bytes \<Rightarrow> go_error + bytes" where
  "isc_Read S t key = st_Read S t (3 * Minute) key"

definition isc_AvailableIDs :: "stubs \<Rightarrow> nat \<Rightarrow> go_error + bytes list" where
  "isc_AvailableIDs S t = st_AvailableKeys S t (3 * Minute)"

definition isc_IsDiscovered :: "stubs \<Rightarrow> nat \<Rightarrow> bytes \<Rightarrow> go_error + bool" where
  "isc_IsDiscovered S t key = st_IsDiscovered S t (3 * Minute) key"

text \<open>The environment of a node whose service calls go through these clients.\<close>

definition client_env :: "stubs \<Rightarrow> env \<Rightarrow> env" where
  "client_env S E =
     E\<lparr>e_Store := isc_Store S, e_Read := isc_Read S, e_IsDiscovered := isc_IsDiscovered S,
       e_AvailableKeys := isc_AvailableIDs S, e_GetMembers := ndc_GetMembers S\<rparr>"

section \<open>Connecting to the services\<close>

datatype dial_result = Connected | DialFailed go_error | Blocks

text \<open>The loops of \<open>initNodeDiscoverClient\<close> and \<open>initImmutableStorageClient\<close>; the value is the time after the success.\<close>

partial_function (option) retry_New :: "(nat \<Rightarrow> dial_result) \<Rightarrow> nat \<Rightarrow> nat option" where
  "retry_New dial t =
     (case dial t of
        Connected \<Rightarrow> Some (Suc t)
      | DialFailed err \<Rightarrow> retry_New dial (Suc t)
      | Blocks \<Rightarrow> None)"

definition nd_address :: "viper \<Rightarrow> settings \<Rightarrow> string" where
  "nd_address V v = GetString V v ''NODE_DISCOVERY_SERVER_LISTEN_IP'' @ GetString V v ''NODE_DISCOVERY_SERVER_LISTEN_PORT''"

definition is_address :: "viper \<Rightarrow> settings \<Rightarrow> string" where
  "is_address V v =
     GetString V v ''IMMUTABLE_STORAGE_SERVER_LISTEN_IP'' @ GetString V v ''IMMUTABLE_STORAGE_SERVER_LISTEN_PORT''"

text \<open>The two \<open>New\<close> methods: the error of dialling is returned, and on success the client is set.\<close>

definition ndc_New :: "(nat \<Rightarrow> string \<Rightarrow> dial_result) \<Rightarrow> viper \<Rightarrow> settings \<Rightarrow> nat \<Rightarrow> dial_result" where
  "ndc_New dial V v t = (let tcpAddr = nd_address V v in dial t tcpAddr)"

definition isc_New :: "(nat \<Rightarrow> string \<Rightarrow> dial_result) \<Rightarrow> viper \<Rightarrow> settings \<Rightarrow> nat \<Rightarrow> dial_result" where
  "isc_New dial V v t = (let tcpAddr = is_address V v in dial t tcpAddr)"

definition initNodeDiscoverClient :: "(nat \<Rightarrow> string \<Rightarrow> dial_result) \<Rightarrow> viper \<Rightarrow> settings \<Rightarrow> nat \<Rightarrow> nat option" where
  "initNodeDiscoverClient dial V v t = retry_New (ndc_New dial V v) t"

definition initImmutableStorageClient :: "(nat \<Rightarrow> string \<Rightarrow> dial_result) \<Rightarrow> viper \<Rightarrow> settings \<Rightarrow> nat \<Rightarrow> nat option" where
  "initImmutableStorageClient dial V v t = retry_New (isc_New dial V v) t"

definition initDependencies :: "(nat \<Rightarrow> string \<Rightarrow> dial_result) \<Rightarrow> viper \<Rightarrow> settings \<Rightarrow> nat \<Rightarrow> nat option" where
  "initDependencies dial V v t =
     (case initNodeDiscoverClient dial V v t of
        None \<Rightarrow> None
      | Some t' \<Rightarrow> initImmutableStorageClient dial V v t')"

section \<open>What the servers are started with\<close>

definition tcp_listen_address :: "viper \<Rightarrow> settings \<Rightarrow> string" where
  "tcp_listen_address V v =
     (if IsSet v ''TESTING_TCP_SERVER_LISTEN_IP'' then GetString V v ''TESTING_TCP_SERVER_LISTEN_IP'' @ '':3001''
      else '':3001'')"

definition http_listen_address :: "viper \<Rightarrow> settings \<Rightarrow> string" where
  "http_listen_address V v =
     (if GetBool V v ''HTTP_SERVER_LISTEN_All'' then GetString V v ''HTTP_SERVER_LISTEN_PORT''
      else ''127.0.0.1'' @ GetString V v ''HTTP_SERVER_LISTEN_PORT'')"

datatype http_method = GET | POST

datatype handler =
    H_GetMessage | H_PostMessage | H_GetMessagesByKey | H_GetAllMessageKeys
  | H_GetPath | H_GetPaths | H_PostPath | H_GetPublishJob | H_GetMembers
  | H_GetCover | H_GetCovers | H_GetKeyPair | H_GetConfigs | H_GetPublishCondition

definition routes :: "(http_method \<times> string \<times> handler) list" where
  "routes =
     [(GET, ''/message/:key'', H_GetMessage),
      (POST, ''/message/:key'', H_PostMessage),
      (POST, ''/messages'', H_GetMessagesByKey),
      (GET, ''/message-keys'', H_GetAllMessageKeys),
      (GET, ''/path/:id'', H_GetPath),
      (GET, ''/paths'', H_GetPaths),
      (POST, ''/path'', H_PostPath),
      (GET, ''/publish-job/:id'', H_GetPublishJob),
      (GET, ''/members'', H_GetMembers),
      (GET, ''/cover/:ip'', H_GetCover),
      (GET, ''/covers'', H_GetCovers),
      (GET, ''/key-pair'', H_GetKeyPair),
      (GET, ''/configs'', H_GetConfigs),
      (GET, ''/publish-condition'', H_GetPublishCondition)]"

text \<open>The server that \<open>StartHTTP\<close> leaves running: its address and the routes of its router.\<close>

definition StartHTTP :: "viper \<Rightarrow> settings \<Rightarrow> string \<times> (http_method \<times> string \<times> handler) list" where
  "StartHTTP V v = (let tcpAddr = http_listen_address V v in (tcpAddr, routes))"

text \<open>No two routes compete for a request, and every handler has exactly one.\<close>

lemma routes_unambiguous:
  "distinct (map (\<lambda>(method, path, h). (method, path)) routes)" "distinct (map (\<lambda>(method, path, h). h) routes)"
  "\<exists>method path. (method, path, h) \<in> set routes"
  by (simp_all add: routes_def) (cases h; simp)

text \<open>\<open>initGobTypeRegistration\<close> registers the types of all protocol messages, in this order.\<close>

definition initGobTypeRegistration :: "string list" where
  "initGobTypeRegistration =
     [''QueryPathReq'', ''DHKeyExchange'', ''ConnectPathReq'', ''CreateProxyReq'', ''Path'', ''QueryPathResp'',
      ''VerifyCoverReq'', ''VerifyCoverResp'', ''ConnectPathResp'', ''CreateProxyResp'', ''ProtocolMessage'',
      ''ApplicationMessage'']"

section \<open>Starting the node\<close>

definition Itoa :: "nat \<Rightarrow> string" where
  "Itoa n = map (\<lambda>b. char_of (unat b)) (decimal n)"

definition node_name :: "viper \<Rightarrow> settings \<Rightarrow> nat \<Rightarrow> string" where
  "node_name V v draw =
     (if IsSet v ''NODE_ALIAS'' then GetString V v ''NODE_ALIAS'' else ''Node'' @ Itoa (draw mod 500))"

datatype boot_event =
    GobTypesRegistered "string list"
  | ServicesConnected nat
  | TCPServerStarted string
  | ClusterJoined string
  | HTTPServerStarted "string \<times> (http_method \<times> string \<times> handler) list"
  | QuantityWorkerStarted
  | HealthWorkerStarted
  | ClusterLeft "go_error option"

text \<open>\<open>os.Exit(1)\<close> when the contact node cannot be joined.\<close>

definition joinCluster :: "stubs \<Rightarrow> viper \<Rightarrow> settings \<Rightarrow> nat \<Rightarrow> boot_event list outcome" where
  "joinCluster S V v t =
     (if IsSet v ''CLUSTER_CONTACT_NODE_IP''
      then (let ip = GetString V v ''CLUSTER_CONTACT_NODE_IP''
            in case ndc_JoinCluster S t ip of
                 Some err \<Rightarrow> Panic FatalExit
               | None \<Rightarrow> Ret [ClusterJoined ip])
      else Ret [])"

definition StartNodeInternal ::
    "lib \<Rightarrow> stubs \<Rightarrow> (nat \<Rightarrow> string \<Rightarrow> dial_result) \<Rightarrow> viper \<Rightarrow> world \<Rightarrow> string \<Rightarrow> nat \<Rightarrow> nat
      \<Rightarrow> (state \<times> boot_event list) outcome option" where
  "StartNodeInternal L S dial V W configPath draw t =
     (let v = open_configs V W configPath;
          node = NewNode L t (node_name V v draw)
      in case initDependencies dial V v (clock node) of
           None \<Rightarrow> None
         | Some t' \<Rightarrow>
             Some (obind (joinCluster S V v t') (\<lambda>joined.
               Ret (node\<lparr>clock := t'\<rparr>,
                 [GobTypesRegistered initGobTypeRegistration, ServicesConnected t', TCPServerStarted (tcp_listen_address V v)] @
                 joined @ [HTTPServerStarted (StartHTTP V v), QuantityWorkerStarted, HealthWorkerStarted]))))"

text \<open>
  \<open>StartNode\<close> waits for an interrupt and then runs its deferred call, whose error nobody looks at.  \<open>signal\<close> is the
  time of the interrupt, if one comes; without one it waits forever.  An exit runs no deferred call.
\<close>

definition StartNode ::
    "lib \<Rightarrow> stubs \<Rightarrow> (nat \<Rightarrow> string \<Rightarrow> dial_result) \<Rightarrow> viper \<Rightarrow> world \<Rightarrow> nat \<Rightarrow> nat \<Rightarrow> nat option
      \<Rightarrow> boot_event list outcome option" where
  "StartNode L S dial V W draw t signal =
     (case StartNodeInternal L S dial V W ''config.yaml'' draw t of
        None \<Rightarrow> None
      | Some (Panic p) \<Rightarrow> Some (Panic p)
      | Some (Ret (node, events)) \<Rightarrow>
          map_option (\<lambda>t'. Ret (events @ [ClusterLeft (ndc_LeaveCluster S t')])) signal)"

text \<open>The program itself.\<close>

definition main ::
    "lib \<Rightarrow> stubs \<Rightarrow> (nat \<Rightarrow> string \<Rightarrow> dial_result) \<Rightarrow> viper \<Rightarrow> world \<Rightarrow> nat \<Rightarrow> nat \<Rightarrow> nat option
      \<Rightarrow> boot_event list outcome option" where
  "main L S dial V W draw t signal = StartNode L S dial V W draw t signal"

section \<open>The TCP server\<close>

text \<open>What \<open>Accept\<close> returns: an error, or a connection with what the decoder will read from it.\<close>

type_synonym accepted = "go_error + incoming \<times> (go_error + ProtocolMessage)"

definition accept_round :: "env \<Rightarrow> accepted \<Rightarrow> state \<Rightarrow> state outcome" where
  "accept_round E a s =
     (case a of
        Inl err \<Rightarrow> Ret s
      | Inr (c, decoded) \<Rightarrow> handleConnection E c decoded s)"

text \<open>
  The rounds of the endless loop that have been run, each handler to its end.  When the address cannot be listened on,
  the error is only logged, the listener is nil and the first \<open>Accept\<close> dereferences it.
\<close>

definition StartTCP ::
    "env \<Rightarrow> viper \<Rightarrow> settings \<Rightarrow> (string \<Rightarrow> go_error option) \<Rightarrow> accepted list \<Rightarrow> state \<Rightarrow> state outcome" where
  "StartTCP E V v listen rounds s =
     (case listen (tcp_listen_address V v) of
        Some err \<Rightarrow> Panic NilDeref
      | None \<Rightarrow> ofold (accept_round E) rounds s)"

section \<open>The HTTP server\<close>

text \<open>A request as gin hands it over: the path parameter, and the body as each handler's \<open>BindJSON\<close> reads it.\<close>

record http_request =
  rq_param :: string
  rq_keys :: "go_error + HTTPPostMessagesReq"
  rq_message :: "go_error + HTTPPostMessageReq"
  rq_path :: "go_error + HTTPPostPathReq"

record http_server =
  hs_viper :: viper
  hs_settings :: settings
  hs_parse :: "string \<Rightarrow> go_error + uuid"

fun serve :: "env \<Rightarrow> http_server \<Rightarrow> handler \<Rightarrow> http_request \<Rightarrow> state \<Rightarrow> (reply \<times> state) outcome" where
  "serve E H H_GetMessage q s = Ret (handleGetMessage E (rq_param q) s)"
| "serve E H H_PostMessage q s = handlePostMessage E (rq_param q) (rq_message q) s"
| "serve E H H_GetMessagesByKey q s = Ret (handleGetMessagesByKey E (rq_keys q) s)"
| "serve E H H_GetAllMessageKeys q s = Ret (handleGetAllMessageKeys E s)"
| "serve E H H_GetPath q s = Ret (handleGetPath (hs_parse H) (rq_param q) s, s)"
| "serve E H H_GetPaths q s = Ret (handleGetPaths E s, s)"
| "serve E H H_PostPath q s = handlePostPath E (rq_path q) s"
| "serve E H H_GetPublishJob q s = Ret (handleGetPublishJob (hs_parse H) (rq_param q) s, s)"
| "serve E H H_GetMembers q s = Ret (handleGetMembers E s)"
| "serve E H H_GetCover q s = Ret (handleGetCover (rq_param q) s, s)"
| "serve E H H_GetCovers q s = Ret (handleGetCovers E s, s)"
| "serve E H H_GetKeyPair q s = Ret (handleGetKeyPair s, s)"
| "serve E H H_GetConfigs q s = Ret (handleGetConfigs (hs_viper H) (hs_settings H), s)"
| "serve E H H_GetPublishCondition q s = Ret (handleGetPublishCondition E s, s)"

section \<open>The mock servers\<close>

text \<open>
  \<open>initMockND\<close> and \<open>initMockIS\<close> of \<open>p2p/mocks.go\<close> wait for their server with a loop whose error is set once, by its
  first statement, and never again; \<open>i\<close> counts the calls in the log.
\<close>

partial_function (option) mock_wait :: "go_error option \<Rightarrow> nat \<Rightarrow> nat option" where
  "mock_wait err i = (case err of None \<Rightarrow> Some i | Some e \<Rightarrow> mock_wait err (Suc i))"

definition initMockIS :: "(string \<Rightarrow> go_error option) \<Rightarrow> (string \<Rightarrow> go_error option) \<Rightarrow> string \<Rightarrow> nat outcome option" where
  "initMockIS listen dial addr =
     (case listen addr of
        Some err \<Rightarrow> Some (Panic FatalExit)
      | None \<Rightarrow> map_option Ret (mock_wait (dial addr) 1))"

definition initMockND :: "(string \<Rightarrow> go_error option) \<Rightarrow> (string \<Rightarrow> go_error option) \<Rightarrow> string \<Rightarrow> nat outcome option" where
  "initMockND listen dial addr =
     (case listen addr of
        Some err \<Rightarrow> Some (Panic FatalExit)
      | None \<Rightarrow> map_option Ret (mock_wait (dial addr) 1))"

section \<open>Waiting for the services\<close>

lemma retry_New_failed:
  "(\<And>i. i < n \<Longrightarrow> \<exists>e. dial (t + i) = DialFailed e) \<Longrightarrow> retry_New dial t = retry_New dial (t + n)"
proof (induction n)
  case 0
  then show ?case by simp
next
  case (Suc n)
  then have "retry_New dial t = retry_New dial (t + n)"
    by simp
  moreover obtain e where "dial (t + n) = DialFailed e"
    using Suc.prems by blast
  ultimately show ?case
    by (subst (asm) (2) retry_New.simps) simp
qed

lemma retry_New_returns:
  assumes "retry_New dial t = Some t'"
  shows "\<exists>n. (\<forall>i < n. \<exists>e. dial (t + i) = DialFailed e) \<and> dial (t + n) = Connected \<and> t' = t + n + 1"
  using assms
proof (rule retry_New.raw_induct [where P = "\<lambda>dial t t'.
      \<exists>n. (\<forall>i < n. \<exists>e. dial (t + i) = DialFailed e) \<and> dial (t + n) = Connected \<and> t' = t + n + 1", rotated])
  fix retry dial t t'
  assume hyp: "\<And>dial t t'. retry dial t = Some t' \<Longrightarrow>
        \<exists>n. (\<forall>i < n. \<exists>e. dial (t + i) = DialFailed e) \<and> dial (t + n) = Connected \<and> t' = t + n + 1"
    and run: "(case dial t of Connected \<Rightarrow> Some (Suc t) | DialFailed err \<Rightarrow> retry dial (Suc t) | Blocks \<Rightarrow> None) = Some t'"
  show "\<exists>n. (\<forall>i < n. \<exists>e. dial (t + i) = DialFailed e) \<and> dial (t + n) = Connected \<and> t' = t + n + 1"
  proof (cases "dial t")
    case Connected
    with run show ?thesis
      by (auto intro: exI [of _ 0])
  next
    case (DialFailed e)
    with run hyp obtain n where n: "\<forall>i < n. \<exists>e. dial (Suc t + i) = DialFailed e" "dial (Suc t + n) = Connected"
      "t' = Suc t + n + 1"
      by fastforce
    have "\<exists>e. dial (t + i) = DialFailed e" if "i < Suc n" for i
      using n(1) DialFailed that by (cases i) auto
    with n(2,3) show ?thesis
      by (intro exI [of _ "Suc n"]) simp
  next
    case Blocks
    with run show ?thesis by simp
  qed
qed

lemma retry_New_iff:
  "retry_New dial t = Some t' \<longleftrightarrow>
     (\<exists>n. (\<forall>i < n. \<exists>e. dial (t + i) = DialFailed e) \<and> dial (t + n) = Connected \<and> t' = t + n + 1)"
proof
  assume "\<exists>n. (\<forall>i < n. \<exists>e. dial (t + i) = DialFailed e) \<and> dial (t + n) = Connected \<and> t' = t + n + 1"
  then obtain n where n: "\<forall>i < n. \<exists>e. dial (t + i) = DialFailed e" "dial (t + n) = Connected" "t' = t + n + 1"
    by blast
  then have "retry_New dial t = retry_New dial (t + n)"
    by (intro retry_New_failed) simp
  also have "\<dots> = Some t'"
    by (subst retry_New.simps) (simp add: n)
  finally show "retry_New dial t = Some t'" .
qed (rule retry_New_returns)

text \<open>
  Property C30: the clients are initialised one after the other, each by retrying for as long as dialling fails; start-up
  gets past this exactly when, counting from its begin, node discovery is reached after finitely many failures
  and from then on immutable storage is too, and it then has made exactly that many attempts.
\<close>

theorem services_awaited:
  "initDependencies dial V v t = Some t' \<longleftrightarrow>
     (\<exists>m n. (\<forall>i < m. \<exists>e. dial (t + i) (nd_address V v) = DialFailed e) \<and> dial (t + m) (nd_address V v) = Connected \<and>
        (\<forall>i < n. \<exists>e. dial (t + m + 1 + i) (is_address V v) = DialFailed e) \<and>
        dial (t + m + 1 + n) (is_address V v) = Connected \<and> t' = t + m + n + 2)"
proof -
  have seq: "initDependencies dial V v t = Some t' \<longleftrightarrow>
      (\<exists>u. initNodeDiscoverClient dial V v t = Some u \<and> initImmutableStorageClient dial V v u = Some t')"
    by (simp add: initDependencies_def split: option.split)
  have shift: "(\<exists>u. (\<exists>m. P m \<and> Q m \<and> u = t + m + 1) \<and> (\<exists>n. R u n \<and> S u n \<and> t' = u + n + 1)) \<longleftrightarrow>
      (\<exists>m n. P m \<and> Q m \<and> R (t + m + 1) n \<and> S (t + m + 1) n \<and> t' = t + m + n + 2)"
    for P Q :: "nat \<Rightarrow> bool" and R S :: "nat \<Rightarrow> nat \<Rightarrow> bool"
    by (auto simp: add_ac)
  show ?thesis
    unfolding seq initNodeDiscoverClient_def initImmutableStorageClient_def retry_New_iff ndc_New_def isc_New_def Let_def
    by (rule shift)
qed

theorem services_awaited_witness:
  "initDependencies (\<lambda>t a. if t = 0 then DialFailed (LibError ''refused'') else Connected) sample_viper (\<lambda>k. None) 0 = Some 3"
proof -
  let ?dial = "\<lambda>t a. if t = 0 then DialFailed (LibError ''refused'') else Connected"
  have "\<exists>m n. (\<forall>i < m. \<exists>e. ?dial (0 + i) (nd_address sample_viper (\<lambda>k. None)) = DialFailed e) \<and>
      ?dial (0 + m) (nd_address sample_viper (\<lambda>k. None)) = Connected \<and>
      (\<forall>i < n. \<exists>e. ?dial (0 + m + 1 + i) (is_address sample_viper (\<lambda>k. None)) = DialFailed e) \<and>
      ?dial (0 + m + 1 + n) (is_address sample_viper (\<lambda>k. None)) = Connected \<and> (3 :: nat) = 0 + m + n + 2"
    by (rule exI [of _ 1], rule exI [of _ 0]) simp
  then show ?thesis
    by (rule iffD2 [OF services_awaited])
qed

lemma services_time: "initDependencies dial V v t = Some t' \<Longrightarrow> t \<le> t'"
  by (auto simp: initDependencies_def initNodeDiscoverClient_def initImmutableStorageClient_def retry_New_iff
      split: option.splits)

lemma mock_wait_diverges: "mock_wait (Some e) i = None"
proof (cases "mock_wait (Some e) i")
  case (Some r)
  then have "Some e = None"
    by (rule mock_wait.raw_induct [where P = "\<lambda>err i r. err = None", rotated]) (auto split: option.splits)
  then show ?thesis by simp
qed simp

text \<open>
  A mock server whose first test call fails is waited for without end, however soon it comes up: the loop
  never dials again.  It is ready at once when the first call succeeds.
\<close>

theorem mock_wait_never_redials:
  assumes "listen addr = None"
  shows "initMockIS listen dial addr = (if dial addr = None then Some (Ret 1) else None) \<and>
    initMockND listen dial addr = (if dial addr = None then Some (Ret 1) else None)"
proof (cases "dial addr")
  case None
  have "mock_wait None 1 = Some 1"
    by (subst mock_wait.simps) simp
  with None assms show ?thesis
    by (simp add: initMockIS_def initMockND_def)
next
  case (Some e)
  with assms show ?thesis
    by (simp add: initMockIS_def initMockND_def mock_wait_diverges)
qed

theorem mock_wait_never_redials_witness:
  "initMockIS (\<lambda>a. None) (\<lambda>a. Some (LibError ''refused'')) '':3100'' = None"
  using mock_wait_never_redials [of "\<lambda>a. None" "'':3100''" "\<lambda>a. Some (LibError ''refused'')"] by simp

section \<open>Coming up\<close>

text \<open>
  A node started without a configuration file and without variables runs under the documented defaults: one
  path, at most 15 covers, two covers to publish, a move up after three failures, every address on the
  local host; and \<open>/configs\<close> reports them, with an empty text for the port no default is given for.
\<close>

theorem default_configuration:
  assumes "viper_documented V" and "w_file W configPath = None"
    and "\<forall>k \<in> set bound_keys. w_environ W k \<in> {None, Some []}"
  shows "let v = open_configs V W configPath in
    node_config V v =
      \<lparr>TARGET_NUMBER_OF_CONNECTED_PATHS = 1, MAXIMUM_NUMBER_OF_COVER_NODES = 15, NUMBER_OF_COVER_NODES_FOR_PUBLISH = 2,
       MOVE_UP_REQUIREMENT_FAILURE_THRESHOLD = 3, TESTING_TCP_SERVER_LISTEN_IP = None\<rparr> \<and>
    nd_address V v = ''127.0.0.1:3200'' \<and> is_address V v = ''127.0.0.1:3100'' \<and>
    http_listen_address V v = ''127.0.0.1:3000'' \<and> tcp_listen_address V v = '':3001'' \<and>
    joinCluster S V v t = Ret [] \<and>
    handleGetConfigs V v = (StatusOK, Configs
      [(''COVER_MESSAGE_SENDING_INTERVAL'', DurationItem (10 * Second)),
       (''APPLICATION_MESSAGE_RECEIVING_INTERVAL'', DurationItem (15 * Second)),
       (''PUBLISH_JOB_FAILED_TIMEOUT'', DurationItem (10 * Minute)),
       (''PUBLISH_JOB_CHECKING_INTERVAL'', DurationItem (30 * Second)),
       (''TCP_REQUEST_TIMEOUT'', DurationItem (10 * Second)),
       (''MAINTAIN_PATHS_HEALTH_CHECKING_INTERVAL'', DurationItem Minute),
       (''PUBLISH_CONDITION_CHECKING_INTERVAL'', DurationItem Minute),
       (''FULFILL_PUBLISH_CONDITION_TIMEOUT'', DurationItem (5 * Minute)),
       (''FULFILL_PUBLISH_CONDITION_INTERVAL'', DurationItem (10 * Second)),
       (''HALF_OPEN_PATH_BUFFER_SIZE'', IntItem 5000),
       (''TARGET_NUMBER_OF_CONNECTED_PATHS'', IntItem 1),
       (''MAXIMUM_NUMBER_OF_COVER_NODES'', IntItem 15),
       (''NUMBER_OF_COVER_NODES_FOR_PUBLISH'', IntItem 2),
       (''MOVE_UP_REQUIREMENT_FAILURE_THRESHOLD'', IntItem 3),
       (''TCP_SERVER_LISTEN_PORT'', StringItem []),
       (''HTTP_SERVER_LISTEN_PORT'', StringItem '':3000''),
       (''NODE_DISCOVERY_SERVER_LISTEN_PORT'', StringItem '':3200''),
       (''IMMUTABLE_STORAGE_SERVER_LISTEN_PORT'', StringItem '':3100''),
       (''CLUSTER_CONTACT_NODE_IP'', StringItem []),
       (''HTTP_SERVER_LISTEN_ALL'', BoolItem False)])"
proof -
  have unset: "open_configs V W configPath k = default_in default_calls k" for k
    using assms(2,3) by (intro open_configs_unset [OF assms(1)]) blast
  have casts: "vp_toDuration V (Dur d) = d" "vp_toInt V (Num n) = n" "vp_toString V (Str x) = x"
    "\<not> vp_toBool V (Str ''false'')" for d n x
    using assms(1) by (simp_all add: viper_documented_def)
  note known = getters unset defaults casts
  show ?thesis
    unfolding Let_def
    by (intro conjI) (simp_all add: node_config_def nd_address_def is_address_def http_listen_address_def
        tcp_listen_address_def joinCluster_def handleGetConfigs_def known)
qed

theorem default_configuration_witness:
  "MAXIMUM_NUMBER_OF_COVER_NODES (node_config sample_viper (open_configs sample_viper plain_world ''config.yaml'')) = 15"
  using default_configuration [OF sample_viper_documented, of plain_world "''config.yaml''"]
  by (simp add: plain_world_def Let_def)

text \<open>Time alone takes a node from a reachable state to a reachable one.\<close>

lemma reach_later: "reach init (node_step E) s \<Longrightarrow> reach init (node_step E) (s\<lparr>clock := clock s + n\<rparr>)"
proof (induction n)
  case 0
  then show ?case by simp
next
  case (Suc n)
  then have "reach init (node_step E) (tick (s\<lparr>clock := clock s + n\<rparr>))"
    by (meson reach_step step_time)
  then show ?case
    by (simp add: tick_def)
qed

lemma reach_at:
  assumes "reach init (node_step E) s" and "clock s \<le> t"
  shows "reach init (node_step E) (s\<lparr>clock := t\<rparr>)"
  using reach_later [OF assms(1), of "t - clock s"] assms(2) by simp

lemma reach_NewNode: "reach node_start (node_step E) (NewNode L t name)"
  by (rule reach_init) (auto simp: node_start_def)


text \<open>
  A node that is interrupted leaves the cluster once, whether or not it has joined one and whatever the answer; one that
  exits at start-up does not.
\<close>

theorem interrupted_node_leaves:
  assumes "StartNode L S dial V W draw t signal = Some (Ret events)"
  shows "\<exists>t' before. signal = Some t' \<and> events = before @ [ClusterLeft (st_LeaveCluster S t' (10 * Second))] \<and>
    (\<forall>r. ClusterLeft r \<notin> set before) \<and>
    ((\<exists>ip. ClusterJoined ip \<in> set before) \<longleftrightarrow>
       IsSet (open_configs V W ''config.yaml'') ''CLUSTER_CONTACT_NODE_IP'')"
proof -
  obtain node before t' where run: "StartNodeInternal L S dial V W ''config.yaml'' draw t = Some (Ret (node, before))"
    and "signal = Some t'" "events = before @ [ClusterLeft (ndc_LeaveCluster S t')]"
    using assms by (auto simp: StartNode_def split: option.splits outcome.splits)
  then show ?thesis
    by (auto simp: StartNodeInternal_def joinCluster_def Let_def ndc_LeaveCluster_def elim!: obind_RetE
        split: option.splits if_splits)
qed

section \<open>Serving\<close>

lemma reach_ofold:
  assumes "reach init step s" and "ofold f xs s = Ret s'"
    and "\<And>x u v. x \<in> set xs \<Longrightarrow> f x u = Ret v \<Longrightarrow> u = v \<or> step u v"
  shows "reach init step s'"
  using assms(2)
  by (rule ofold_invariant [where I = "reach init step"]) (use assms(1,3) in \<open>auto intro: reach_step\<close>)

text \<open>
  The TCP server panics when its address cannot be listened on.  Otherwise, whatever connections it accepts and
  whatever errors \<open>Accept\<close> returns, every state in which it is running is a reachable one: the covers it has admitted
  stay within the configured maximum.
\<close>

theorem tcp_server_run:
  "(listen (tcp_listen_address V v) \<noteq> None \<longrightarrow> panics (StartTCP E V v listen rounds s)) \<and>
   (reach node_start (node_step E) s \<and> StartTCP E V v listen rounds s = Ret s' \<longrightarrow>
      reach node_start (node_step E) s' \<and>
      int (getSize (covers s')) \<le> max 0 (MAXIMUM_NUMBER_OF_COVER_NODES (e_cfg E)))"
proof (intro conjI impI)
  assume run: "reach node_start (node_step E) s \<and> StartTCP E V v listen rounds s = Ret s'"
  then have fold: "ofold (accept_round E) rounds s = Ret s'"
    by (simp add: StartTCP_def split: option.splits)
  show "reach node_start (node_step E) s'"
    by (rule reach_ofold [OF _ fold])
      (use run in \<open>auto simp: accept_round_def intro: step_connection split: sum.splits prod.splits\<close>)
  then show "int (getSize (covers s')) \<le> max 0 (MAXIMUM_NUMBER_OF_COVER_NODES (e_cfg E))"
    using node_system.reachable_inv by (auto simp: node_inv_def covers_bounded_def)
qed (auto simp: StartTCP_def)

theorem tcp_server_run_witness:
  "panics (StartTCP sample_env sample_viper (\<lambda>k. None) (\<lambda>a. Some (LibError ''address already in use'')) [] node0)"
  by (rule mp [OF conjunct1 [OF tcp_server_run]]) simp

lemma read_keys_clock: "read_keys E ks ms s = (r, s') \<Longrightarrow> \<exists>n. s' = s\<lparr>clock := clock s + n\<rparr>"
proof (induction ks arbitrary: ms s)
  case Nil
  then show ?case
    by (auto intro: exI [of _ 0])
next
  case (Cons k ks)
  have idle: "\<exists>n. s = s\<lparr>clock := clock s + n\<rparr>" "\<exists>n. tick s = s\<lparr>clock := clock s + n\<rparr>"
    by (auto simp: tick_def intro: exI [of _ 0] exI [of _ 1])
  show ?case
  proof (cases "\<exists>ms'. read_keys E ks ms' (tick s) = (r, s')")
    case True
    with Cons.IH obtain n where "s' = (tick s)\<lparr>clock := clock (tick s) + n\<rparr>"
      by blast
    then show ?thesis
      by (auto simp: tick_def intro: exI [of _ "Suc n"])
  next
    case False
    with Cons.prems have "s' = s \<or> s' = tick s"
      by (auto split: sum.splits if_splits)
    with idle show ?thesis
      by (elim disjE) (simp_all only:)
  qed
qed

definition reads_only :: "handler \<Rightarrow> bool" where
  "reads_only h \<longleftrightarrow> h \<noteq> H_PostMessage \<and> h \<noteq> H_PostPath"

lemma serve_reads:
  assumes "reads_only h"
  shows "\<exists>r n. serve E H h q s = Ret (r, s\<lparr>clock := clock s + n\<rparr>)"
proof -
  have idle: "\<exists>n. s = s\<lparr>clock := clock s + n\<rparr>" "\<exists>n. tick s = s\<lparr>clock := clock s + n\<rparr>"
    by (auto simp: tick_def intro: exI [of _ 0] exI [of _ 1])
  have "\<exists>r n. handleGetMessagesByKey E b s = (r, s\<lparr>clock := clock s + n\<rparr>)" for b
  proof (cases "handleGetMessagesByKey E b s")
    case (Pair r s')
    then have "\<exists>n. s' = s\<lparr>clock := clock s + n\<rparr>"
      using idle by (auto simp: handleGetMessagesByKey_def dest: read_keys_clock split: sum.splits if_splits)
    with Pair show ?thesis by blast
  qed
  then show ?thesis
    using assms idle
    by (cases h) (auto simp: reads_only_def handleGetMessage_def handleGetAllMessageKeys_def handleGetMembers_def
        split: sum.split)
qed



end
