(* ===== verification/Health.thy ===== *)
theory Health
  imports NodeSystem Publishing
begin

text \<open>
  Keeping paths healthy: which paths are blacklisted and reported, what moving up does, the two ways in which a path
  is replaced, and the states in which the health worker panics.
\<close>

section \<open>The blacklist\<close>

lemma blacklist_fold:
  "set (fold (\<lambda>(k, p) rs. if q p then rs @ [p] else rs) es acc) = set acc \<union> {p \<in> snd ` set es. q p}"
proof (induction es arbitrary: acc)
  case Nil
  then show ?case by simp
next
  case (Cons e es)
  then show ?case by (cases e) auto
qed

lemma set_blacklistPaths:
  assumes "wf_map (paths s)"
  shows "set (blacklistPaths E s) =
     {p. \<exists>k. getValue (paths s) k = Some p \<and> MOVE_UP_REQUIREMENT_FAILURE_THRESHOLD (e_cfg E) \<le> p_failureCount p}"
proof -
  have "set (blacklistPaths E s) =
      {p \<in> snd ` set (range_entries (e_order_uuid E (clock s)) (paths s)).
         MOVE_UP_REQUIREMENT_FAILURE_THRESHOLD (e_cfg E) \<le> p_failureCount p}"
    by (simp add: blacklistPaths_def iterate_def blacklist_fold)
  also have "\<dots> = {p. \<exists>k. getValue (paths s) k = Some p \<and>
      MOVE_UP_REQUIREMENT_FAILURE_THRESHOLD (e_cfg E) \<le> p_failureCount p}"
    using mm.entries_mem [OF assms] by force
  finally show ?thesis .
qed

lemma ofold_panics:
  assumes "x \<in> set xs" and "\<And>s. panics (f x s)"
  shows "panics (ofold f xs s)"
  using assms(1)
proof (induction xs arbitrary: s)
  case Nil
  then show ?case by simp
next
  case (Cons y ys)
  then show ?case
    using assms(2) [of s] by (cases "f y s") auto
qed

lemma panics_obind_left: "panics m \<Longrightarrow> panics (obind m f)"
  by (cases m) auto

lemma uncancellable_panics:
  assumes "wf_map (paths s)" and "getValue (paths s) k = Some p" and "p_cancelFunc p = None"
    and "MOVE_UP_REQUIREMENT_FAILURE_THRESHOLD (e_cfg E) \<le> p_failureCount p"
  shows "panics (maintainPathsHealth E s)"
proof -
  have "p \<in> set (blacklistPaths E s)"
    using assms by (auto simp: set_blacklistPaths)
  then have "panics (ofold (handle_blacklisted E) (blacklistPaths E s) s)"
    by (rule ofold_panics) (simp add: handle_blacklisted_def call_cancel_def assms(3))
  then show ?thesis
    unfolding maintainPathsHealth_def by (rule panics_obind_left)
qed

section \<open>From a fresh node to the panic\<close>

text \<open>
  A node that has become a proxy publishes on its own path; each job that times out counts a failure, until the
  path is blacklisted.
\<close>

definition self_state :: "uuid \<Rightarrow> int \<Rightarrow> state \<Rightarrow> bool" where
  "self_state pid n s \<longleftrightarrow> wf_map (paths s) \<and>
     (\<exists>p. getValue (paths s) pid = Some p \<and> p_uuid p = pid \<and> p_next p = IS \<and> p_cancelFunc p = None \<and>
        p_failureCount p = n)"

definition agreeable :: "env \<Rightarrow> bool" where
  "agreeable E \<longleftrightarrow> NUMBER_OF_COVER_NODES_FOR_PUBLISH (e_cfg E) \<le> 0 \<and> e_ValidateKey E [] [] \<and>
     (\<forall>t. e_Store E t [] [] = Inr True) \<and> (\<forall>t. e_uuid E t \<noteq> uuid_Nil)"

lemma timeout_counts:
  assumes "agreeable E" and "pid \<noteq> uuid_Nil" and "self_state pid n s" and "reach node_start (node_step E) s"
  shows "\<exists>s'. self_state pid (n + 1) s' \<and> reach node_start (node_step E) s'"
proof -
  obtain p where p: "getValue (paths s) pid = Some p" "p_uuid p = pid" "p_next p = IS" "p_cancelFunc p = None"
    "p_failureCount p = n" and wf: "wf_map (paths s)"
    using assms(3) by (auto simp: self_state_def)
  have "getSize (paths s) > 0"
    using p(1) mm.size_zero_iff [OF wf] by auto
  then have "canPublish E s"
    using assms(1) by (simp add: canPublish_def agreeable_def)
  moreover obtain job s1 where rec: "record_job E [] pid ((tick s)\<lparr>stored := stored s @ [([], [])]\<rparr>) = (job, s1)"
    by fastforce
  ultimately have pub: "Publish E [] [] pid s = Ret (Inr job, s1)"
    using assms(1,2) p by (simp add: Publish_def agreeable_def choose_path_def publish_self_def)
  then have reach1: "reach node_start (node_step E) s1"
    using assms(4) by (auto intro: reach_step step_publish)
  have s1: "job_recorded [] job pid ((tick s)\<lparr>stored := stored s @ [([], [])]\<rparr>) s1"
    using record_job_recorded [OF rec] by simp
  let ?job = "\<lparr>j_Key = [], j_Status = PENDING, j_OnPath = pid\<rparr>"
  let ?s' = "finish_task (CheckPublishJobStatusWorker job) (markPublishJobStatus job (?job\<lparr>j_Status := TIMEOUT\<rparr>) s1)"
  have "CheckPublishJobStatusWorker job \<in> set (tasks s1)" "getValue (publishJobs s1) job = Some ?job"
    "paths s1 = paths s"
    using s1 by (simp_all add: job_recorded_def tick_def)
  then have "node_step E s1 ?s'" and "self_state pid (n + 1) ?s'"
    using p wf step_job_done [of job s1 ?job TIMEOUT E]
    by (simp_all add: self_state_def markPublishJobStatus_def Let_def finish_task_def wf_intros job_over_iff)
  with reach1 show ?thesis
    by (auto intro: reach_step)
qed



section \<open>Repairing a path\<close>

text \<open>
  A report to fix a path is applied to the profile that was copied when the path was examined.  Whatever
  happened to the table since (the path's worker removed it and closed its connection, or a publish job counted
  a failure), after the fix the path is in the table again with the old key, the old counters and the old
  cancel function; no other entry is affected.
\<close>

theorem fix_restores_snapshot:
  assumes "i_HandleType report = FIX"
  shows "\<exists>s' p'. handle_invalid report s = Ret s' \<and> paths s' = setValue (paths s) (p_uuid (i_SelfProfile report)) p' \<and>
     p' = (i_SelfProfile report)\<lparr>p_next2 := path_NextHopIP (i_NextHopProfile report),
             p_proxyPublic := path_ProxyPublicKey (i_NextHopProfile report)\<rparr> \<and>
     p_symKey p' = p_symKey (i_SelfProfile report) \<and>
     p_failureCount p' = p_failureCount (i_SelfProfile report) \<and>
     (\<forall>tc conn. tc_Conn tc = Some conn \<and> tc_IP tc = p_next (i_SelfProfile report) \<longrightarrow>
        (\<exists>u. handle_invalid report (sendCover_cleanup tc (i_SelfProfile report) s) = Ret u \<and>
           conn \<in> set (closed u) \<and> getValue (paths u) (p_uuid (i_SelfProfile report)) = Some p'))"
  using assms
  by (auto simp: handle_invalid_def Let_def sendCover_cleanup_def close_conn_def split: option.splits)

theorem fix_restores_snapshot_witness:
  "\<exists>s'. handle_invalid \<lparr>i_SelfProfile = (self_proxy_path 5 [] 0)\<lparr>p_next := ''a''\<rparr>, i_NextHopProfile = zero_Path,
       i_HandleType = FIX\<rparr> node0 = Ret s' \<and> getValue (paths s') 5 \<noteq> None"
  using fix_restores_snapshot [of "\<lparr>i_SelfProfile = (self_proxy_path 5 [] 0)\<lparr>p_next := ''a''\<rparr>,
       i_NextHopProfile = zero_Path, i_HandleType = FIX\<rparr>" node0]
  by (auto simp: self_proxy_path_def)

text \<open>
  The cleanup of a path's worker closes its connection and removes the path only if it still leads to
  the address of that connection.  So a path that is replaced under the same identifier by one through another
  node survives, in whichever order the replacement and the cleanup happen.
\<close>

theorem cleanup_and_replacement_commute:
  assumes "p_uuid old = treeID" and "p_next fresh \<noteq> tc_IP tc_old"
  shows "getValue (paths (sendCover_cleanup tc_old old (install_path fresh tc treeID s))) treeID =
       Some (fresh\<lparr>p_cancelFunc := Some (clock s)\<rparr>) \<and>
    (\<forall>k. getValue (paths (sendCover_cleanup tc_old old (install_path fresh tc treeID s))) k =
         getValue (paths (install_path fresh tc treeID (sendCover_cleanup tc_old old s))) k) \<and>
    closed (sendCover_cleanup tc_old old (install_path fresh tc treeID s)) =
      closed (install_path fresh tc treeID (sendCover_cleanup tc_old old s))"
  using assms
  by (auto simp: sendCover_cleanup_def install_path_def Let_def spawn_def tick_def close_conn_def
      split: option.splits)

theorem cleanup_and_replacement_commute_witness:
  "getValue (paths (sendCover_cleanup \<lparr>tc_Conn = Some 1, tc_Encoder = Some 1, tc_IP = ''a''\<rparr>
      ((self_proxy_path 5 [] 0)\<lparr>p_next := ''a''\<rparr>)
      (install_path ((self_proxy_path 5 [] 0)\<lparr>p_next := ''b''\<rparr>)
         \<lparr>tc_Conn = Some 2, tc_Encoder = Some 2, tc_IP = ''b''\<rparr> 5 node0))) 5 \<noteq> None"
  by (subst cleanup_and_replacement_commute [THEN conjunct1]) (simp_all add: self_proxy_path_def)

section \<open>Moving up\<close>

lemma call_cancel_keeps: "call_cancel f e s = Ret s' \<Longrightarrow> fst ` set (cancelled s) \<subseteq> fst ` set (cancelled s')"
  by (auto simp: call_cancel_def split: option.splits if_splits)

lemma call_cancel_done: "call_cancel (Some c) e s = Ret s' \<Longrightarrow> c \<in> fst ` set (cancelled s')"
  by (auto simp: call_cancel_def map_of_eq_None_iff split: if_splits)

lemma ofold_reaches:
  assumes "ofold f xs s = Ret s'" and "x \<in> set xs"
    and "\<And>u v. f x u = Ret v \<Longrightarrow> P v" and "\<And>y u v. f y u = Ret v \<Longrightarrow> P u \<Longrightarrow> P v"
  shows "P s'"
  using assms(1,2)
proof (induction xs arbitrary: s)
  case Nil
  then show ?case by simp
next
  case (Cons y ys)
  then obtain u where y: "f y s = Ret u" and ys: "ofold f ys u = Ret s'"
    by (auto elim!: obind_RetE)
  show ?case
  proof (cases "x \<in> set ys")
    case True
    with Cons.IH [OF ys] show ?thesis by simp
  next
    case False
    with Cons.prems(2) y have "P u"
      using assms(3) by auto
    with ys show ?thesis
      by (rule ofold_invariant [where I = P]) (use assms(4) in blast)
  qed
qed

lemma cancel_covers_done:
  assumes "cancel_covers_of E k s = Ret s'" and "wf_map (covers s)"
    and "getValue (covers s) ip = Some c" and "c_treeUUID c = k" and "c_cancelFunc c = Some ctx"
  shows "ctx \<in> fst ` set (cancelled s')"
  using assms(1) unfolding cancel_covers_of_def
proof (rule ofold_reaches [where x = "(ip, c)"])
  show "(ip, c) \<in> set (range_entries (e_order_ip E (clock s)) (covers s))"
    using assms(2,3) by (simp add: mm.entries_mem)
  show "ctx \<in> fst ` set (cancelled v)"
    if "(case (ip, c) of (coverIP, coverProfile) \<Rightarrow> \<lambda>s. if c_treeUUID coverProfile = k
         then call_cancel (c_cancelFunc coverProfile) (ErrNew ''deleted during move up'') s else Ret s) u = Ret v" for u v
    using that assms(4,5) by (simp add: call_cancel_done)
  show "ctx \<in> fst ` set (cancelled v)"
    if "(case y of (coverIP, coverProfile) \<Rightarrow> \<lambda>s. if c_treeUUID coverProfile = k
         then call_cancel (c_cancelFunc coverProfile) (ErrNew ''deleted during move up'') s else Ret s) u = Ret v"
      and "ctx \<in> fst ` set (cancelled u)" for y u v
    using that call_cancel_keeps [of "c_cancelFunc (snd y)" _ u v] by (cases y) (auto split: if_splits)
qed

lemma cancel_covers_same:
  assumes "cancel_covers_of E k s = Ret s'"
  shows "same_node s s' \<and> tasks s' = tasks s \<and> clock s' = clock s"
  using assms unfolding cancel_covers_of_def
  by (rule ofold_invariant [where I = "\<lambda>u. same_node s u \<and> tasks u = tasks s \<and> clock u = clock s"])
    (auto simp: call_cancel_def same_node_def node.defs split: if_splits option.splits)



end
