(* ===== verification/Overlay.thy ===== *)
theory Overlay
  imports Forming Publishing NodeSystem Admission Health
begin

text \<open>
  What a node promises to the network around it, without how it does it: the next hop of each path, the tree
  each cover sends into, and the state of each publish job, with a guarded event for each way they change.  The node of
  \<open>NodeSystem\<close>, with its keys, connections, contexts, caches and workers, refines this specification.
\<close>

section \<open>The specification\<close>

record overlay =
  o_routes :: "uuid \<Rightarrow> string option"
  o_covers :: "string \<Rightarrow> uuid option"
  o_jobs :: "uuid \<Rightarrow> PublishJobStatus option"

definition has_room :: "config \<Rightarrow> overlay \<Rightarrow> bool" where
  "has_room C T \<longleftrightarrow> int (card (dom (o_covers T))) < MAXIMUM_NUMBER_OF_COVER_NODES C"

definition anonymous :: "config \<Rightarrow> overlay \<Rightarrow> bool" where
  "anonymous C T \<longleftrightarrow> int (card (dom (o_covers T))) \<ge> NUMBER_OF_COVER_NODES_FOR_PUBLISH C \<and> o_routes T \<noteq> Map.empty"

inductive overlay_step :: "config \<Rightarrow> overlay \<Rightarrow> overlay \<Rightarrow> bool" for C :: config where
  admit: "o_covers T ip = None \<Longrightarrow> has_room C T \<Longrightarrow> o_routes T k \<noteq> None \<Longrightarrow>
    overlay_step C T (T\<lparr>o_covers := (o_covers T)(ip \<mapsto> k)\<rparr>)"
| host: "o_covers T ip = None \<Longrightarrow> has_room C T \<Longrightarrow> IS \<notin> ran (o_routes T) \<Longrightarrow>
    overlay_step C T (T\<lparr>o_routes := (o_routes T)(k \<mapsto> IS), o_covers := (o_covers T)(ip \<mapsto> k)\<rparr>)"
| route: "overlay_step C T (T\<lparr>o_routes := (o_routes T)(k \<mapsto> hop)\<rparr>)"
| lose_route: "overlay_step C T (T\<lparr>o_routes := (o_routes T)(k := None)\<rparr>)"
| lose_cover: "overlay_step C T (T\<lparr>o_covers := (o_covers T)(ip := None)\<rparr>)"
| submit: "anonymous C T \<Longrightarrow> overlay_step C T (T\<lparr>o_jobs := (o_jobs T)(j \<mapsto> PENDING)\<rparr>)"
| finish: "o_jobs T j \<noteq> None \<Longrightarrow> PENDING < st \<Longrightarrow> overlay_step C T (T\<lparr>o_jobs := (o_jobs T)(j \<mapsto> st)\<rparr>)"

definition overlay_start :: "overlay \<Rightarrow> bool" where
  "overlay_start T \<longleftrightarrow> T = \<lparr>o_routes = Map.empty, o_covers = Map.empty, o_jobs = Map.empty\<rparr>"

section \<open>The abstraction\<close>

definition view :: "state \<Rightarrow> overlay" where
  "view s =
     \<lparr>o_routes = (\<lambda>k. map_option p_next (getValue (paths s) k)),
      o_covers = (\<lambda>ip. map_option c_treeUUID (getValue (covers s) ip)),
      o_jobs = (\<lambda>j. map_option j_Status (getValue (publishJobs s) j))\<rparr>"

abbreviation evolves :: "env \<Rightarrow> state \<Rightarrow> state \<Rightarrow> bool" where
  "evolves E s t \<equiv> (overlay_step (e_cfg E))\<^sup>*\<^sup>* (view s) (view t)"

lemma evolves_trans: "evolves E s t \<Longrightarrow> evolves E t u \<Longrightarrow> evolves E s u"
  by (rule rtranclp_trans)

lemma view_tables:
  "paths t = paths s \<Longrightarrow> covers t = covers s \<Longrightarrow> publishJobs t = publishJobs s \<Longrightarrow> view t = view s"
  by (simp add: view_def)

lemma view_same_node: "same_node s t \<Longrightarrow> view t = view s"
  by (rule view_tables) (auto simp: same_node_fields)

lemma view_same_caches: "same_but_caches s t \<Longrightarrow> view t = view s"
  by (rule view_tables) (auto simp: same_but_caches_def)

lemma evolves_same_node: "same_node s t \<Longrightarrow> evolves E s t"
  by (simp add: view_same_node)

lemma dom_covers: "dom (o_covers (view s)) = dom (getValue (covers s))"
  by (auto simp: view_def)

lemma card_covers: "wf_map (covers s) \<Longrightarrow> card (dom (o_covers (view s))) = getSize (covers s)"
  by (simp add: dom_covers mm.size_card)

lemma has_room_view: "wf_map (covers s) \<Longrightarrow> has_room (e_cfg E) (view s) \<longleftrightarrow> \<not> tooManyCovers E s"
  by (auto simp: has_room_def card_covers tooManyCovers_def)

lemma anonymous_view: "wf_map (covers s) \<Longrightarrow> canPublish E s \<Longrightarrow> anonymous (e_cfg E) (view s)"
proof -
  assume wf: "wf_map (covers s)" and can: "canPublish E s"
  then obtain k p m where "paths s = (k, p) # m"
    by (cases "paths s") (auto simp: canPublish_def getSize_def)
  then have "o_routes (view s) k \<noteq> None"
    by (simp add: view_def getValue_def)
  then show ?thesis
    using wf can by (auto simp: anonymous_def card_covers canPublish_def)
qed

section \<open>What changes a table\<close>

lemma view_set_path:
  "view (s\<lparr>paths := setValue (paths s) k p\<rparr>) = (view s)\<lparr>o_routes := (o_routes (view s))(k \<mapsto> p_next p)\<rparr>"
  by (auto simp: view_def fun_eq_iff)

lemma evolves_set_path:
  assumes "paths t = setValue (paths s) k p" and "covers t = covers s" and "publishJobs t = publishJobs s"
  shows "evolves E s t"
proof -
  have "view t = (view s)\<lparr>o_routes := (o_routes (view s))(k \<mapsto> p_next p)\<rparr>"
    using assms by (auto simp: view_def fun_eq_iff)
  then show ?thesis
    by (metis overlay_step.route r_into_rtranclp)
qed

lemma evolves_delete_path:
  assumes "paths t = deleteValue (paths s) k" and "covers t = covers s" and "publishJobs t = publishJobs s"
  shows "evolves E s t"
proof -
  have "view t = (view s)\<lparr>o_routes := (o_routes (view s))(k := None)\<rparr>"
    using assms by (auto simp: view_def fun_eq_iff)
  then show ?thesis
    by (metis overlay_step.lose_route r_into_rtranclp)
qed

lemma evolves_delete_cover:
  assumes "covers t = deleteValue (covers s) ip" and "paths t = paths s" and "publishJobs t = publishJobs s"
  shows "evolves E s t"
proof -
  have "view t = (view s)\<lparr>o_covers := (o_covers (view s))(ip := None)\<rparr>"
    using assms by (auto simp: view_def fun_eq_iff)
  then show ?thesis
    by (metis overlay_step.lose_cover r_into_rtranclp)
qed

lemma evolves_admit:
  assumes "covers t = setValue (covers s) ip c" and "paths t = paths s" and "publishJobs t = publishJobs s"
    and "wf_map (covers s)" and "\<not> tooManyCovers E s" and "getValue (covers s) ip = None"
    and "getValue (paths s) (c_treeUUID c) \<noteq> None"
  shows "evolves E s t"
proof -
  have "view t = (view s)\<lparr>o_covers := (o_covers (view s))(ip \<mapsto> c_treeUUID c)\<rparr>"
    using assms(1-3) by (auto simp: view_def fun_eq_iff)
  moreover have "o_covers (view s) ip = None" "o_routes (view s) (c_treeUUID c) \<noteq> None" "has_room (e_cfg E) (view s)"
    using assms by (auto simp: view_def has_room_view [unfolded view_def])
  ultimately show ?thesis
    by (metis overlay_step.admit r_into_rtranclp)
qed

lemma evolves_host:
  assumes "covers t = setValue (covers s) ip c" and "paths t = setValue (paths s) (c_treeUUID c) p"
    and "p_next p = IS" and "publishJobs t = publishJobs s"
    and "wf_map (covers s)" and "wf_map (paths s)" and "\<not> tooManyCovers E s" and "getValue (covers s) ip = None"
    and "\<not> isProxyAlready E s"
  shows "evolves E s t"
proof -
  have "view t = (view s)\<lparr>o_routes := (o_routes (view s))(c_treeUUID c \<mapsto> IS),
      o_covers := (o_covers (view s))(ip \<mapsto> c_treeUUID c)\<rparr>"
    using assms(1-4) by (auto simp: view_def fun_eq_iff)
  moreover have "o_covers (view s) ip = None" "IS \<notin> ran (o_routes (view s))" "has_room (e_cfg E) (view s)"
    using assms by (auto simp: view_def ran_def has_room_view [unfolded view_def] isProxyAlready_iff)
  ultimately show ?thesis
    by (metis overlay_step.host r_into_rtranclp)
qed

section \<open>The handlers\<close>

lemma answered_same: "write_response E c r s = (e, t) \<Longrightarrow> same_node s (close_conn c' t)"
  by (meson write_response_same same_node_trans close_conn_same(1))

lemma accept_connect_tables:
  assumes "accept_connect E c ip pid fp ex s = Ret (e, s')"
  obtains cov where "covers s' = setValue (covers s) ip cov" "c_treeUUID cov = pid" "paths s' = paths s"
    "publishJobs s' = publishJobs s"
  using assms
  by (auto simp: accept_connect_def answer_exchange_Ret add_cover_def Let_def write_response_def close_conn_def
      spawn_def tick_def elim!: obind_RetE split: option.splits)

lemma accept_proxy_tables:
  assumes "accept_proxy E c ip req s = Ret (e, s')"
  obtains cov p where "covers s' = setValue (covers s) ip cov" "paths s' = setValue (paths s) (c_treeUUID cov) p"
    "p_next p = IS" "publishJobs s' = publishJobs s"
  using assms
  by (auto simp: accept_proxy_def answer_exchange_Ret add_cover_def Let_def write_response_def close_conn_def
      spawn_def tick_def self_proxy_path_def elim!: obind_RetE split: option.splits sum.splits)

lemma handleConnectPathReq_evolves:
  assumes "handleConnectPathReq E conn req s = Ret (e, s')" and "node_inv E s"
  shows "evolves E s s'"
proof -
  have wf: "wf_map (covers s)"
    using assms(2) by (simp add: node_inv_def node_ok_def covers_ok_def)
  have accepted: "evolves E s s'"
    if "accept_connect E c ip pid fp ex s = Ret (e, s')" "getValue (covers s) ip = None" "\<not> tooManyCovers E s"
      "getValue (paths s) pid = Some fp" for c ip pid fp ex
    using that wf by (elim accept_connect_tables) (rule evolves_admit, auto)
  show ?thesis
    using assms(1) unfolding handleConnectPathReq_def
    by (auto split: option.splits sum.splits prod.splits bool.splits
        intro: accepted evolves_same_node [OF close_conn_same(1)] evolves_same_node [OF answered_same])
qed

lemma handleCreateProxyReq_evolves:
  assumes "handleCreateProxyReq E conn req s = Ret (e, s')" and "node_inv E s"
  shows "evolves E s s'"
proof -
  have wf: "wf_map (covers s)" "wf_map (paths s)"
    using assms(2) by (simp_all add: node_inv_def node_ok_def covers_ok_def paths_ok_def)
  have accepted: "evolves E s s'"
    if "accept_proxy E c ip req s = Ret (e, s')" "getValue (covers s) ip = None" "\<not> tooManyCovers E s"
      "\<not> isProxyAlready E s" for c ip
    using that wf by (elim accept_proxy_tables) (rule evolves_host, auto)
  show ?thesis
    using assms(1) unfolding handleCreateProxyReq_def Let_def
    by (auto split: option.splits sum.splits if_splits prod.splits
        intro: evolves_same_node [OF answered_same] dest: accepted)
qed

lemma handleQueryPathReq_same: "same_node s (snd (handleQueryPathReq E c req s))"
proof -
  let ?r = "if getSize (paths s) > 0
         then iterate (QueryPathReq_entry E (qreq_CoverPublicKey req)) (e_order_uuid E (clock s)) (paths s) ([], s)
         else ([], s)"
  have "same_node s (snd (QueryPathReq_entry E pk k v a))" if "same_node s (snd a)" for pk k v a
    using QueryPathReq_entry_same [of "snd a" E pk k v "fst a"] that by (auto intro: same_node_trans)
  then have "same_node s (snd ?r)"
    by (auto intro: iterate_snd_invariant)
  then show ?thesis
    by (auto simp: handleQueryPathReq_def Let_def split: prod.splits intro: same_node_trans answered_same)
qed

lemma handleVerifyCoverReq_same: "same_node s (snd (handleVerifyCoverReq E c req s))"
  by (auto simp: handleVerifyCoverReq_def Let_def split: prod.splits intro: answered_same)

lemma handleConnection_evolves:
  assumes "handleConnection E c m s = Ret s'" and "node_inv E s"
  shows "evolves E s s'"
proof -
  have quiet: "evolves E s (snd (handleQueryPathReq E c q s))" "evolves E s (snd (handleVerifyCoverReq E c v s))" for q v
    by (simp_all add: evolves_same_node handleQueryPathReq_same handleVerifyCoverReq_same)
  show ?thesis
  proof (cases m)
    case (Inl err)
    with assms(1) show ?thesis
      by (auto simp: handleConnection_def intro: evolves_same_node close_conn_same(1))
  next
    case (Inr msg)
    then obtain e where "handleMessage E c msg s = Ret (e, s')"
      using assms(1) by (auto simp: handleConnection_def elim!: obind_RetE)
    with assms(2) quiet show ?thesis
      by (auto simp: handleMessage_def Let_def split: sum.splits if_splits
          dest: handleConnectPathReq_evolves handleCreateProxyReq_evolves) (metis snd_conv)+
  qed
qed

section \<open>Paths\<close>

lemma install_path_evolves: "evolves E s (install_path profile tc k s)"
  by (rule evolves_set_path [OF install_path_paths]) (simp_all add: install_path_def Let_def spawn_def tick_def)

lemma ConnectPath_evolves:
  assumes "ConnectPath E ip treeID s = Ret (r, s')" and "node_inv E s"
  shows "evolves E s s'"
proof -
  obtain resp err where "ConnectPath E ip treeID s = Ret ((resp, err), s')"
    using assms(1) by (cases r) auto
  then show ?thesis
    by (rule ConnectPath_cases [OF _ node_inv_caches_ok [OF assms(2)]])
      (auto simp: view_same_caches intro: install_path_evolves [of E t for t, THEN evolves_trans [rotated]])
qed

lemma CreateProxy_evolves:
  assumes "CreateProxy E ip s = Ret (r, s')"
  shows "evolves E s s'"
proof -
  obtain secret info s1 where ex: "open_exchange E s = Ret (secret, info, s1)"
    using assms unfolding CreateProxy_def by (auto elim!: obind_RetE)
  obtain q s2 where send: "sendCreateProxyRequest E ip info s1 = (q, s2)"
    by fastforce
  have same: "evolves E s s2"
    using open_exchange_same [OF ex] send_same(3) [of s1 E ip info] send
    by (auto intro: evolves_same_node same_node_trans)
  have "s' = s2 \<or> (\<exists>profile tc k. s' = install_path profile tc k s2)"
    using assms ex send
    by (cases q) (fastforce simp: CreateProxy_def elim!: obind_RetE split: sum.splits if_splits)+
  with same show ?thesis
    using install_path_evolves evolves_trans by blast
qed

lemma become_proxy_evolves: "evolves E s (become_proxy E s)"
  by (rule evolves_set_path) (auto simp: become_proxy_def Let_def tick_def)

lemma attempt_path_evolves:
  assumes "attempt_path E members s = Ret s'" and "node_inv E s"
  shows "evolves E s s'"
proof -
  obtain c where c: "rand_Intn (e_draw E (clock s)) (length members) = Ret c"
    using assms(1) by (auto simp: attempt_path_def elim!: obind_RetE)
  obtain r v s1 where q: "QueryPath E (members ! c) (tick s) = Ret (r, v, s1)"
    using assms(1) c by (auto simp: attempt_path_def Let_def elim!: obind_RetE)
  have tick: "node_inv E (tick s)" "view (tick u) = view u" for u
    using assms(2) by (simp_all add: wf_intros view_same_node same_node_runtime)
  then have s1: "node_inv E s1" "node_inv E (tick s1)" "view (tick s1) = view s" "view s1 = view s"
    using QueryPath_inv [OF q tick(1)] QueryPath_ok [OF q node_inv_caches_ok [OF tick(1)]]
      view_same_caches [of "tick s" s1] tick(2) by (simp_all add: wf_intros)
  from assms(1) c q consider
      (connect) ip k r' where "ConnectPath E ip k (tick s1) = Ret (r', s')"
    | (proxy) ip r' where "CreateProxy E ip s1 = Ret (r', s')"
    by (auto simp: attempt_path_def Let_def elim!: obind_RetE split: if_splits)
  then show ?thesis
    using s1 by cases (metis ConnectPath_evolves, metis CreateProxy_evolves)
qed

lemma getMorePaths_loop_evolves:
  "getMorePaths_loop E members rounds s = Ret s' \<Longrightarrow> node_inv E s \<Longrightarrow> evolves E s s'"
proof (induction rounds arbitrary: s)
  case 0
  then show ?case
    by (auto simp: getMorePaths_loop.simps [of E members 0 s] outcome_simps split: if_splits
        intro: attempt_path_evolves)
next
  case (Suc n)
  show ?case
  proof (cases "needMorePaths E s")
    case False
    with Suc.prems show ?thesis
      by (simp add: getMorePaths_loop.simps [of E members "Suc n" s])
  next
    case True
    with Suc.prems obtain s1 where "attempt_path E members s = Ret s1" "getMorePaths_loop E members n s1 = Ret s'"
      by (auto simp: getMorePaths_loop.simps [of E members "Suc n" s] elim!: obind_RetE)
    with Suc show ?thesis
      by (metis attempt_path_evolves attempt_path_inv evolves_trans)
  qed
qed

lemma maintainPathQuantity_evolves:
  assumes "maintainPathQuantity E rounds s = Ret s'" and "node_inv E s"
  shows "evolves E s s'"
proof -
  have tick: "node_inv E (tick s)" "view (tick s) = view s"
    using assms(2) by (simp_all add: wf_intros view_same_node same_node_runtime)
  have "s' = s \<or> s' = tick s \<or> (\<exists>members. getMorePaths_loop E members rounds (tick s) = Ret s')"
    using assms(1) unfolding maintainPathQuantity_def getMorePaths_def
    by (cases "e_GetMembers E (clock s)") (simp_all split: if_splits, blast+)
  then show ?thesis
    using tick getMorePaths_loop_evolves [OF _ tick(1)] by (elim disjE exE) simp_all
qed

lemma MoveUp_evolves:
  assumes "MoveUp E p s = Ret s'" and "node_inv E s"
  shows "evolves E s s'"
proof (cases "p_next2 p = IS")
  case True
  with assms show ?thesis by (simp add: MoveUp_def)
next
  case False
  obtain r s1 where send: "sendVerifyCoverRequest E (p_next2 p) (p_next p) s = (r, s1)"
    by fastforce
  have s1: "node_inv E s1" "view s1 = view s"
    using sendVerify_inv [OF send assms(2)] send_same(2) [of s E "p_next2 p" "p_next p"] send
    by (auto simp: view_same_node)
  have proxy: "evolves E u (become_proxy E w)" if "cancel_covers_of E k u = Ret w" for k u w
    using cancel_covers_same [OF that] become_proxy_evolves [of E w] view_same_node [of u w] by simp
  have "evolves E s1 s'"
    using assms(1) False send s1(1)
    by (auto simp: MoveUp_def elim!: obind_RetE split: sum.splits if_splits
        intro: proxy ConnectPath_evolves evolves_trans [OF ConnectPath_evolves proxy])
  with s1 show ?thesis by simp
qed

section \<open>Messages and jobs\<close>

lemma record_job_view:
  "record_job E key onPath s = (jobID, s') \<Longrightarrow>
   view s' = (view s)\<lparr>o_jobs := (o_jobs (view s))(jobID \<mapsto> PENDING)\<rparr>"
  by (auto simp: record_job_def Let_def spawn_def tick_def view_def fun_eq_iff)

lemma Publish_evolves:
  assumes "Publish E key m target s = Ret (r, s')" and "node_inv E s"
  shows "evolves E s s'"
  using assms(1)
proof (cases rule: Publish_cases)
  case (refused err)
  then show ?thesis
    by (auto simp: untouched_def intro: evolves_same_node)
next
  case (chosen k p s1 s2 jobID)
  have "same_node s s1"
    using choose_path_state [OF chosen(3)] same_node_runtime(1) by auto
  then have "view s2 = view s"
    using publish_act_same [OF chosen(5)] by (auto intro: view_same_node same_node_trans)
  moreover have "anonymous (e_cfg E) (view s)"
    using assms(2) chosen(1) by (intro anonymous_view) (auto simp: node_inv_def node_ok_def covers_ok_def)
  ultimately show ?thesis
    using record_job_view [OF chosen(6)] by (metis overlay_step.submit r_into_rtranclp)
qed

lemma handleApplicationMessage_same:
  assumes "handleApplicationMessage E m c p s = Ret (r, s')"
  shows "same_node s s'"
proof -
  have forward: "same_node s (snd (Forward E a c p s))" for a
    by (auto simp: Forward_def write_message_def tick_def same_node_def node.defs split: sum.splits option.splits)
  have store: "same_node s (snd (store_real E b s))" for b
    by (auto simp: store_real_def Let_def tick_def same_node_def node.defs split: sum.splits)
  have "same_node s (snd (handleRealMessage E a c p s))" for a
    using forward store by (auto simp: handleRealMessage_def split: sum.splits)
  then show ?thesis
    using assms by (auto simp: handleApplicationMessage_def elim!: obind_RetE split: sum.splits if_splits)
      (metis snd_conv)
qed

lemma markPublishJobStatus_evolves:
  assumes "getValue (publishJobs s) jobID = Some job" and "PENDING < st"
  shows "evolves E s (markPublishJobStatus jobID (job\<lparr>j_Status := st\<rparr>) s)"
proof -
  have "view (markPublishJobStatus jobID (job\<lparr>j_Status := st\<rparr>) s) =
      (view s)\<lparr>o_jobs := (o_jobs (view s))(jobID \<mapsto> st)\<rparr>"
    by (auto simp: markPublishJobStatus_def Let_def view_def fun_eq_iff split: option.split)
  moreover have "o_jobs (view s) jobID \<noteq> None"
    using assms(1) by (simp add: view_def)
  ultimately show ?thesis
    using assms(2) by (metis overlay_step.finish r_into_rtranclp)
qed

section \<open>Maintenance\<close>

lemma handle_blacklisted_evolves:
  assumes "handle_blacklisted E p s = Ret s'" and "node_inv E s"
  shows "evolves E s s'"
proof -
  obtain s1 e where cancel: "call_cancel (p_cancelFunc p) e s = Ret s1" and up: "MoveUp E p s1 = Ret s'"
    using assms(1) unfolding handle_blacklisted_def by (auto elim!: obind_RetE)
  have "view s1 = view s"
    using same_node_cancel [OF cancel] by (rule view_same_node)
  with MoveUp_evolves [OF up call_cancel_inv [OF cancel assms(2)]] show ?thesis
    by simp
qed

lemma handle_invalid_evolves:
  assumes "handle_invalid r s = Ret s'"
  shows "evolves E s s'"
proof (cases "i_HandleType r")
  case CLEAN
  with assms same_node_cancel show ?thesis
    by (auto simp: handle_invalid_def intro: evolves_same_node)
next
  case FIX
  with assms show ?thesis
    by (intro evolves_set_path) (auto simp: handle_invalid_def Let_def)
qed

lemma ofold_evolves:
  assumes "ofold f xs s = Ret s'" and "node_inv E s"
    and "\<And>x u v. x \<in> set xs \<Longrightarrow> node_inv E u \<Longrightarrow> f x u = Ret v \<Longrightarrow> node_inv E v \<and> evolves E u v"
  shows "node_inv E s' \<and> evolves E s s'"
  using assms(1)
  by (rule ofold_invariant [where I = "\<lambda>u. node_inv E u \<and> evolves E s u"])
    (use assms(2,3) evolves_trans in blast)+

lemma invalidPathProfiles_same:
  assumes "node_inv E s"
  shows "same_node s (snd (invalidPathProfiles E s))"
  using invalidPathProfiles_inv [OF assms] by (simp add: invalid_inv_def)

lemma maintainPathsHealth_evolves:
  assumes "maintainPathsHealth E s = Ret s'" and "node_inv E s"
  shows "evolves E s s'"
proof -
  obtain s1 where black: "ofold (handle_blacklisted E) (blacklistPaths E s) s = Ret s1"
    using assms(1) unfolding maintainPathsHealth_def by (auto elim!: obind_RetE)
  then have s1: "node_inv E s1" "evolves E s s1"
    using ofold_evolves [OF black assms(2)] handle_blacklisted_inv handle_blacklisted_evolves by blast+
  obtain rs s2 where inv: "invalidPathProfiles E s1 = (rs, s2)"
    by fastforce
  then have s2: "view s2 = view s1"
    using invalidPathProfiles_same [OF s1(1)] by (auto intro: view_same_node)
  have "ofold handle_invalid rs s2 = Ret s'"
    using assms(1) black inv by (simp add: maintainPathsHealth_def)
  then have "evolves E s2 s'"
    by (rule ofold_invariant [where I = "evolves E s2"]) (auto intro: handle_invalid_evolves evolves_trans)
  with s1(2) s2 show ?thesis
    by (metis evolves_trans)
qed

lemma finish_task_view [simp]: "view (finish_task g s) = view s"
  by (rule view_tables) (simp_all add: finish_task_def)

lemma sendCover_cleanup_evolves: "evolves E s (sendCover_cleanup tc p s)"
proof -
  let ?s1 = "if (case getValue (paths s) (p_uuid p) of None \<Rightarrow> '''' | Some q \<Rightarrow> p_next q) = tc_IP tc
                then s\<lparr>paths := deleteValue (paths s) (p_uuid p)\<rparr> else s"
  have "evolves E s ?s1"
    by (auto intro: evolves_delete_path)
  moreover have "view (sendCover_cleanup tc p s) = view ?s1"
    unfolding sendCover_cleanup_def Let_def
    by (cases "tc_Conn tc") (simp_all only: option.case view_same_node [OF close_conn_same(1)])
  ultimately show ?thesis
    by (simp only:)
qed

lemma sendCoverMessageWorker_evolves:
  assumes "sendCoverMessageWorker E ctx tc p s = Ret s'"
  shows "evolves E s s'"
proof -
  obtain continue s1 where round: "sendCover_round E ctx tc p s = Ret (continue, s1)"
    using assms unfolding sendCoverMessageWorker_def by (auto elim!: obind_RetE)
  then have "same_node s s1"
    by (auto simp: sendCover_round_def Let_def write_message_def tick_def same_node_def node.defs
        split: sum.splits option.splits)
  then have "view s1 = view s"
    by (rule view_same_node)
  moreover have "evolves E s1 s'"
    using assms round sendCover_cleanup_evolves by (auto simp: sendCoverMessageWorker_def split: if_splits)
  ultimately show ?thesis
    by simp
qed

lemma handleApplicationMessageWorker_evolves:
  assumes "handleApplicationMessageWorker E ctx conn c p ev s = Ret s'"
  shows "evolves E s s'"
proof (cases "\<exists>m. ev = Received m")
  case True
  with assms have "same_node s s'"
    by (auto simp: handleApplicationMessageWorker_def elim!: obind_RetE dest: handleApplicationMessage_same)
  then show ?thesis
    by (rule evolves_same_node)
next
  case False
  then have "view s' = view (handleApp_cleanup conn c s)"
    using assms by (cases ev) (auto simp: handleApplicationMessageWorker_def)
  moreover have "evolves E s (handleApp_cleanup conn c s)"
    by (rule evolves_delete_cover) (simp_all add: handleApp_cleanup_def close_conn_def)
  ultimately show ?thesis
    by simp
qed

section \<open>The node refines the specification\<close>

lemma node_step_evolves: "node_step E s s' \<Longrightarrow> node_inv E s \<Longrightarrow> evolves E s s'"
proof (induction rule: node_step.induct)
  case (step_job_done jobID s job st)
  then show ?case
    using markPublishJobStatus_evolves by simp
next
  case (step_time s)
  show ?case
    by (rule evolves_same_node [OF same_node_runtime(1)])
qed (auto intro: handleConnection_evolves ConnectPath_evolves become_proxy_evolves Publish_evolves
    maintainPathQuantity_evolves maintainPathsHealth_evolves sendCoverMessageWorker_evolves
    handleApplicationMessageWorker_evolves)

interpretation node_overlay: forward_simulation node_start "node_step E" "node_inv E"
  overlay_start "overlay_step (e_cfg E)" view for E
proof unfold_locales
  have "paths (NewNode L t name) = NewMutexMap" "covers (NewNode L t name) = NewMutexMap"
    "publishJobs (NewNode L t name) = NewMutexMap" for L t name
    by (simp_all add: NewNode_def Let_def split: prod.split)
  then show "overlay_start (view s)" if "node_start s" for s
    using that by (auto simp: node_start_def overlay_start_def view_def)
qed (rule node_step_evolves)

text \<open>
  Property C2: the node refines its specification.  Whatever a reachable node does in one operation is, on the tables
  the network sees, a finite sequence of guarded events: a cover is admitted only where there is room, and to a tree the
  node has; the node becomes a proxy on request only where it is none; a job appears only while there are covers
  enough and a path.  So every reachable node shows a reachable state of the specification.
\<close>

theorem node_refines_overlay:
  assumes "reach node_start (node_step E) s"
  shows "reach overlay_start (overlay_step (e_cfg E)) (view s) \<and>
    (\<forall>s'. node_step E s s' \<longrightarrow> (overlay_step (e_cfg E))\<^sup>*\<^sup>* (view s) (view s'))"
  using node_overlay.refines [OF assms] node_overlay.refines_step [OF assms] by blast

theorem node_refines_overlay_witness:
  "(overlay_step sample_cfg)\<^sup>*\<^sup>* (view node0) (view (become_proxy sample_env node0))"
proof -
  have "reach node_start (node_step sample_env) node0"
    by (rule reach_init) (auto simp: node_start_def node0_def)
  from node_refines_overlay [OF this] step_become_proxy show ?thesis
    by (auto simp: sample_env_def)
qed

end
