(* ===== verification/FormingRace.thy ===== *)
theory FormingRace
  imports Forming Transitions
begin

text \<open>
  Attempts to form a path that outlive their round.  \<open>getMorePaths\<close> runs each attempt in a goroutine and waits for it or
  for its timer; when the timer fires it returns, the attempt goes on, and the quantity worker starts over after its
  pause.  A step runs the table changes of an attempt at the moment it completes; the node's other goroutines
  may remove paths in between.
\<close>

record forming =
  fm_node :: state
  fm_waiting :: bool
  fm_late :: nat

inductive form_step :: "env \<Rightarrow> string list \<Rightarrow> nat \<Rightarrow> forming \<Rightarrow> forming \<Rightarrow> bool"
  for E :: env and members :: "string list" and n :: nat where
  begin_attempt: "\<not> fm_waiting r \<Longrightarrow> needMorePaths E (fm_node r) \<Longrightarrow> form_step E members n r (r\<lparr>fm_waiting := True\<rparr>)"
| attempt_done: "fm_waiting r \<Longrightarrow> attempt_path E members (fm_node r) = Ret s \<Longrightarrow>
    form_step E members n r (r\<lparr>fm_waiting := False, fm_node := s\<rparr>)"
| attempt_timeout: "fm_waiting r \<Longrightarrow> fm_late r < n \<Longrightarrow>
    form_step E members n r (r\<lparr>fm_waiting := False, fm_late := Suc (fm_late r)\<rparr>)"
| late_done: "fm_late r = Suc k \<Longrightarrow> attempt_path E members (fm_node r) = Ret s \<Longrightarrow>
    form_step E members n r (r\<lparr>fm_late := k, fm_node := s\<rparr>)"
| path_removed: "form_step E members n r (r\<lparr>fm_node := (fm_node r)\<lparr>paths := deleteValue (paths (fm_node r)) k\<rparr>\<rparr>)"
| other_time: "form_step E members n r (r\<lparr>fm_node := tick (fm_node r)\<rparr>)"

definition form_start :: "env \<Rightarrow> forming \<Rightarrow> bool" where
  "form_start E r \<longleftrightarrow> \<not> fm_waiting r \<and> fm_late r = 0 \<and> node_inv E (fm_node r) \<and>
     int (getSize (paths (fm_node r))) \<le> TARGET_NUMBER_OF_CONNECTED_PATHS (e_cfg E)"

definition form_inv :: "env \<Rightarrow> nat \<Rightarrow> forming \<Rightarrow> bool" where
  "form_inv E n r \<longleftrightarrow> node_inv E (fm_node r) \<and> fm_late r \<le> n \<and>
     int (getSize (paths (fm_node r))) + int (fm_late r) + of_bool (fm_waiting r) \<le>
       TARGET_NUMBER_OF_CONNECTED_PATHS (e_cfg E) + int n"

lemma attempt_size:
  assumes "attempt_path E members s = Ret s'" and "node_inv E s"
  shows "node_inv E s' \<and> getSize (paths s') \<le> Suc (getSize (paths s))"
proof -
  have "wf_map (paths s)" "caches_ok s"
    using assms(2) by (simp_all add: node_inv_def node_ok_def paths_ok_def caches_ok_def)
  then show ?thesis
    using one_more_size attempt_path_one_more [OF assms(1)] attempt_path_inv [OF assms] by blast
qed

lemma form_inv_step:
  assumes "form_inv E n r" and "form_step E members n r r'"
  shows "form_inv E n r'"
  using assms(2)
proof (cases rule: form_step.cases)
  case begin_attempt
  then show ?thesis
    using assms(1) by (simp add: form_inv_def needMorePaths_def)
next
  case (attempt_done s)
  with assms(1) attempt_size [OF attempt_done(3)] show ?thesis
    by (simp add: form_inv_def)
next
  case attempt_timeout
  then show ?thesis
    using assms(1) by (simp add: form_inv_def)
next
  case (late_done k s)
  with assms(1) attempt_size [OF late_done(3)] show ?thesis
    by (simp add: form_inv_def)
next
  case (path_removed k)
  let ?s = "(fm_node r)\<lparr>paths := deleteValue (paths (fm_node r)) k\<rparr>"
  have "wf_map (paths (fm_node r))"
    using assms(1) by (simp add: form_inv_def node_inv_def node_ok_def paths_ok_def)
  then have "getSize (paths ?s) \<le> getSize (paths (fm_node r))"
    by (simp add: mm.size_drop)
  moreover have "node_inv E ?s"
    using assms(1)
    by (auto simp: form_inv_def node_inv_def node_ok_def connected_ok_def covers_bounded_def intro: wf_intros)
  ultimately show ?thesis
    using assms(1) path_removed by (simp add: form_inv_def)
next
  case other_time
  moreover have "paths (tick s) = paths s" for s
    by (simp add: tick_def)
  ultimately show ?thesis
    using assms(1) by (simp add: form_inv_def tick_inv)
qed

interpretation forming: inductive_invariant "form_start E" "form_step E members n" "form_inv E n" for E members n
proof unfold_locales
  show "form_inv E n r" if "form_start E r" for r
    using that by (simp add: form_start_def form_inv_def)
qed (rule form_inv_step)

text \<open>
  With at most \<open>n\<close> attempts left running at a time, a node that starts within its target never has more than
  \<open>n\<close> paths above it, in any interleaving of the worker, the late attempts and removals; without late attempts
  the target is kept.
\<close>

theorem late_attempts_bounded:
  assumes "reach (form_start E) (form_step E members n) r"
  shows "int (getSize (paths (fm_node r))) + int (fm_late r) \<le> TARGET_NUMBER_OF_CONNECTED_PATHS (e_cfg E) + int n"
  using forming.reachable_inv [OF assms] by (cases "fm_waiting r") (simp_all add: form_inv_def)

section \<open>The target is exceeded\<close>

lemma all_late:
  assumes "form_start E \<lparr>fm_node = s, fm_waiting = False, fm_late = 0\<rparr>" and "needMorePaths E s" and "k \<le> n"
  shows "reach (form_start E) (form_step E members n) \<lparr>fm_node = s, fm_waiting = False, fm_late = k\<rparr>"
  using assms(3)
proof (induction k)
  case 0
  from assms(1) show ?case by (rule reach_init)
next
  case (Suc k)
  let ?r = "\<lparr>fm_node = s, fm_waiting = False, fm_late = k\<rparr>"
  let ?w = "?r\<lparr>fm_waiting := True\<rparr>"
  have "form_step E members n ?r ?w"
    by (rule begin_attempt) (simp_all add: assms(2))
  then have w: "reach (form_start E) (form_step E members n) ?w"
    by (rule reach_step [rotated]) (use Suc in simp)
  have "form_step E members n ?w (?w\<lparr>fm_waiting := False, fm_late := Suc (fm_late ?w)\<rparr>)"
    by (rule attempt_timeout) (use Suc in simp_all)
  from reach_step [OF w this] show ?case by simp
qed

lemma late_complete:
  assumes "reach init (form_step E members n) \<lparr>fm_node = run 0, fm_waiting = False, fm_late = k\<rparr>"
    and "\<forall>i < k. attempt_path E members (run i) = Ret (run (Suc i))" and "i \<le> k"
  shows "reach init (form_step E members n) \<lparr>fm_node = run i, fm_waiting = False, fm_late = k - i\<rparr>"
  using assms(3)
proof (induction i)
  case 0
  from assms(1) show ?case by simp
next
  case (Suc i)
  let ?r = "\<lparr>fm_node = run i, fm_waiting = False, fm_late = k - i\<rparr>"
  have r: "reach init (form_step E members n) ?r"
    using Suc by simp
  have "form_step E members n ?r (?r\<lparr>fm_late := k - Suc i, fm_node := run (Suc i)\<rparr>)"
    by (rule late_done) (use Suc assms(2) in simp_all)
  from reach_step [OF r this] show ?case by simp
qed

text \<open>
  Property C20: the target bounds nothing once attempts time out.  If \<open>k\<close> attempts in a row would each succeed in adding a
  path, a node that lacks a path can start all of them, let each time out, and end with \<open>k\<close> more paths than it had,
  however many it lacked.
\<close>

theorem late_attempts_exceed_target:
  assumes "node_inv E (run 0)" and "needMorePaths E (run 0)"
    and "\<forall>i < k. attempt_path E members (run i) = Ret (run (Suc i)) \<and>
           getSize (paths (run (Suc i))) = Suc (getSize (paths (run i)))"
  shows "\<exists>r. reach (form_start E) (form_step E members k) r \<and> \<not> fm_waiting r \<and> fm_late r = 0 \<and>
     getSize (paths (fm_node r)) = getSize (paths (run 0)) + k"
proof -
  have "form_start E \<lparr>fm_node = run 0, fm_waiting = False, fm_late = 0\<rparr>"
    using assms(1,2) by (simp add: form_start_def needMorePaths_def)
  then have "reach (form_start E) (form_step E members k) \<lparr>fm_node = run 0, fm_waiting = False, fm_late = k\<rparr>"
    by (rule all_late) (simp_all add: assms(2))
  from late_complete [where run = run and i = k, OF this] assms(3)
  have "reach (form_start E) (form_step E members k) \<lparr>fm_node = run k, fm_waiting = False, fm_late = 0\<rparr>"
    by simp
  moreover have "i \<le> k \<longrightarrow> getSize (paths (run i)) = getSize (paths (run 0)) + i" for i
  proof (induction i)
    case 0
    then show ?case by simp
  next
    case (Suc i)
    moreover have "Suc i \<le> k \<Longrightarrow> getSize (paths (run (Suc i))) = Suc (getSize (paths (run i)))"
      using assms(3) by (metis Suc_le_lessD)
    ultimately show ?case by linarith
  qed
  then have "getSize (paths (run k)) = getSize (paths (run 0)) + k"
    by blast
  ultimately show ?thesis
    by (intro exI [of _ "\<lparr>fm_node = run k, fm_waiting = False, fm_late = 0\<rparr>"]) simp
qed

section \<open>An evaluated run\<close>

text \<open>A peer that has no path to offer and becomes a proxy whenever it is asked, under a fresh identifier.\<close>

definition willing_env :: env where
  "willing_env = sample_env\<lparr>e_cfg := sample_cfg\<lparr>TARGET_NUMBER_OF_CONNECTED_PATHS := 1\<rparr>,
     e_draw := \<lambda>t. 0,
     e_arrival := \<lambda>t ip m.
       (case (if pm_Type m = QueryPathRequest
              then enc_QueryPathResp field_gob \<lparr>qresp_ParentPublicKey = [8], qresp_Paths = []\<rparr>
              else enc_CreateProxyResp field_gob \<lparr>xresp_Accepted = True, xresp_ProxyKeyExchange = half_exchange,
                xresp_ProxyPublicKey = [8], xresp_EncryptedTreeUUID = frame [7] @ uuid_bytes (word_of_nat t)\<rparr>) of
          Inl err \<Rightarrow> ReadFailed err | Inr bs \<Rightarrow> Arrived bs)\<rparr>"

lemma willing_attempt:
  assumes "publicKey s = [7]" and "privateKey s = [7]"
  shows "\<exists>s' p t. attempt_path willing_env [''10.0.0.8''] s = Ret s' \<and>
     paths s' = setValue (paths s) (word_of_nat t) p \<and> clock s \<le> t \<and> t < clock s' \<and> clock s' = clock s + 7 \<and>
     publicKey s' = [7] \<and> privateKey s' = [7]"
proof -
  obtain qm where qm: "enc_QueryPathReq field_gob \<lparr>qreq_CoverPublicKey = [7]\<rparr> = Inr qm"
    by (simp add: field_gob_def as_fields_def)
  obtain qb where qb: "enc_QueryPathResp field_gob \<lparr>qresp_ParentPublicKey = [8], qresp_Paths = []\<rparr> = Inr qb"
    by (simp add: field_gob_def as_fields_def)
  have xm: "\<exists>m. enc_CreateProxyReq field_gob r = Inr m" for r
    by (simp add: field_gob_def as_fields_def)
  have xb: "\<exists>m. enc_CreateProxyResp field_gob r = Inr m" for r
    by (simp add: field_gob_def as_fields_def)
  have E: "e_lib willing_env = sample_lib" "e_gob willing_env = field_gob" "e_dial willing_env t l a = None"
    "e_write willing_env t c = None" "e_draw willing_env t = 0" for t l a c
    by (simp_all add: willing_env_def)
  have tree: "DecryptUUID sample_lib (frame [7] @ uuid_bytes u) [7] = Inr u" for u
    by (rule uuid_open [of _ "[7]" _ 0]) (simp_all add: sample_lib_laws)
  let ?t = "clock s + 1"
  obtain s1 where q: "QueryPath willing_env ''10.0.0.8'' (tick s) = Ret (Inr \<lparr>qresp_ParentPublicKey = [8], qresp_Paths = []\<rparr>, [], s1)"
    "paths s1 = paths s" "clock s1 = clock s + 2" "publicKey s1 = [7]" "privateKey s1 = [7]"
    using qm gob_decode(2) [OF field_gob_correct qb] assms qb
    by (simp add: QueryPath_def sendQueryPathRequest_def tcpSendAndWaitResponse_def waitForResponse_def Let_def E
        tick_def close_conn_def) (simp add: willing_env_def)
  obtain ex where ex: "open_exchange willing_env s1 = Ret (1, ex, s1\<lparr>clock := clock s + 5\<rparr>)"
  proof -
    obtain ex where "NewKeyExchange sample_lib (Suc (clock s1)) (Suc 0) = Ret (ex, Suc (clock s1) + 2)"
      by (cases "even (clock s1)") (auto simp: NewKeyExchange_eq sample_lib_def big_Exp_def)
    with q(3) that show ?thesis
      by (simp add: open_exchange_def E)
  qed
  let ?t = "clock s + 5"
  let ?resp = "\<lparr>xresp_Accepted = True, xresp_ProxyKeyExchange = half_exchange, xresp_ProxyPublicKey = [8],
      xresp_EncryptedTreeUUID = frame [7] @ uuid_bytes (word_of_nat ?t)\<rparr>"
  obtain m where m: "enc_CreateProxyReq field_gob \<lparr>xreq_CoverPublicKey = [7], xreq_CoverKeyExchange = ex\<rparr> = Inr m"
    using xm by blast
  obtain b where b: "enc_CreateProxyResp field_gob ?resp = Inr b"
    using xb by blast
  have arr: "e_arrival willing_env ?t ''10.0.0.8'' \<lparr>pm_Type = CreateProxyRequest, pm_Content = m\<rparr> = Arrived b"
    using b by (simp add: willing_env_def message_types)
  let ?path = "\<lparr>p_uuid = word_of_nat ?t, p_next = ''10.0.0.8'', p_next2 = IS, p_proxyPublic = [8], p_symKey = 2 ^ 255,
      p_successCount = 0, p_failureCount = 0, p_cancelFunc = Some (6 + clock s)\<rparr>"
  obtain r s2 where x: "CreateProxy willing_env ''10.0.0.8'' s1 = Ret (r, s2)"
    "paths s2 = setValue (paths s) (word_of_nat ?t) ?path" "clock s2 = clock s + 7"
    "publicKey s2 = [7]" "privateKey s2 = [7]"
    using q m arr gob_decode(8) [OF field_gob_correct b] ex tree
    by (simp add: CreateProxy_def sendCreateProxyRequest_def tcpSendAndWaitResponse_def waitForResponse_def Let_def E
        install_path_def tick_def spawn_def)
  have "attempt_path willing_env [''10.0.0.8''] s = Ret s2"
    using q x by (simp add: attempt_path_def rand_Intn_def E)
  with x show ?thesis
    by (intro exI [of _ s2] exI [of _ ?path] exI [of _ ?t]) simp
qed

theorem late_attempts_exceed_target_witness:
  "\<exists>r. reach (form_start willing_env) (form_step willing_env [''10.0.0.8''] 2) r \<and>
     int (getSize (paths (fm_node r))) = TARGET_NUMBER_OF_CONNECTED_PATHS (e_cfg willing_env) + 1"
proof -
  obtain s1 p1 t1 where s1: "attempt_path willing_env [''10.0.0.8''] node0 = Ret s1"
    "paths s1 = setValue (paths node0) (word_of_nat t1) p1" "clock node0 \<le> t1" "t1 < clock s1" "clock s1 = clock node0 + 7"
    "publicKey s1 = [7]" "privateKey s1 = [7]"
    using willing_attempt [of node0] by auto
  obtain s2 p2 t2 where s2: "attempt_path willing_env [''10.0.0.8''] s1 = Ret s2"
    "paths s2 = setValue (paths s1) (word_of_nat t2) p2" "clock s1 \<le> t2" "t2 < clock s1 + 7"
    using willing_attempt [OF s1(6,7)] by auto
  have "word_of_nat t2 \<noteq> (word_of_nat t1 :: uuid)"
    using s1(3-5) s2(3,4) by (simp add: word_of_nat_eq_iff take_bit_nat_eq_self)
  then have sizes: "getSize (paths s1) = 1" "getSize (paths s2) = 2"
    using s1(2) s2(2) by (simp_all add: setValue_def getSize_def)
  let ?run = "\<lambda>i. if i = 0 then node0 else if i = 1 then s1 else s2"
  have each: "\<forall>i < 2. attempt_path willing_env [''10.0.0.8''] (?run i) = Ret (?run (Suc i)) \<and>
      getSize (paths (?run (Suc i))) = Suc (getSize (paths (?run i)))"
    using s1(1) s2(1) sizes by (auto simp: less_2_cases_iff getSize_def)
  have "node_inv willing_env (?run 0)" "needMorePaths willing_env (?run 0)"
    by (simp_all add: node0_def node_inv_NewNode)
      (simp add: needMorePaths_def willing_env_def getSize_def flip: node0_def)
  from late_attempts_exceed_target [where run = ?run, OF this each] show ?thesis
    by (auto simp: willing_env_def getSize_def)
qed

theorem late_attempts_bounded_witness:
  "int (getSize (paths node0)) \<le> TARGET_NUMBER_OF_CONNECTED_PATHS (e_cfg willing_env) + 2"
proof -
  let ?r = "\<lparr>fm_node = node0, fm_waiting = False, fm_late = 0\<rparr>"
  have "form_start willing_env ?r"
    using node_inv_NewNode [of willing_env sample_lib 7 "''n''"]
    by (simp add: form_start_def willing_env_def getSize_def flip: node0_def)
  then have "reach (form_start willing_env) (form_step willing_env [] 2) ?r"
    by (rule reach_init)
  from late_attempts_bounded [OF this] show ?thesis
    by simp
qed

end
