(* ===== verification/Neighbour.thy ===== *)
theory Neighbour
  imports Forming
begin

text \<open>
  A node asking another one for its paths: \<open>handleQueryPathReq\<close> on one side, \<open>sendQueryPathRequest\<close> and the health check on
  the other.
\<close>

section \<open>The answer\<close>

definition understood :: "lib \<Rightarrow> bytes \<Rightarrow> Path \<Rightarrow> (go_error + uuid) \<times> string \<times> string \<times> bytes" where
  "understood L priv q =
     (DecryptUUID L (path_EncryptedTreeUUID q) priv, path_NextHopIP q, path_NextNextHopIP q, path_ProxyPublicKey q)"

definition told :: "uuid \<times> PathProfile \<Rightarrow> (go_error + uuid) \<times> string \<times> string \<times> bytes" where
  "told entry = (case entry of (k, p) \<Rightarrow> (Inr k, p_next p, p_next2 p, p_proxyPublic p))"

definition seals_for :: "lib \<Rightarrow> bytes \<Rightarrow> bool" where
  "seals_for L pub \<longleftrightarrow> (\<forall>t u. \<exists>c. EncryptUUID L t u pub = Inr c)"

lemma QueryPathReq_fold:
  assumes "ecc_pair (e_lib E) pub priv" and "uuid_lib_correct (e_lib E)" and "seals_for (e_lib E) pub"
    and "\<forall>(k, p) \<in> set es. p_uuid p = k"
  shows "\<exists>qs n. fold (\<lambda>(k, p). QueryPathReq_entry E pub k p) es (ps, s) = (ps @ qs, s\<lparr>clock := clock s + n\<rparr>) \<and>
     map (understood (e_lib E) priv) qs = map told es"
  using assms(4)
proof (induction es arbitrary: ps s)
  case Nil
  then show ?case
    by (auto intro: exI [of _ 0])
next
  case (Cons e es)
  obtain k p where e: "e = (k, p)" "p_uuid p = k"
    using Cons.prems by (cases e) auto
  obtain c where c: "EncryptUUID (e_lib E) (clock s) k pub = Inr c"
    using assms(3) by (auto simp: seals_for_def)
  let ?q = "\<lparr>path_EncryptedTreeUUID = c, path_NextHopIP = p_next p, path_NextNextHopIP = p_next2 p,
      path_ProxyPublicKey = p_proxyPublic p\<rparr>"
  have "understood (e_lib E) priv ?q = told e"
    using uuid_open [OF assms(1,2) c] e by (simp add: understood_def told_def)
  moreover have "QueryPathReq_entry E pub k p (ps, s) = (ps @ [?q], tick s)"
    using c e by (simp add: QueryPathReq_entry_def)
  moreover obtain qs n where
    "fold (\<lambda>(k, p). QueryPathReq_entry E pub k p) es (ps @ [?q], tick s) =
       ((ps @ [?q]) @ qs, (tick s)\<lparr>clock := clock (tick s) + n\<rparr>)"
    "map (understood (e_lib E) priv) qs = map told es"
    using Cons.IH [of "ps @ [?q]" "tick s"] Cons.prems by auto
  ultimately show ?case
    using e by (intro exI [of _ "?q # qs"] exI [of _ "Suc n"]) (simp add: tick_def)
qed

lemma handleQueryPathReq_answer:
  assumes "ecc_pair (e_lib E) pub priv" and "uuid_lib_correct (e_lib E)" and "seals_for (e_lib E) pub"
    and "paths_ok (paths s)"
    and "handleQueryPathReq E c \<lparr>qreq_CoverPublicKey = pub\<rparr> s = (None, s')"
  shows "\<exists>qs. responses s' = responses s @ [(in_conn c, RespQueryPath \<lparr>qresp_ParentPublicKey = publicKey s, qresp_Paths = qs\<rparr>)] \<and>
     map (understood (e_lib E) priv) qs = map told (range_entries (e_order_uuid E (clock s)) (paths s))"
proof -
  have wf: "wf_map (paths s)" and keyed: "getValue (paths s) k = Some p \<Longrightarrow> p_uuid p = k" for k p
    using assms(4) by (auto simp: paths_ok_def)
  let ?es = "range_entries (e_order_uuid E (clock s)) (paths s)"
  have "\<forall>(k, p) \<in> set ?es. p_uuid p = k"
    using keyed by (auto simp: mm.entries_mem [OF wf])
  from QueryPathReq_fold [OF assms(1-3) this, of "[]" s] obtain qs n where
    run: "iterate (QueryPathReq_entry E pub) (e_order_uuid E (clock s)) (paths s) ([], s) = (qs, s\<lparr>clock := clock s + n\<rparr>)"
    and qs: "map (understood (e_lib E) priv) qs = map told ?es"
    unfolding iterate_def by auto
  have empty: "?es = []" if "\<not> getSize (paths s) > 0"
    using that mm.entries_length [OF wf, of "e_order_uuid E (clock s)"] by simp
  obtain u u' where "write_response E (in_conn c) (RespQueryPath \<lparr>qresp_ParentPublicKey = publicKey s,
      qresp_Paths = qs\<rparr>) u = (None, u')" "responses u = responses s" "s' = close_conn (in_conn c) u'"
  proof (cases "getSize (paths s) > 0")
    case True
    with assms(5) run that show ?thesis
      by (auto simp: handleQueryPathReq_def Let_def split: prod.splits)
  next
    case False
    with assms(5) qs empty that show ?thesis
      by (auto simp: handleQueryPathReq_def Let_def split: prod.splits)
  qed
  then show ?thesis
    using qs by (auto simp: write_response_def close_conn_def tick_def split: option.splits)
qed

text \<open>
  The answer to a query tells the requester every path of the node, under its identifier, with its hops and
  its proxy's key, each once and nothing else, in whatever order the table is visited; only the requester's private
  key is needed to read the identifiers.
\<close>

theorem queried_paths_understood:
  assumes "ecc_pair (e_lib E) pub priv" and "uuid_lib_correct (e_lib E)" and "seals_for (e_lib E) pub"
    and "paths_ok (paths s)"
    and "handleQueryPathReq E c \<lparr>qreq_CoverPublicKey = pub\<rparr> s = (None, s')"
  shows "\<exists>qs. responses s' = responses s @ [(in_conn c, RespQueryPath \<lparr>qresp_ParentPublicKey = publicKey s, qresp_Paths = qs\<rparr>)] \<and>
     length qs = getSize (paths s) \<and> distinct (map (understood (e_lib E) priv) qs) \<and>
     (\<forall>k hop hop2 key. (Inr k, hop, hop2, key) \<in> set (map (understood (e_lib E) priv) qs) \<longleftrightarrow>
        (\<exists>p. getValue (paths s) k = Some p \<and> p_next p = hop \<and> p_next2 p = hop2 \<and> p_proxyPublic p = key))"
proof -
  have wf: "wf_map (paths s)"
    using assms(4) by (simp add: paths_ok_def)
  let ?es = "range_entries (e_order_uuid E (clock s)) (paths s)"
  obtain qs where sent: "responses s' = responses s @ [(in_conn c, RespQueryPath \<lparr>qresp_ParentPublicKey = publicKey s, qresp_Paths = qs\<rparr>)]"
    and qs: "map (understood (e_lib E) priv) qs = map told ?es"
    using handleQueryPathReq_answer [OF assms] by blast
  have "length qs = getSize (paths s)"
    using arg_cong [OF qs, of length] mm.entries_length [OF wf] by simp
  moreover have "distinct (map told ?es)"
  proof (rule distinct_map [THEN iffD2], intro conjI)
    show "distinct ?es"
      using mm.entries_distinct [OF wf] by (simp add: distinct_map)
    show "inj_on told (set ?es)"
      using mm.entries_mem [OF wf] by (auto simp: inj_on_def told_def)
  qed
  moreover have "(Inr k, hop, hop2, key) \<in> set (map told ?es) \<longleftrightarrow>
      (\<exists>p. getValue (paths s) k = Some p \<and> p_next p = hop \<and> p_next2 p = hop2 \<and> p_proxyPublic p = key)" for k hop hop2 key
    using mm.entries_mem [OF wf] by (force simp: told_def)
  ultimately show ?thesis
    using sent qs by (metis (no_types, lifting))
qed

theorem queried_paths_understood_witness:
  "\<exists>qs s'. handleQueryPathReq sample_env caller \<lparr>qreq_CoverPublicKey = [9]\<rparr> proxy_node = (None, s') \<and>
     length qs = 1 \<and> (Inr 5, IS, '''', [7]) \<in> set (map (understood sample_lib [9]) qs)"
proof -
  obtain s' where run: "handleQueryPathReq sample_env caller \<lparr>qreq_CoverPublicKey = [9]\<rparr> proxy_node = (None, s')"
    by (simp add: handleQueryPathReq_def Let_def write_response_def case_prod_beta)
  have "seals_for sample_lib [9]" "paths_ok (paths proxy_node)"
    by (auto simp: seals_for_def paths_ok_def wf_map_def getValue_def self_proxy_path_def split: if_splits)
  with queried_paths_understood [of sample_env "[9]" "[9]" proxy_node caller, OF _ _ _ _ run]
  obtain qs where "length qs = getSize (paths proxy_node)"
    "(Inr 5, IS, '''', [7]) \<in> set (map (understood sample_lib [9]) qs) \<longleftrightarrow>
      (\<exists>p. getValue (paths proxy_node) 5 = Some p \<and> p_next p = IS \<and> p_next2 p = '''' \<and> p_proxyPublic p = [7])"
    by (simp only: sample_env_fields sample_lib_laws) blast
  with run show ?thesis
    by (intro exI [of _ qs] exI [of _ s']) (simp add: getSize_def getValue_def self_proxy_path_def)
qed

section \<open>The health check against the next hop's own tables\<close>

lemma query_arrived:
  assumes "sendQueryPathRequest E ip s = (Inr resp, s')"
  obtains t m bs where "enc_QueryPathReq (e_gob E) \<lparr>qreq_CoverPublicKey = publicKey s\<rparr> = Inr m"
    "e_arrival E t ip \<lparr>pm_Type = QueryPathRequest, pm_Content = m\<rparr> = Arrived bs"
    "dec_QueryPathResp (e_gob E) bs = Inr resp"
  using assms
  by (auto simp: sendQueryPathRequest_def tcpSendAndWaitResponse_def waitForResponse_def Let_def
      split: sum.splits option.splits arrival.splits)

lemma query_answer_Arrived:
  assumes "answer_of E c p \<lparr>pm_Type = QueryPathRequest, pm_Content = m\<rparr> = Arrived bs"
    and "gob_correct (e_gob E)" and "enc_QueryPathReq (e_gob E) req = Inr m"
  obtains p' r where "handleQueryPathReq E c req p = (None, p')"
    "map snd (drop (length (responses p)) (responses p')) = [RespQueryPath r]"
    "enc_QueryPathResp (e_gob E) r = Inr bs"
  using assms(1) gob_decode(1) [OF assms(2,3)] by (elim answered_query) (auto intro: that)

lemma find_understood:
  assumes "map (understood L priv) qs = map told es" and "distinct (map fst es)"
  shows "case find (\<lambda>q. DecryptUUID L (path_EncryptedTreeUUID q) priv = Inr k) qs of
      None \<Rightarrow> map_of es k = None
    | Some q \<Rightarrow> \<exists>p. map_of es k = Some p \<and> path_NextHopIP q = p_next p \<and> path_ProxyPublicKey q = p_proxyPublic p"
  using assms
proof (induction qs arbitrary: es)
  case Nil
  then show ?case by simp
next
  case (Cons q qs)
  then obtain e es' where es: "es = e # es'" "understood L priv q = told e" "map (understood L priv) qs = map told es'"
    by (cases es) auto
  obtain j p where e: "e = (j, p)"
    by (cases e)
  show ?case
    using Cons.IH [OF es(3)] Cons.prems(2) es(1,2) e
    by (auto simp: understood_def told_def split: option.splits)
qed

text \<open>What a requester understands of an answer that the other node's handler gave is that node's table.\<close>

lemma queried_answer:
  assumes "gob_correct (e_gob E)" and "e_gob E' = e_gob E" and "e_lib E' = e_lib E"
    and "ecc_pair (e_lib E) (publicKey s) (privateKey s)" and "uuid_lib_correct (e_lib E)"
    and "seals_for (e_lib E) (publicKey s)" and "paths_ok (paths p)"
    and "\<forall>t m. e_arrival E t ip \<lparr>pm_Type = QueryPathRequest, pm_Content = m\<rparr> =
           answer_of E' c p \<lparr>pm_Type = QueryPathRequest, pm_Content = m\<rparr>"
    and "sendQueryPathRequest E ip s = (Inr resp, s1)"
  shows "qresp_ParentPublicKey resp = publicKey p \<and>
     map (understood (e_lib E) (privateKey s)) (qresp_Paths resp) =
       map told (range_entries (e_order_uuid E' (clock p)) (paths p))"
proof -
  have G: "gob_correct (e_gob E')"
    using assms(1,2) by simp
  obtain t m bs where msg: "enc_QueryPathReq (e_gob E') \<lparr>qreq_CoverPublicKey = publicKey s\<rparr> = Inr m"
    "answer_of E' c p \<lparr>pm_Type = QueryPathRequest, pm_Content = m\<rparr> = Arrived bs"
    "dec_QueryPathResp (e_gob E') bs = Inr resp"
    using query_arrived [OF assms(9)] assms(2,8) by metis
  obtain p' r where ans: "handleQueryPathReq E' c \<lparr>qreq_CoverPublicKey = publicKey s\<rparr> p = (None, p')"
    "map snd (drop (length (responses p)) (responses p')) = [RespQueryPath r]" "enc_QueryPathResp (e_gob E') r = Inr bs"
    by (rule query_answer_Arrived [OF msg(2) G msg(1)])
  let ?es = "range_entries (e_order_uuid E' (clock p)) (paths p)"
  have "\<exists>qs. responses p' = responses p @ [(in_conn c, RespQueryPath \<lparr>qresp_ParentPublicKey = publicKey p, qresp_Paths = qs\<rparr>)] \<and>
     map (understood (e_lib E') (privateKey s)) qs = map told ?es"
    by (rule handleQueryPathReq_answer [OF _ _ _ assms(7) ans(1)]) (simp_all add: assms(3-6))
  moreover have "r = resp"
    using gob_decode(2) [OF G ans(3)] msg(3) by simp
  ultimately show ?thesis
    using ans(2) assms(3) by auto
qed

lemmas queried_table = conjunct2 [OF queried_answer]

lemma health_verdict:
  assumes "gob_correct (e_gob E)" and "e_gob E' = e_gob E" and "e_lib E' = e_lib E"
    and "ecc_pair (e_lib E) (publicKey s) (privateKey s)" and "uuid_lib_correct (e_lib E)"
    and "seals_for (e_lib E) (publicKey s)" and "paths_ok (paths p)"
    and "\<forall>t m. e_arrival E t (p_next old) \<lparr>pm_Type = QueryPathRequest, pm_Content = m\<rparr> =
           answer_of E' c p \<lparr>pm_Type = QueryPathRequest, pm_Content = m\<rparr>"
    and "p_next old \<noteq> IS" and "sendQueryPathRequest E (p_next old) s = (Inr resp, s1)"
  shows "\<exists>verdict. invalid_step E k old (rs, s) = (rs @ verdict, s1) \<and>
    (case getValue (paths p) k of
       None \<Rightarrow> verdict = [clean_report old]
     | Some path \<Rightarrow>
         if p_next2 old = p_next path \<and> p_proxyPublic old = p_proxyPublic path then verdict = []
         else \<exists>q. verdict = [\<lparr>i_SelfProfile = old, i_NextHopProfile = q, i_HandleType = FIX\<rparr>] \<and>
                path_NextHopIP q = p_next path \<and> path_ProxyPublicKey q = p_proxyPublic path)"
proof -
  have wf: "wf_map (paths p)"
    using assms(7) by (simp add: paths_ok_def)
  let ?es = "range_entries (e_order_uuid E' (clock p)) (paths p)"
  note qs = queried_table [OF assms(1-8,10)]
  have "map_of ?es k = getValue (paths p) k"
    using mm.entries_mem [OF wf] mm.entries_distinct [OF wf]
    by (metis (no_types, lifting) map_of_eq_Some_iff option.exhaust)
  then show ?thesis
    using find_understood [OF qs mm.entries_distinct [OF wf], of k] assms(9,10)
    by (auto simp: invalid_step_def judge_path_def split: option.splits)
qed

text \<open>
  Property C15: the health check of a path whose next hop answers with its own handler says what that node's table says.  The
  path is cleaned when the next hop no longer has it, left alone when the next hop's path leads on as
  recorded and to the recorded proxy, and otherwise repaired to the next hop's own hop and proxy key.
\<close>

theorem health_check_agrees:
  assumes "gob_correct (e_gob E)" and "e_gob E' = e_gob E" and "e_lib E' = e_lib E"
    and "ecc_pair (e_lib E) (publicKey s) (privateKey s)" and "uuid_lib_correct (e_lib E)"
    and "seals_for (e_lib E) (publicKey s)" and "paths_ok (paths p)"
    and "\<forall>t m. e_arrival E t (p_next old) \<lparr>pm_Type = QueryPathRequest, pm_Content = m\<rparr> =
           answer_of E' c p \<lparr>pm_Type = QueryPathRequest, pm_Content = m\<rparr>"
    and "p_next old \<noteq> IS" and "sendQueryPathRequest E (p_next old) s = (Inr resp, s1)"
  shows "\<exists>verdict. invalid_step E k old (rs, s) = (rs @ verdict, s1) \<and>
    (case getValue (paths p) k of
       None \<Rightarrow> verdict = [clean_report old]
     | Some path \<Rightarrow>
         if p_next2 old = p_next path \<and> p_proxyPublic old = p_proxyPublic path then verdict = []
         else \<exists>q. verdict = [\<lparr>i_SelfProfile = old, i_NextHopProfile = q, i_HandleType = FIX\<rparr>] \<and>
                path_NextHopIP q = p_next path \<and> path_ProxyPublicKey q = p_proxyPublic path)"
  using assms by (rule health_verdict)

definition near_path :: PathProfile where
  "near_path = \<lparr>p_uuid = 5, p_next = ''10.0.0.7'', p_next2 = IS, p_proxyPublic = [7], p_symKey = 0,
     p_successCount = 0, p_failureCount = 0, p_cancelFunc = Some 0\<rparr>"

definition near_env :: env where
  "near_env = sample_env\<lparr>e_arrival := \<lambda>t ip m. answer_of sample_env caller proxy_node m\<rparr>"

theorem health_check_agrees_witness:
  "\<exists>s1. invalid_step near_env 5 near_path ([], node0) = ([], s1)"
proof -
  obtain m where m: "enc_QueryPathReq field_gob \<lparr>qreq_CoverPublicKey = [7]\<rparr> = Inr m"
    by (simp add: field_gob_def as_fields_def)
  have ok: "paths_ok (paths proxy_node)" "seals_for sample_lib [7]"
    by (auto simp: seals_for_def paths_ok_def wf_map_def getValue_def self_proxy_path_def split: if_splits)
  obtain qs p' where hdl: "handleQueryPathReq sample_env caller \<lparr>qreq_CoverPublicKey = [7]\<rparr> proxy_node = (None, p')"
    "responses p' = responses proxy_node @ [(in_conn caller, RespQueryPath \<lparr>qresp_ParentPublicKey = [7], qresp_Paths = qs\<rparr>)]"
  proof -
    obtain p' where run: "handleQueryPathReq sample_env caller \<lparr>qreq_CoverPublicKey = [7]\<rparr> proxy_node = (None, p')"
      by (simp add: handleQueryPathReq_def Let_def write_response_def case_prod_beta)
    from handleQueryPathReq_answer [of sample_env "[7]" "[7]" proxy_node, OF _ _ _ ok(1) run] ok(2) run that show ?thesis
      by (auto simp: sample_lib_laws)
  qed
  obtain bs where bs: "enc_QueryPathResp field_gob \<lparr>qresp_ParentPublicKey = [7], qresp_Paths = qs\<rparr> = Inr bs"
    by (simp add: field_gob_def as_fields_def)
  have "handleMessage sample_env caller \<lparr>pm_Type = QueryPathRequest, pm_Content = m\<rparr> proxy_node = Ret (None, p')"
    using gob_decode(1) [OF field_gob_correct m] hdl(1) by (simp add: handleMessage_def)
  then have "answer_of sample_env caller proxy_node \<lparr>pm_Type = QueryPathRequest, pm_Content = m\<rparr> = Arrived bs"
    using hdl(2) bs by (simp add: answer_of_def encoded_def)
  then obtain s1 where send: "sendQueryPathRequest near_env (p_next near_path) node0 =
      (Inr \<lparr>qresp_ParentPublicKey = [7], qresp_Paths = qs\<rparr>, s1)"
    using m gob_decode(2) [OF field_gob_correct bs]
    by (simp add: sendQueryPathRequest_def tcpSendAndWaitResponse_def waitForResponse_def Let_def near_env_def)
  have "\<exists>verdict. invalid_step near_env 5 near_path ([], node0) = ([] @ verdict, s1) \<and>
    (case getValue (paths proxy_node) 5 of
       None \<Rightarrow> verdict = [clean_report near_path]
     | Some path \<Rightarrow>
         if p_next2 near_path = p_next path \<and> p_proxyPublic near_path = p_proxyPublic path then verdict = []
         else \<exists>q. verdict = [\<lparr>i_SelfProfile = near_path, i_NextHopProfile = q, i_HandleType = FIX\<rparr>] \<and>
                path_NextHopIP q = p_next path \<and> path_ProxyPublicKey q = p_proxyPublic path)"
    by (rule health_check_agrees [OF _ _ _ _ _ _ ok(1) _ _ send, of sample_env caller])
      (simp_all add: near_env_def near_path_def field_gob_correct sample_lib_laws ok, simp add: IS_def)
  then show ?thesis
    by (simp add: getValue_def self_proxy_path_def near_path_def)
qed

end
