(* ===== verification/Delivery.thy ===== *)
theory Delivery
  imports Preservation Samples
begin

text \<open>
  The life of a published message: each node on the way removes the layer of the connection it came in on, finds that
  the inner layer is not for it, adds the layer of its forward connection and sends it on; the proxy opens
  the inner layer and stores the message.  \<open>relay\<close> runs the handler of each node of a chain on what the
  node before it sent.
\<close>

section \<open>A chain of nodes\<close>

record hop =
  h_env :: env
  h_cover :: CoverNodeProfile
  h_fwd :: PathProfile
  h_state :: state

fun relay :: "hop list \<Rightarrow> ApplicationMessage \<Rightarrow> state list outcome" where
  "relay [] am = Ret []"
| "relay (h # hs) am =
     obind (handleApplicationMessage (h_env h) am (h_cover h) (h_fwd h) (h_state h)) (\<lambda>(err, s').
       case drop (length (sent (h_state h))) (sent s') of
         [] \<Rightarrow> Ret [s']
       | (conn, am') # _ \<Rightarrow> obind (relay hs am') (\<lambda>ss. Ret (s' # ss)))"

text \<open>What \<open>handleApplicationMessage\<close> does with a sealed real message, on a node that can and one that cannot open it.\<close>

lemma handle_sealed:
  assumes "gob_correct (e_gob E)" and "gcm_correct (e_lib E)"
    and "enc_Sym (e_gob E) \<lparr>sym_Type = Real, sym_AsymetricEncryptedPayload = a\<rparr> = Inr b"
    and "SymmetricEncrypt (e_lib E) t b (c_secretKey c) = Inr (am_SymmetricEncryptedPayload am)"
  shows "handleApplicationMessage E am c p s = Ret (handleRealMessage E a c p s)"
  using symmetric_open [OF assms(2,4)] gob_decode(10) [OF assms(1,3)]
  by (simp add: handleApplicationMessage_def Real_def Cover_def)

definition can_forward :: "hop \<Rightarrow> bool" where
  "can_forward h \<longleftrightarrow>
     (let E = h_env h; s = h_state h
      in p_next (h_fwd h) \<noteq> IS \<and>
         aes_key (p_symKey (h_fwd h)) \<and> snd (rand_Read (e_lib E) (clock s) nonce_size) = None \<and>
         (\<exists>conn. usable (getValue (openConnections s) (p_uuid (h_fwd h))) = Some conn \<and>
            e_write E (Suc (clock s)) conn = None))"

definition can_store :: "bytes \<Rightarrow> bytes \<Rightarrow> hop \<Rightarrow> bool" where
  "can_store key content h \<longleftrightarrow>
     p_next (h_fwd h) = IS \<and> (\<exists>ok. e_Store (h_env h) (clock (h_state h)) key content = Inr ok)"

lemma handleRealMessage_forwards:
  assumes "AsymmetricDecrypt (e_lib (h_env h)) a (privateKey (h_state h)) = Inl WrongPrivateKey"
    and "can_forward h"
    and "enc_Sym (e_gob (h_env h)) \<lparr>sym_Type = Real, sym_AsymetricEncryptedPayload = a\<rparr> = Inr b"
  obtains conn am s' where
    "handleRealMessage (h_env h) a (h_cover h) (h_fwd h) (h_state h) = (None, s')"
    "sent s' = sent (h_state h) @ [(conn, am)]" "stored s' = stored (h_state h)"
    "usable (getValue (openConnections (h_state h)) (p_uuid (h_fwd h))) = Some conn"
    "SymmetricEncrypt (e_lib (h_env h)) (clock (h_state h)) b (p_symKey (h_fwd h)) =
       Inr (am_SymmetricEncryptedPayload am)"
proof -
  let ?s = "h_state h"
  obtain conn where conn: "usable (getValue (openConnections ?s) (p_uuid (h_fwd h))) = Some conn"
    "e_write (h_env h) (Suc (clock ?s)) conn = None"
    using assms(2) by (auto simp: can_forward_def Let_def)
  obtain c where c: "SymmetricEncrypt (e_lib (h_env h)) (clock ?s) b (p_symKey (h_fwd h)) = Inr c"
    using assms(2) by (auto simp: can_forward_def Let_def SymmetricEncrypt_Inr)
  let ?am = "\<lparr>am_SymmetricEncryptedPayload = c\<rparr>"
  let ?s' = "tick ((tick ?s)\<lparr>sent := sent ?s @ [(conn, ?am)]\<rparr>)"
  have "handleRealMessage (h_env h) a (h_cover h) (h_fwd h) ?s = (None, ?s')"
    using assms(1,3) conn c by (simp add: handleRealMessage_def Forward_def write_message_def tick_def)
  then show ?thesis
    by (rule that [of ?s' conn ?am]) (use conn c in \<open>simp_all add: tick_def\<close>)
qed

lemma handleRealMessage_stores:
  assumes "AsymmetricDecrypt (e_lib (h_env h)) a (privateKey (h_state h)) = Inr m"
    and "dec_Asym (e_gob (h_env h)) m = Inr \<lparr>asym_Data = \<lparr>dm_Key = key, dm_Content = content\<rparr>, asym_Salt = z\<rparr>"
    and "can_store key content h"
  shows "\<exists>s'. handleRealMessage (h_env h) a (h_cover h) (h_fwd h) (h_state h) = (None, s') \<and>
     stored s' = stored (h_state h) @ [(key, content)] \<and> sent s' = sent (h_state h)"
  using assms by (auto simp: handleRealMessage_def can_store_def store_real_def Let_def tick_def)

section \<open>Delivery\<close>

text \<open>
  A chain is linked from key \<open>k\<close> when each node's cover entry has the key of the connection before it; all nodes but
  the last can forward and are not the proxy, the last one is.
\<close>

fun linked :: "lib \<Rightarrow> gob \<Rightarrow> bytes \<Rightarrow> bytes \<Rightarrow> bytes \<Rightarrow> int \<Rightarrow> hop list \<Rightarrow> bool" where
  "linked L G pub key content k [] = False"
| "linked L G pub key content k (h # hs) =
     (e_lib (h_env h) = L \<and> e_gob (h_env h) = G \<and> c_secretKey (h_cover h) = k \<and>
      (if hs = [] then ecc_pair L pub (privateKey (h_state h)) \<and> can_store key content h
       else ecc_alien L pub (privateKey (h_state h)) \<and> can_forward h \<and>
            linked L G pub key content (p_symKey (h_fwd h)) hs))"

definition delivered :: "bytes \<Rightarrow> bytes \<Rightarrow> hop list \<Rightarrow> state list \<Rightarrow> bool" where
  "delivered key content hs ss \<longleftrightarrow>
     length ss = length hs \<and>
     (\<forall>i < length hs. stored (ss ! i) = stored (h_state (hs ! i)) @
        (if Suc i = length hs then [(key, content)] else []))"

lemma delivered_Cons:
  "stored s' = stored (h_state h) \<Longrightarrow> hs \<noteq> [] \<Longrightarrow> delivered key content hs ss \<Longrightarrow>
   delivered key content (h # hs) (s' # ss)"
  by (auto simp: delivered_def less_Suc_eq_0_disj)

lemma relay_delivers:
  assumes "gob_correct G" and "gcm_correct L"
    and "enc_Asym G \<lparr>asym_Data = \<lparr>dm_Key = key, dm_Content = content\<rparr>, asym_Salt = z\<rparr> = Inr m"
    and "AsymmetricEncrypt L t m pub = Inr a"
    and "enc_Sym G \<lparr>sym_Type = Real, sym_AsymetricEncryptedPayload = a\<rparr> = Inr b"
  shows "linked L G pub key content k hs \<Longrightarrow> SymmetricEncrypt L u b k = Inr (am_SymmetricEncryptedPayload am) \<Longrightarrow>
     \<exists>ss. relay hs am = Ret ss \<and> delivered key content hs ss"
proof (induction hs arbitrary: k u am)
  case Nil
  then show ?case by simp
next
  case (Cons h hs)
  then have h: "e_lib (h_env h) = L" "e_gob (h_env h) = G" "c_secretKey (h_cover h) = k"
    by simp_all
  have run: "handleApplicationMessage (h_env h) am (h_cover h) (h_fwd h) (h_state h) =
      Ret (handleRealMessage (h_env h) a (h_cover h) (h_fwd h) (h_state h))"
    using assms(1,2,5) Cons.prems(2) h by (intro handle_sealed) auto
  show ?case
  proof (cases "hs = []")
    case True
    with Cons.prems(1) have "ecc_pair L pub (privateKey (h_state h))" "can_store key content h"
      by simp_all
    then obtain s' where "handleRealMessage (h_env h) a (h_cover h) (h_fwd h) (h_state h) = (None, s')"
      "stored s' = stored (h_state h) @ [(key, content)]" "sent s' = sent (h_state h)"
      using handleRealMessage_stores [of h a m key content z] asymmetric_open assms(4) h
        gob_decode(9) [OF assms(1,3)] by blast
    with run True show ?thesis
      by (simp add: delivered_def)
  next
    case False
    with Cons.prems(1) have alien: "ecc_alien L pub (privateKey (h_state h))" and fwd: "can_forward h"
      and rest: "linked L G pub key content (p_symKey (h_fwd h)) hs"
      by simp_all
    have wrong: "AsymmetricDecrypt (e_lib (h_env h)) a (privateKey (h_state h)) = Inl WrongPrivateKey"
      using asymmetric_open_alien [OF alien assms(4)] h by simp
    obtain conn am' s' where s': "handleRealMessage (h_env h) a (h_cover h) (h_fwd h) (h_state h) = (None, s')"
      "sent s' = sent (h_state h) @ [(conn, am')]" "stored s' = stored (h_state h)"
      and am': "SymmetricEncrypt L (clock (h_state h)) b (p_symKey (h_fwd h)) = Inr (am_SymmetricEncryptedPayload am')"
      using handleRealMessage_forwards [OF wrong fwd, of b] assms(5) h by metis
    from Cons.IH [OF rest am'] obtain ss where "relay hs am' = Ret ss" "delivered key content hs ss"
      by blast
    with run s' False show ?thesis
      by (auto intro: delivered_Cons)
  qed
qed

text \<open>
  A message published on a path reaches storage.  If every node of a chain shares its incoming key with
  the node before it, can write to its forward connection and cannot open the inner layer, and the last node is
  the proxy whose public key the publisher used, then running the handlers one after the other never panics, every
  node but the proxy stores nothing, and the proxy stores exactly the published key and content.
\<close>

theorem onion_delivery:
  assumes "gob_correct G" and "gcm_correct L"
    and "NewRealMessage L G t \<lparr>dm_Key = key, dm_Content = content\<rparr> pub k = Inr am"
    and "linked L G pub key content k hs"
  shows "\<exists>ss. relay hs am = Ret ss \<and> delivered key content hs ss"
proof -
  obtain m a b where "enc_Asym G (CreateAsymmetricEncryptionInput L t \<lparr>dm_Key = key, dm_Content = content\<rparr>) = Inr m"
    "AsymmetricEncrypt L (t + 1) m pub = Inr a"
    "enc_Sym G \<lparr>sym_Type = Real, sym_AsymetricEncryptedPayload = a\<rparr> = Inr b"
    "SymmetricEncrypt L (t + 2) b k = Inr (am_SymmetricEncryptedPayload am)"
    using assms(3) by (auto simp: NewRealMessage_def seal_data_message_Inr)
  then show ?thesis
    using relay_delivers [OF assms(1,2) _ _ _ assms(4)] by (simp add: CreateAsymmetricEncryptionInput_def)
qed

text \<open>A relay and a proxy: the relay's path has the key \<open>2 ^ 255\<close>, and the proxy knows it under that key.\<close>

definition relay_path :: PathProfile where
  "relay_path = \<lparr>p_uuid = 5, p_next = ''10.0.0.9'', p_next2 = IS, p_proxyPublic = [9], p_symKey = 2 ^ 255,
     p_successCount = 0, p_failureCount = 0, p_cancelFunc = Some 1\<rparr>"

definition sample_cover :: CoverNodeProfile where
  "sample_cover = \<lparr>c_cover = ''10.0.0.2'', c_secretKey = 2 ^ 255, c_treeUUID = 5, c_cancelFunc = Some 2\<rparr>"

definition relay_hop :: hop where
  "relay_hop = \<lparr>h_env = sample_env, h_cover = sample_cover, h_fwd = relay_path,
     h_state = node0\<lparr>paths := [(5, relay_path)],
       openConnections := [(5, \<lparr>tc_Conn = Some 4, tc_Encoder = Some 4, tc_IP = ''10.0.0.9''\<rparr>)]\<rparr>\<rparr>"

definition proxy_hop :: hop where
  "proxy_hop = \<lparr>h_env = sample_env, h_cover = sample_cover, h_fwd = self_proxy_path 5 [9] 0,
     h_state = node0\<lparr>privateKey := [9]\<rparr>\<rparr>"

lemma sample_chain: "linked sample_lib field_gob [9] [1] [2] (2 ^ 255) [relay_hop, proxy_hop]"
  by (simp add: relay_hop_def proxy_hop_def sample_cover_def can_forward_def can_store_def relay_path_def IS_def
      aes_key_bounds getValue_def usable_def self_proxy_path_def sample_lib_laws)
    auto

theorem onion_delivery_witness:
  "\<exists>am ss. NewRealMessage sample_lib field_gob 0 \<lparr>dm_Key = [1], dm_Content = [2]\<rparr> [9] (2 ^ 255) = Inr am \<and>
     relay [relay_hop, proxy_hop] am = Ret ss \<and> delivered [1] [2] [relay_hop, proxy_hop] ss"
proof -
  have "aes_key (2 ^ 255)"
    by (simp add: aes_key_bounds)
  then obtain am where am:
    "NewRealMessage sample_lib field_gob 0 \<lparr>dm_Key = [1], dm_Content = [2]\<rparr> [9] (2 ^ 255) = Inr am"
    unfolding NewRealMessage_def using sample_seal by blast
  show ?thesis
    using onion_delivery [OF field_gob_correct sample_lib_laws(3) am sample_chain] am by auto
qed

section \<open>A forward path that moved up\<close>

text \<open>
  Property C32: the worker of a cover forwards with the path profile it was started with, while the connection is
  looked up by the path's identifier.  After the path has been reconnected (as moving up does, under the same
  identifier and with a new key), a forwarded message is written to the new connection under the old key:
  \<open>Forward\<close> reports success, and the new next hop, which knows the connection under the new key, refuses
  the message and stores and forwards nothing.
\<close>

theorem forward_after_reconnect_lost:
  assumes "gcm_authentic (e_lib E)" and "e_lib E' = e_lib E"
    and "big_Bytes (p_symKey fresh) \<noteq> big_Bytes (p_symKey stale)" and "aes_key (p_symKey fresh)"
    and "usable (Some tc) = Some conn" and "p_uuid fresh = p_uuid stale"
    and "Forward E a c stale (install_path fresh tc (p_uuid stale) s) = (None, s')"
    and "c_secretKey cover = p_symKey fresh"
  shows "\<exists>am. sent s' = sent s @ [(conn, am)] \<and>
    (\<exists>err. handleApplicationMessage E' am cover fwd u = Ret (Some err, u))"
proof -
  obtain b out where b: "enc_Sym (e_gob E) \<lparr>sym_Type = Real, sym_AsymetricEncryptedPayload = a\<rparr> = Inr b"
    and out: "SymmetricEncrypt (e_lib E) (Suc (clock s)) b (p_symKey stale) = Inr out"
    using assms(7) by (auto simp: Forward_def install_path_def Let_def spawn_def tick_def split: sum.splits)
  have "sent s' = sent s @ [(conn, \<lparr>am_SymmetricEncryptedPayload = out\<rparr>)]"
    using assms(5,7) b out
    by (auto simp: Forward_def install_path_def Let_def spawn_def tick_def write_message_def split: option.splits)
  moreover have "\<exists>err. SymmetricDecrypt (e_lib E) out (p_symKey fresh) = Ret (Inl err)"
    using symmetric_open_foreign [OF assms(1) out] assms(3,4) by metis
  ultimately show ?thesis
    using assms(2,8) by (auto simp: handleApplicationMessage_def)
qed

theorem forward_after_reconnect_lost_witness:
  "\<exists>s' am. Forward sample_env [1] sample_cover relay_path (install_path (relay_path\<lparr>p_symKey := 2 ^ 254\<rparr>)
       \<lparr>tc_Conn = Some 4, tc_Encoder = Some 4, tc_IP = ''10.0.0.9''\<rparr> 5 node0) = (None, s') \<and>
     sent s' = [(4, am)] \<and>
     (\<exists>err. handleApplicationMessage sample_env am (sample_cover\<lparr>c_secretKey := 2 ^ 254\<rparr>) relay_path node0 =
        Ret (Some err, node0))"
proof -
  let ?fresh = "relay_path\<lparr>p_symKey := 2 ^ 254\<rparr>"
  let ?tc = "\<lparr>tc_Conn = Some 4, tc_Encoder = Some 4, tc_IP = ''10.0.0.9''\<rparr>"
  have key: "aes_key (2 ^ 255)" "aes_key (2 ^ 254)"
    by (simp_all add: aes_key_bounds)
  have "be_nat (big_Bytes (2 ^ 254)) \<noteq> be_nat (big_Bytes (2 ^ 255))"
    by (simp add: big_Bytes_def)
  then have other: "big_Bytes (p_symKey ?fresh) \<noteq> big_Bytes (p_symKey relay_path)"
    by (auto simp: relay_path_def)
  obtain out where "SymmetricEncrypt sample_lib t (write_fields [put_w64 0, [1]]) (2 ^ 255) = Inr (out t)" for t
    using key(1) by (simp add: SymmetricEncrypt_Inr)
  then obtain s' where run: "Forward sample_env [1] sample_cover relay_path (install_path ?fresh ?tc
      (p_uuid relay_path) node0) = (None, s')"
    by (simp add: Forward_def field_gob_def as_fields_def Real_def relay_path_def install_path_def Let_def
        spawn_def tick_def usable_def write_message_def)
  have "aes_key (p_symKey ?fresh)" "usable (Some ?tc) = Some 4" "p_uuid ?fresh = p_uuid relay_path"
    using key by (simp_all add: usable_def)
  from forward_after_reconnect_lost [OF _ refl other this run, of "sample_cover\<lparr>c_secretKey := 2 ^ 254\<rparr>"
      relay_path node0]
  show ?thesis
    using run by (auto simp: sample_lib_laws relay_path_def)
qed

end
