(* ===== verification/Journey.thy ===== *)
theory Journey
  imports Publishing Delivery
begin

text \<open>
  A published message from end to end: the call to \<open>Publish\<close> on one node, and the handlers of the nodes of its path
  on what that call put on the wire.
\<close>

section \<open>The message on the wire\<close>

text \<open>
  Where a call to \<open>Publish\<close> leaves the message: in storage, or on the way to it, that is on a connection from which
  every chain of nodes that is linked with the path takes it to the storage of the path's proxy.
\<close>

definition on_its_way :: "env \<Rightarrow> bytes \<Rightarrow> bytes \<Rightarrow> uuid \<Rightarrow> PathProfile \<Rightarrow> state \<Rightarrow> state \<Rightarrow> bool" where
  "on_its_way E key m k p s s' \<longleftrightarrow>
     (\<exists>am conn. usable (getValue (openConnections s) k) = Some conn \<and> sent s' = sent s @ [(conn, am)] \<and>
        (\<forall>hs. linked (e_lib E) (e_gob E) (p_proxyPublic p) key m (p_symKey p) hs \<longrightarrow>
           (\<exists>ss. relay hs am = Ret ss \<and> delivered key m hs ss)))"

lemma carried_on_its_way:
  assumes "gob_correct (e_gob E)" and "gcm_correct (e_lib E)"
    and "carried E key m k p s s'" and "p_next p \<noteq> IS"
  shows "on_its_way E key m k p s s'"
  using assms(3,4) onion_delivery [OF assms(1,2)] unfolding carried_def on_its_way_def by fastforce

text \<open>
  Property C5: a published message arrives.  When \<open>Publish\<close> returns a job identifier, a pending job for the key is
  recorded, and the message is either in storage already, on a path of the node's own, or it left on the open
  connection of one stored path; whatever nodes that path leads through, if each shares its incoming key with the node
  before it and can forward and the last one is the path's proxy, their handlers take the message to storage without a panic,
  with the published key and content, and no node on the way stores anything.
\<close>

theorem published_message_arrives:
  assumes "gob_correct (e_gob E)" and "gcm_correct (e_lib E)" and "wf_map (paths s)"
    and "Publish E key m target s = Ret (Inr jobID, s')"
  shows "\<exists>k p. getValue (paths s) k = Some p \<and> (target \<noteq> uuid_Nil \<longrightarrow> k = target) \<and>
    getValue (publishJobs s') jobID = Some \<lparr>j_Key = key, j_Status = PENDING, j_OnPath = p_uuid p\<rparr> \<and>
    (if p_next p = IS then stored s' = stored s @ [(key, m)] \<and> sent s' = sent s
     else on_its_way E key m k p s s')"
proof -
  obtain k p where "getValue (paths s) k = Some p" "target \<noteq> uuid_Nil \<longrightarrow> k = target"
    and job: "job_recorded key jobID (p_uuid p) s s'" and c: "carried E key m k p s s'"
    using assms(3,4) by (rule Publish_sound)
  moreover have "if p_next p = IS then stored s' = stored s @ [(key, m)] \<and> sent s' = sent s
      else on_its_way E key m k p s s'"
    using c carried_on_its_way [OF assms(1,2) c] by (auto simp: carried_def)
  moreover have "getValue (publishJobs s') jobID = Some \<lparr>j_Key = key, j_Status = PENDING, j_OnPath = p_uuid p\<rparr>"
    using job by (simp add: job_recorded_def mm.get_put)
  ultimately show ?thesis
    by blast
qed

text \<open>A publisher whose only path leads through the relay of \<open>Delivery\<close> to its proxy.\<close>

definition publisher :: state where
  "publisher = node0\<lparr>paths := [(7, relay_path\<lparr>p_uuid := 7\<rparr>)],
     openConnections := [(7, \<lparr>tc_Conn = Some 3, tc_Encoder = Some 3, tc_IP = ''10.0.0.9''\<rparr>)]\<rparr>"

lemma sample_publishes:
  assumes "e_lib E = sample_lib" and "e_gob E = field_gob" and "e_cfg E = sample_cfg" and "\<And>t c. e_write E t c = None"
    and "\<And>k v. e_ValidateKey E k v"
    and "paths s = [(k, p)]" and "k \<noteq> 0" and "aes_key (p_symKey p)" and "p_next p \<noteq> IS"
    and "usable (getValue (openConnections s) k) = Some conn"
  shows "\<exists>jobID s'. Publish E [1] [2] k s = Ret (Inr jobID, s')"
proof -
  obtain am where am: "NewRealMessage sample_lib field_gob (clock s) \<lparr>dm_Key = [1], dm_Content = [2]\<rparr>
      (p_proxyPublic p) (p_symKey p) = Inr am"
    unfolding NewRealMessage_def using sample_seal [OF assms(8)] by blast
  have "choose_path E k s = Ret (Inr (k, p), s)"
    using assms(6,7) by (simp add: choose_path_def uuid_Nil_def getValue_def)
  moreover have "\<exists>s'. publish_remote E [1] [2] k p s = (None, s')"
    using am assms(1,2,4,10) by (simp add: publish_remote_def Let_def write_message_def tick_def)
  moreover have "canPublish E s"
    using assms(3,6) by (simp add: canPublish_def getSize_def)
  ultimately show ?thesis
    using assms(5,9) by (auto simp: Publish_def split: prod.split)
qed

theorem published_message_arrives_witness:
  "\<exists>jobID s' am ss. Publish sample_env [1] [2] 7 publisher = Ret (Inr jobID, s') \<and> sent s' = [(3, am)] \<and>
     relay [relay_hop, proxy_hop] am = Ret ss \<and> delivered [1] [2] [relay_hop, proxy_hop] ss"
proof -
  have wf: "wf_map (paths publisher)"
    by (simp add: publisher_def wf_map_def)
  have E: "e_lib sample_env = sample_lib" "e_gob sample_env = field_gob"
    by (simp_all add: sample_env_def)
  let ?p = "relay_path\<lparr>p_uuid := 7\<rparr>"
  have "\<exists>j s'. Publish sample_env [1] [2] 7 publisher = Ret (Inr j, s')"
    by (rule sample_publishes [where p = ?p and conn = 3])
      (simp_all add: publisher_def relay_path_def aes_key_bounds IS_def getValue_def usable_def)
  then obtain j s' where run: "Publish sample_env [1] [2] 7 publisher = Ret (Inr j, s')"
    by blast
  have "gob_correct (e_gob sample_env)" "gcm_correct (e_lib sample_env)"
    by (simp_all add: E field_gob_correct sample_lib_laws)
  from published_message_arrives [OF this wf run]
  have "on_its_way sample_env [1] [2] 7 (relay_path\<lparr>p_uuid := 7\<rparr>) publisher s'"
    by (auto simp: publisher_def getValue_def uuid_Nil_def relay_path_def IS_def split: if_splits)
  with run sample_chain show ?thesis
    by (force simp: on_its_way_def publisher_def getValue_def usable_def relay_path_def E)
qed

end
