(* ===== verification/PublishJob.thy ===== *)
theory PublishJob
  imports Transitions Samples
begin

text \<open>
  \<open>checkPublishJobStatusWorker\<close> of \<open>p2p/workers.go\<close> as two goroutines that share a context and the unbuffered
  channel \<open>done\<close>: the inner one asks the store until the message is discovered, the outer one waits for its report
  or for the timeout, then cancels the context, records the result and, on return, closes the channel.
\<close>

section \<open>Recording a result\<close>

text \<open>
  Recording the end of a job replaces its entry and adds one to exactly one counter of its path, if the
  path still exists: the success counter for a success, the failure counter for anything else.  No other
  job, path or field changes.
\<close>

theorem job_result_counted:
  "(\<forall>j. getValue (publishJobs (markPublishJobStatus jobID job s)) j =
        (if j = jobID then Some job else getValue (publishJobs s) j)) \<and>
   (\<forall>k. getValue (paths (markPublishJobStatus jobID job s)) k =
        map_option (\<lambda>p. if k = j_OnPath job
            then if j_Status job = SUCCESS then p\<lparr>p_successCount := p_successCount p + 1\<rparr>
                 else p\<lparr>p_failureCount := p_failureCount p + 1\<rparr>
            else p) (getValue (paths s) k)) \<and>
   covers (markPublishJobStatus jobID job s) = covers s \<and> tasks (markPublishJobStatus jobID job s) = tasks s"
  by (auto simp: markPublishJobStatus_def Let_def map_option_case split: option.splits)

section \<open>The two goroutines\<close>

datatype outer_pc = OSelect | OGot PublishJobStatus | OCancelled PublishJobStatus | OMarked | OReturned

datatype inner_pc = IAsk | ISend | IWait | IDone | IPanicked

record job_run =
  outer :: outer_pc
  inner :: inner_pc
  ctx_done :: bool
  chan_closed :: bool
  answered :: bool
  marks :: "PublishJobStatus list"
  jr_node :: state

definition job_start :: "uuid \<Rightarrow> PublishJobProfile \<Rightarrow> job_run \<Rightarrow> bool" where
  "job_start jobID job r \<longleftrightarrow>
     (\<exists>s. getValue (publishJobs s) jobID = Some job \<and>
        r = \<lparr>outer = OSelect, inner = IAsk, ctx_done = False, chan_closed = False, answered = False, marks = [],
             jr_node = s\<rparr>)"

text \<open>
  A send on \<open>done\<close> succeeds only while the outer goroutine is still in its \<open>select\<close>; a send on the closed channel
  panics.  A send that is waiting when the channel is closed panics too.
\<close>

inductive job_step :: "env \<Rightarrow> uuid \<Rightarrow> PublishJobProfile \<Rightarrow> job_run \<Rightarrow> job_run \<Rightarrow> bool"
  for E :: env and jobID :: uuid and job :: PublishJobProfile where
  ask_found: "inner r = IAsk \<Longrightarrow> e_IsDiscovered E t (j_Key job) = Inr True \<Longrightarrow>
    job_step E jobID job r (r\<lparr>inner := ISend, answered := True\<rparr>)"
| ask_again: "inner r = IAsk \<Longrightarrow> e_IsDiscovered E t (j_Key job) \<noteq> Inr True \<Longrightarrow>
    job_step E jobID job r (r\<lparr>inner := IWait\<rparr>)"
| interval: "inner r = IWait \<Longrightarrow> job_step E jobID job r (r\<lparr>inner := IAsk\<rparr>)"
| stop: "inner r = IWait \<Longrightarrow> ctx_done r \<Longrightarrow> job_step E jobID job r (r\<lparr>inner := IDone\<rparr>)"
| report: "inner r = ISend \<Longrightarrow> outer r = OSelect \<Longrightarrow>
    job_step E jobID job r (r\<lparr>inner := IDone, outer := OGot SUCCESS\<rparr>)"
| send_closed: "inner r = ISend \<Longrightarrow> chan_closed r \<Longrightarrow> job_step E jobID job r (r\<lparr>inner := IPanicked\<rparr>)"
| timeout: "outer r = OSelect \<Longrightarrow> job_step E jobID job r (r\<lparr>outer := OGot TIMEOUT\<rparr>)"
| cancel: "outer r = OGot st \<Longrightarrow> job_step E jobID job r (r\<lparr>outer := OCancelled st, ctx_done := True\<rparr>)"
| mark: "outer r = OCancelled st \<Longrightarrow>
    job_step E jobID job r (r\<lparr>outer := OMarked, marks := marks r @ [st],
      jr_node := markPublishJobStatus jobID (job\<lparr>j_Status := st\<rparr>) (jr_node r)\<rparr>)"
| return_close: "outer r = OMarked \<Longrightarrow> job_step E jobID job r (r\<lparr>outer := OReturned, chan_closed := True\<rparr>)"

inductive_simps job_step_iff: "job_step E jobID job r r'"

definition job_inv :: "uuid \<Rightarrow> PublishJobProfile \<Rightarrow> job_run \<Rightarrow> bool" where
  "job_inv jobID job r \<longleftrightarrow>
     (chan_closed r \<longleftrightarrow> outer r = OReturned) \<and>
     (inner r = ISend \<longrightarrow> answered r) \<and>
     (inner r = IDone \<longrightarrow> ctx_done r \<or> outer r = OGot SUCCESS) \<and>
     (inner r = IPanicked \<longrightarrow> outer r = OReturned \<and> marks r = [TIMEOUT] \<and> answered r) \<and>
     (case outer r of
        OSelect \<Rightarrow> marks r = [] \<and> \<not> ctx_done r
      | OGot st \<Rightarrow> marks r = [] \<and> (st = SUCCESS \<and> answered r \<and> inner r = IDone \<or> st = TIMEOUT)
      | OCancelled st \<Rightarrow> marks r = [] \<and> (st = SUCCESS \<and> answered r \<and> inner r = IDone \<or> st = TIMEOUT)
      | _ \<Rightarrow> (marks r = [SUCCESS] \<and> answered r \<and> inner r = IDone \<or> marks r = [TIMEOUT]) \<and>
             getValue (publishJobs (jr_node r)) jobID = Some (job\<lparr>j_Status := hd (marks r)\<rparr>))"

lemma job_inv_start: "job_start jobID job r \<Longrightarrow> job_inv jobID job r"
  by (auto simp: job_start_def job_inv_def)

lemma mark_job: "getValue (publishJobs (markPublishJobStatus jobID job s)) jobID = Some job"
  by (simp add: markPublishJobStatus_def Let_def split: option.splits)

lemma job_inv_step: "job_inv jobID job r \<Longrightarrow> job_step E jobID job r r' \<Longrightarrow> job_inv jobID job r'"
  by (erule job_step.cases) (auto simp: job_inv_def mark_job split: outer_pc.splits)

interpretation job_run: inductive_invariant "job_start jobID job" "job_step E jobID job" "job_inv jobID job"
  for jobID job E
  by unfold_locales (auto intro: job_inv_start job_inv_step)

section \<open>What the worker guarantees\<close>

text \<open>
  Property C22: in every interleaving of the two goroutines the worker records at most one result; it records a success
  only if the store has answered that the message is discovered; and when it has returned, the job's
  entry holds the one recorded result and is no longer pending.
\<close>

theorem job_result_sound:
  assumes "reach (job_start jobID job) (job_step E jobID job) r"
  shows "length (marks r) \<le> 1 \<and> (SUCCESS \<in> set (marks r) \<longrightarrow> answered r) \<and>
    (outer r = OReturned \<longrightarrow>
       (\<exists>st. marks r = [st] \<and> PENDING < st \<and>
          getValue (publishJobs (jr_node r)) jobID = Some (job\<lparr>j_Status := st\<rparr>)))"
  using job_run.reachable_inv [OF assms] by (auto simp: job_inv_def job_over_iff split: outer_pc.splits)

theorem job_result_sound_witness:
  "\<exists>r. reach (job_start 3 \<lparr>j_Key = [1], j_Status = PENDING, j_OnPath = 5\<rparr>)
        (job_step sample_env 3 \<lparr>j_Key = [1], j_Status = PENDING, j_OnPath = 5\<rparr>) r \<and>
     length (marks r) \<le> 1 \<and> outer r = OSelect"
proof -
  let ?job = "\<lparr>j_Key = [1], j_Status = PENDING, j_OnPath = 5\<rparr>"
  let ?r = "\<lparr>outer = OSelect, inner = IAsk, ctx_done = False, chan_closed = False, answered = False, marks = [],
             jr_node = node0\<lparr>publishJobs := [(3, ?job)]\<rparr>\<rparr>"
  have "reach (job_start 3 ?job) (job_step sample_env 3 ?job) ?r"
    by (rule reach_init) (auto simp: job_start_def getValue_def)
  with job_result_sound [OF this] show ?thesis
    by (intro exI [of _ ?r]) simp
qed

text \<open>The timeout fires before the first answer; the answer then arrives, and the send meets a closed channel.\<close>

lemma outer_returns:
  assumes "reach (job_start jobID job) (job_step E jobID job) r" and "outer r = OGot st"
  shows "\<exists>r'. reach (job_start jobID job) (job_step E jobID job) r' \<and> outer r' = OReturned \<and>
     inner r' = inner r \<and> marks r' = marks r @ [st]"
proof -
  let ?r1 = "r\<lparr>outer := OCancelled st, ctx_done := True\<rparr>"
  let ?r2 = "?r1\<lparr>outer := OMarked, marks := marks ?r1 @ [st],
      jr_node := markPublishJobStatus jobID (job\<lparr>j_Status := st\<rparr>) (jr_node ?r1)\<rparr>"
  have "reach (job_start jobID job) (job_step E jobID job) ?r1"
    by (rule reach_step [OF assms(1)]) (rule cancel [OF assms(2)])
  then have "reach (job_start jobID job) (job_step E jobID job) ?r2"
    by (rule reach_step) (rule mark, simp)
  then have "reach (job_start jobID job) (job_step E jobID job) (?r2\<lparr>outer := OReturned, chan_closed := True\<rparr>)"
    by (rule reach_step) (rule return_close, simp)
  then show ?thesis
    by (intro exI [of _ "?r2\<lparr>outer := OReturned, chan_closed := True\<rparr>"]) simp
qed

text \<open>
  Property C24: the channel is closed when the worker returns, although the inner goroutine may still be about to
  report.  For every job whose message the store reports as discovered at some time there is an interleaving in
  which the job is recorded as timed out and the inner goroutine panics on the closed channel.
\<close>

theorem late_report_panics:
  assumes "e_IsDiscovered E t (j_Key job) = Inr True"
  shows "\<exists>r. reach (job_start jobID job) (job_step E jobID job) r \<and> inner r = IPanicked \<and> marks r = [TIMEOUT]"
proof -
  let ?s = "node0\<lparr>publishJobs := [(jobID, job)]\<rparr>"
  let ?r0 = "\<lparr>outer = OSelect, inner = IAsk, ctx_done = False, chan_closed = False, answered = False, marks = [],
             jr_node = ?s\<rparr>"
  have "reach (job_start jobID job) (job_step E jobID job) ?r0"
    by (rule reach_init) (auto simp: job_start_def getValue_def intro!: exI [of _ ?s])
  then have "reach (job_start jobID job) (job_step E jobID job) (?r0\<lparr>outer := OGot TIMEOUT\<rparr>)"
    by (rule reach_step) (rule timeout, simp)
  then have "reach (job_start jobID job) (job_step E jobID job)
      (?r0\<lparr>outer := OGot TIMEOUT, inner := ISend, answered := True\<rparr>)"
    by (rule reach_step) (use ask_found [of "?r0\<lparr>outer := OGot TIMEOUT\<rparr>", OF _ assms] in simp)
  from outer_returns [OF this, of TIMEOUT] obtain r where r: "reach (job_start jobID job) (job_step E jobID job) r"
    "outer r = OReturned" "inner r = ISend" "marks r = [TIMEOUT]"
    by auto
  then have "chan_closed r"
    using job_run.reachable_inv [OF r(1)] by (simp add: job_inv_def)
  with r have "reach (job_start jobID job) (job_step E jobID job) (r\<lparr>inner := IPanicked\<rparr>)"
    by (blast intro: reach_step send_closed)
  with r(4) show ?thesis
    by (intro exI [of _ "r\<lparr>inner := IPanicked\<rparr>"]) simp
qed

theorem late_report_panics_witness:
  "\<exists>r. reach (job_start 3 \<lparr>j_Key = [1], j_Status = PENDING, j_OnPath = 5\<rparr>)
        (job_step sample_env 3 \<lparr>j_Key = [1], j_Status = PENDING, j_OnPath = 5\<rparr>) r \<and>
     inner r = IPanicked \<and> marks r = [TIMEOUT]"
  by (rule late_report_panics [where t = 0]) (simp add: sample_env_def)

section \<open>The worker returns\<close>

fun steps_left :: "outer_pc \<Rightarrow> nat" where
  "steps_left OSelect = 4"
| "steps_left (OGot st) = 3"
| "steps_left (OCancelled st) = 2"
| "steps_left OMarked = 1"
| "steps_left OReturned = 0"

lemma job_never_back: "job_step E jobID job r r' \<Longrightarrow> steps_left (outer r') \<le> steps_left (outer r)"
  by (erule job_step.cases) auto

lemma job_enabled:
  assumes "steps_left (outer r) \<noteq> 0"
  shows "\<exists>r'. job_step E jobID job r r' \<and> steps_left (outer r') < steps_left (outer r)"
proof (cases "outer r")
  case OSelect
  then show ?thesis using timeout [OF OSelect] by fastforce
next
  case (OGot st)
  then show ?thesis using cancel [OF OGot] by fastforce
next
  case (OCancelled st)
  then show ?thesis using mark [OF OCancelled] by fastforce
next
  case OMarked
  then show ?thesis using return_close [OF OMarked] by fastforce
next
  case OReturned
  with assms show ?thesis by simp
qed

interpretation job_progress: fair_progress "job_start jobID job" "job_step E jobID job" "job_inv jobID job"
  "\<lambda>r. steps_left (outer r)" for jobID job E
  by unfold_locales (rule job_never_back, assumption, rule job_enabled)

text \<open>
  Property C23: in every run, however the inner goroutine and the store behave, the worker returns, with exactly one result
  recorded in the job's entry, provided only that the outer goroutine is not starved: a step of it that can be
  taken (its timer is one) is taken at some time.
\<close>

theorem job_worker_returns:
  assumes "run_of (job_start jobID job) (job_step E jobID job) f"
    and "fair_for (\<lambda>r. steps_left (outer r)) (job_step E jobID job) f"
  shows "\<exists>n. \<forall>m \<ge> n. outer (f m) = OReturned \<and>
     (\<exists>st. PENDING < st \<and> marks (f m) = [st] \<and>
        getValue (publishJobs (jr_node (f m))) jobID = Some (job\<lparr>j_Status := st\<rparr>))"
proof -
  obtain n where n: "\<And>m. n \<le> m \<Longrightarrow> steps_left (outer (f m)) = 0"
    using job_progress.reaches_zero [OF assms] by blast
  have "outer (f m) = OReturned \<and> (\<exists>st. PENDING < st \<and> marks (f m) = [st] \<and>
      getValue (publishJobs (jr_node (f m))) jobID = Some (job\<lparr>j_Status := st\<rparr>))" if "n \<le> m" for m
  proof -
    have "outer (f m) = OReturned"
      using n [OF that] by (cases "outer (f m)") auto
    then show ?thesis
      using job_progress.run_inv [OF assms(1), of m] by (auto simp: job_inv_def job_over_iff)
  qed
  then show ?thesis
    by blast
qed

text \<open>A run in which the inner goroutine never gets a turn.\<close>

definition starved_run :: "nat \<Rightarrow> job_run" where
  "starved_run i =
     (let job = \<lparr>j_Key = [1], j_Status = PENDING, j_OnPath = 5\<rparr>;
          r0 = \<lparr>outer = OSelect, inner = IAsk, ctx_done = False, chan_closed = False, answered = False, marks = [],
                jr_node = node0\<lparr>publishJobs := [(3, job)]\<rparr>\<rparr>;
          r1 = r0\<lparr>outer := OGot TIMEOUT\<rparr>;
          r2 = r1\<lparr>outer := OCancelled TIMEOUT, ctx_done := True\<rparr>;
          r3 = r2\<lparr>outer := OMarked, marks := marks r2 @ [TIMEOUT],
                jr_node := markPublishJobStatus 3 (job\<lparr>j_Status := TIMEOUT\<rparr>) (jr_node r2)\<rparr>
      in if i = 0 then r0 else if i = 1 then r1 else if i = 2 then r2 else if i = 3 then r3
         else r3\<lparr>outer := OReturned, chan_closed := True\<rparr>)"

theorem job_worker_returns_witness:
  "\<exists>n. \<forall>m \<ge> n. outer (starved_run m) = OReturned"
proof -
  let ?job = "\<lparr>j_Key = [1], j_Status = PENDING, j_OnPath = 5\<rparr>"
  have late: "i = 0 \<or> i = 1 \<or> i = 2 \<or> i = 3 \<or> 4 \<le> i" for i :: nat
    by arith
  have start: "job_start 3 ?job (starved_run 0)"
    by (auto simp: starved_run_def Let_def job_start_def getValue_def)
  have step: "job_step sample_env 3 ?job (starved_run i) (starved_run (Suc i)) \<or> starved_run (Suc i) = starved_run i" for i
    using late [of i] by (auto simp: starved_run_def Let_def job_step_iff)
  have less: "\<exists>j \<ge> i. steps_left (outer (starved_run (Suc j))) < steps_left (outer (starved_run j))" if "i < 4" for i
    using that by (intro exI [of _ 3]) (simp add: starved_run_def Let_def)
  have "fair_for (\<lambda>r. steps_left (outer r)) (job_step sample_env 3 ?job) starved_run"
    unfolding fair_for_def
  proof (intro allI impI)
    fix i
    assume "\<exists>t. job_step sample_env 3 ?job (starved_run i) t \<and> steps_left (outer t) < steps_left (outer (starved_run i))"
    then have "\<not> 4 \<le> i"
      by (auto simp: starved_run_def Let_def)
    then show "\<exists>j \<ge> i. steps_left (outer (starved_run (Suc j))) < steps_left (outer (starved_run j))"
      by (intro less) simp
  qed
  moreover have "run_of (job_start 3 ?job) (job_step sample_env 3 ?job) starved_run"
    using start step by (simp add: run_of_def)
  ultimately show ?thesis
    using job_worker_returns by blast
qed

end
