(* ===== verification/AdmissionRace.thy ===== *)
theory AdmissionRace
  imports Admission Transitions
begin

text \<open>
  Connect requests handled at the same time.  \<open>handleConnectPathReq\<close> looks up the requester, then the size of the
  cover table, then the path, and only later enters the requester: each is a critical section of its own, so the
  handlers of several connections interleave between them.
\<close>

datatype handler_pc = Arriving | Looked bool | Sized bool bool | Decided bool | Finished bool

record handler =
  hd_pc :: handler_pc
  hd_ip :: string
  hd_path :: uuid

record race =
  rc_node :: state
  rc_handlers :: "handler list"

definition set_pc :: "nat \<Rightarrow> handler_pc \<Rightarrow> race \<Rightarrow> race" where
  "set_pc i pc r = r\<lparr>rc_handlers := (rc_handlers r)[i := (rc_handlers r ! i)\<lparr>hd_pc := pc\<rparr>]\<rparr>"

inductive race_step :: "env \<Rightarrow> race \<Rightarrow> race \<Rightarrow> bool" for E :: env where
  look: "i < length (rc_handlers r) \<Longrightarrow> hd_pc (rc_handlers r ! i) = Arriving \<Longrightarrow>
    race_step E r (set_pc i (Looked (getValue (covers (rc_node r)) (hd_ip (rc_handlers r ! i)) \<noteq> None)) r)"
| measure_size: "i < length (rc_handlers r) \<Longrightarrow> hd_pc (rc_handlers r ! i) = Looked already \<Longrightarrow>
    race_step E r (set_pc i (Sized already (tooManyCovers E (rc_node r))) r)"
| decide: "i < length (rc_handlers r) \<Longrightarrow> hd_pc (rc_handlers r ! i) = Sized already tooMany \<Longrightarrow>
    race_step E r (set_pc i (Decided (\<not> already \<and> \<not> tooMany \<and>
      getValue (paths (rc_node r)) (hd_path (rc_handlers r ! i)) \<noteq> None)) r)"
| enter: "i < length (rc_handlers r) \<Longrightarrow> hd_pc (rc_handlers r ! i) = Decided True \<Longrightarrow>
    add_cover (hd_ip (rc_handlers r ! i)) k (hd_path (rc_handlers r ! i)) (rc_node r) = (c, ctx, s') \<Longrightarrow>
    race_step E r (set_pc i (Finished True) (r\<lparr>rc_node := s'\<rparr>))"
| refuse: "i < length (rc_handlers r) \<Longrightarrow> hd_pc (rc_handlers r ! i) = Decided False \<Longrightarrow>
    race_step E r (set_pc i (Finished False) r)"
| next_request: "i < length (rc_handlers r) \<Longrightarrow> hd_pc (rc_handlers r ! i) = Finished b \<Longrightarrow>
    race_step E r (r\<lparr>rc_handlers := (rc_handlers r)[i := \<lparr>hd_pc = Arriving, hd_ip = ip, hd_path = p\<rparr>]\<rparr>)"
| cover_leaves:
    "race_step E r (r\<lparr>rc_node := (rc_node r)\<lparr>covers := deleteValue (covers (rc_node r)) ip\<rparr>\<rparr>)"

inductive_cases race_stepE: "race_step E r r'"

definition race_start :: "env \<Rightarrow> nat \<Rightarrow> race \<Rightarrow> bool" where
  "race_start E n r \<longleftrightarrow> wf_map (covers (rc_node r)) \<and> length (rc_handlers r) = n \<and>
     int (getSize (covers (rc_node r))) \<le> MAXIMUM_NUMBER_OF_COVER_NODES (e_cfg E) \<and>
     (\<forall>h \<in> set (rc_handlers r). hd_pc h = Arriving)"

section \<open>How far the limit can be overrun\<close>

text \<open>A handler that found room may still enter its requester.\<close>

definition may_enter :: "handler \<Rightarrow> bool" where
  "may_enter h = (case hd_pc h of Sized already tooMany \<Rightarrow> \<not> tooMany | Decided b \<Rightarrow> b | _ \<Rightarrow> False)"

definition entering :: "handler list \<Rightarrow> nat" where
  "entering hs = length (filter may_enter hs)"

lemma entering_update:
  assumes "i < length hs"
  shows "int (entering (hs[i := h])) = int (entering hs) - of_bool (may_enter (hs ! i)) + of_bool (may_enter h)"
proof -
  have hs: "hs = take i hs @ hs ! i # drop (Suc i) hs"
    using assms by (rule id_take_nth_drop)
  have "entering hs = entering (take i hs) + of_bool (may_enter (hs ! i)) + entering (drop (Suc i) hs)"
    by (subst hs) (simp add: entering_def)
  moreover have "entering (hs[i := h]) = entering (take i hs) + of_bool (may_enter h) + entering (drop (Suc i) hs)"
    using assms by (simp add: upd_conv_take_nth_drop entering_def)
  ultimately show ?thesis
    by simp
qed

lemma entering_le: "entering hs \<le> length hs"
  by (simp add: entering_def)

definition race_inv :: "env \<Rightarrow> nat \<Rightarrow> race \<Rightarrow> bool" where
  "race_inv E n r \<longleftrightarrow> wf_map (covers (rc_node r)) \<and> length (rc_handlers r) = n \<and>
     int (getSize (covers (rc_node r))) + int (entering (rc_handlers r)) \<le>
       MAXIMUM_NUMBER_OF_COVER_NODES (e_cfg E) + int n - 1"

lemma race_inv_start: "race_start E n r \<Longrightarrow> 0 < n \<Longrightarrow> race_inv E n r"
proof -
  assume start: "race_start E n r" and n: "0 < n"
  have "filter may_enter (rc_handlers r) = []"
    using start by (auto simp: race_start_def may_enter_def filter_empty_conv)
  then show ?thesis
    using start n by (simp add: race_start_def race_inv_def entering_def)
qed

lemma race_inv_step:
  assumes "race_step E r r'" and "race_inv E n r"
  shows "race_inv E n r'"
  using assms(1)
proof (cases rule: race_step.cases)
  case (look i)
  then show ?thesis
    using assms(2) by (simp add: race_inv_def set_pc_def entering_update may_enter_def)
next
  case (measure_size i already)
  show ?thesis
  proof (cases "tooManyCovers E (rc_node r)")
    case True
    then show ?thesis
      using assms(2) measure_size by (simp add: race_inv_def set_pc_def entering_update may_enter_def)
  next
    case False
    have "entering ((rc_handlers r)[i := (rc_handlers r ! i)\<lparr>hd_pc := Sized already False\<rparr>]) \<le> n"
      using entering_le assms(2) by (metis length_list_update race_inv_def)
    then show ?thesis
      using assms(2) measure_size False by (simp add: race_inv_def set_pc_def tooManyCovers_def)
  qed
next
  case (decide i already tooMany)
  then show ?thesis
    using assms(2) by (auto simp: race_inv_def set_pc_def entering_update may_enter_def)
next
  case (enter i k c ctx s')
  have "getSize (covers s') \<le> Suc (getSize (covers (rc_node r)))" "wf_map (covers s')"
    using assms(2) enter(4) by (auto simp: race_inv_def add_cover_def Let_def mm.size_put intro: wf_intros)
  then show ?thesis
    using assms(2) enter by (simp add: race_inv_def set_pc_def entering_update may_enter_def)
next
  case (refuse i)
  then show ?thesis
    using assms(2) by (simp add: race_inv_def set_pc_def entering_update may_enter_def)
next
  case (next_request i b ip p)
  then show ?thesis
    using assms(2) by (simp add: race_inv_def entering_update may_enter_def)
next
  case (cover_leaves ip)
  have "getSize (deleteValue (covers (rc_node r)) ip) \<le> getSize (covers (rc_node r))"
    using assms(2) by (simp add: race_inv_def mm.size_drop)
  then show ?thesis
    using assms(2) cover_leaves by (simp add: race_inv_def wf_intros)
qed

interpretation race: inductive_invariant "\<lambda>r. race_start E n r \<and> 0 < n" "race_step E" "race_inv E n" for E n
  by unfold_locales (auto intro: race_inv_start race_inv_step)

lemma reach_strengthen: "reach init step s \<Longrightarrow> (\<And>s. init s \<Longrightarrow> init' s) \<Longrightarrow> reach init' step s"
  by (induction rule: reach.induct) (auto intro: reach.intros)

text \<open>
  Property C27: with \<open>n\<close> connect requests in the hands of handlers at a time, from a table within its limit,
  the cover table never holds more than the limit and \<open>n - 1\<close> further entries, in any interleaving and for any number
  of requests one after the other; a single handler keeps the limit.
\<close>

theorem admission_overrun_bounded:
  assumes "reach (race_start E n) (race_step E) r" and "0 < n"
  shows "int (getSize (covers (rc_node r))) \<le> MAXIMUM_NUMBER_OF_COVER_NODES (e_cfg E) + int n - 1"
proof -
  have "reach (\<lambda>r. race_start E n r \<and> 0 < n) (race_step E) r"
    using assms by (auto intro: reach_strengthen)
  then show ?thesis
    using race.reachable_inv by (fastforce simp: race_inv_def)
qed

section \<open>The limit is overrun\<close>

lemma race_stepI: "reach init (race_step E) r \<Longrightarrow> race_step E r r' \<Longrightarrow> reach init (race_step E) r'"
  by (rule reach_step)

definition two_handlers :: "state \<Rightarrow> uuid \<Rightarrow> string \<Rightarrow> string \<Rightarrow> handler_pc \<Rightarrow> handler_pc \<Rightarrow> race" where
  "two_handlers s p a b x y =
     \<lparr>rc_node = s, rc_handlers = [\<lparr>hd_pc = x, hd_ip = a, hd_path = p\<rparr>, \<lparr>hd_pc = y, hd_ip = b, hd_path = p\<rparr>]\<rparr>"

theorem admission_overrun_bounded_witness:
  "\<exists>r. reach (race_start sample_env 2) (race_step sample_env) r \<and>
     map hd_pc (rc_handlers r) = [Looked False, Arriving] \<and> int (getSize (covers (rc_node r))) \<le> 10 + 2 - 1"
proof -
  have start: "reach (race_start sample_env 2) (race_step sample_env)
      (two_handlers proxy_node 5 ''a'' ''b'' Arriving Arriving)"
    by (intro reach_init) (simp add: race_start_def two_handlers_def wf_map_def getSize_def)
  have "reach (race_start sample_env 2) (race_step sample_env)
      (two_handlers proxy_node 5 ''a'' ''b'' (Looked False) Arriving)"
    by (rule race_stepI [OF start])
      (use look [of 0 "two_handlers proxy_node 5 ''a'' ''b'' Arriving Arriving" sample_env]
      in \<open>simp add: two_handlers_def set_pc_def getValue_def\<close>)
  from this admission_overrun_bounded [OF this] show ?thesis
    by (intro exI [of _ "two_handlers proxy_node 5 ''a'' ''b'' (Looked False) Arriving"])
      (simp add: two_handlers_def)
qed

lemma both_decide:
  fixes s :: state
  assumes "getValue (covers s) a = None" and "getValue (covers s) b = None" and "\<not> tooManyCovers E s"
    and "getValue (paths s) p \<noteq> None"
    and "reach init (race_step E) (two_handlers s p a b Arriving Arriving)"
  shows "reach init (race_step E) (two_handlers s p a b (Decided True) (Decided True))"
proof -
  note init = assms(5)
  have 1: "reach init (race_step E) (two_handlers s p a b (Looked False) Arriving)"
    by (rule race_stepI [OF init]) (use look [of 0 "two_handlers s p a b Arriving Arriving" E] assms(1)
      in \<open>simp add: two_handlers_def set_pc_def\<close>)
  have 2: "reach init (race_step E) (two_handlers s p a b (Looked False) (Looked False))"
    by (rule race_stepI [OF 1]) (use look [of 1 "two_handlers s p a b (Looked False) Arriving" E] assms(2)
      in \<open>simp add: two_handlers_def set_pc_def\<close>)
  have 3: "reach init (race_step E) (two_handlers s p a b (Sized False False) (Looked False))"
    by (rule race_stepI [OF 2]) (use measure_size [of 0 "two_handlers s p a b (Looked False) (Looked False)" False E]
      assms(3) in \<open>simp add: two_handlers_def set_pc_def\<close>)
  have 4: "reach init (race_step E) (two_handlers s p a b (Sized False False) (Sized False False))"
    by (rule race_stepI [OF 3])
      (use measure_size [of 1 "two_handlers s p a b (Sized False False) (Looked False)" False E]
      assms(3) in \<open>simp add: two_handlers_def set_pc_def\<close>)
  have 5: "reach init (race_step E) (two_handlers s p a b (Decided True) (Sized False False))"
    by (rule race_stepI [OF 4])
      (use decide [of 0 "two_handlers s p a b (Sized False False) (Sized False False)" False False E]
      assms(4) in \<open>simp add: two_handlers_def set_pc_def\<close>)
  show ?thesis
    by (rule race_stepI [OF 5])
      (use decide [of 1 "two_handlers s p a b (Decided True) (Sized False False)" False False E]
      assms(4) in \<open>simp add: two_handlers_def set_pc_def\<close>)
qed

text \<open>
  Two requests from different addresses that meet a table with one free place can both be accepted: the
  table then holds one cover more than its limit.
\<close>

theorem admission_limit_overrun:
  fixes s :: state
  assumes "wf_map (covers s)" and "getValue (covers s) a = None" and "getValue (covers s) b = None" and "a \<noteq> b"
    and "int (getSize (covers s)) = MAXIMUM_NUMBER_OF_COVER_NODES (e_cfg E) - 1" and "getValue (paths s) p \<noteq> None"
  shows "\<exists>r. reach (race_start E 2) (race_step E) r \<and>
     int (getSize (covers (rc_node r))) = MAXIMUM_NUMBER_OF_COVER_NODES (e_cfg E) + 1 \<and>
     map hd_pc (rc_handlers r) = [Finished True, Finished True]"
proof -
  have "reach (race_start E 2) (race_step E) (two_handlers s p a b Arriving Arriving)"
    using assms(1,5) by (intro reach_init) (simp add: race_start_def two_handlers_def)
  moreover have "\<not> tooManyCovers E s"
    using assms(5) by (simp add: tooManyCovers_def)
  ultimately have both: "reach (race_start E 2) (race_step E) (two_handlers s p a b (Decided True) (Decided True))"
    using both_decide assms(2,3,6) by blast
  obtain c ctx s1 where s1: "add_cover a 0 p s = (c, ctx, s1)"
    by (cases "add_cover a 0 p s") auto
  obtain c' ctx' s2 where s2: "add_cover b 0 p s1 = (c', ctx', s2)"
    by (cases "add_cover b 0 p s1") auto
  have 1: "reach (race_start E 2) (race_step E) (two_handlers s1 p a b (Finished True) (Decided True))"
    by (rule race_stepI [OF both])
      (use enter [of 0 "two_handlers s p a b (Decided True) (Decided True)" 0 c ctx s1 E] s1
      in \<open>simp add: two_handlers_def set_pc_def\<close>)
  have 2: "reach (race_start E 2) (race_step E) (two_handlers s2 p a b (Finished True) (Finished True))"
    by (rule race_stepI [OF 1])
      (use enter [of 1 "two_handlers s1 p a b (Finished True) (Decided True)" 0 c' ctx' s2 E] s2
      in \<open>simp add: two_handlers_def set_pc_def\<close>)
  have "int (getSize (covers s2)) = MAXIMUM_NUMBER_OF_COVER_NODES (e_cfg E) + 1"
    using assms(1-5) s1 s2 by (auto simp: add_cover_def Let_def tick_def mm.size_put wf_intros)
  with 2 show ?thesis
    by (intro exI [of _ "two_handlers s2 p a b (Finished True) (Finished True)"]) (simp add: two_handlers_def)
qed

theorem admission_limit_overrun_witness:
  "\<exists>r. reach (race_start (sample_env\<lparr>e_cfg := sample_cfg\<lparr>MAXIMUM_NUMBER_OF_COVER_NODES := 1\<rparr>\<rparr>) 2)
        (race_step (sample_env\<lparr>e_cfg := sample_cfg\<lparr>MAXIMUM_NUMBER_OF_COVER_NODES := 1\<rparr>\<rparr>)) r \<and>
     int (getSize (covers (rc_node r))) = 1 + 1"
  using admission_limit_overrun [of proxy_node "''a''" "''b''"
      "sample_env\<lparr>e_cfg := sample_cfg\<lparr>MAXIMUM_NUMBER_OF_COVER_NODES := 1\<rparr>\<rparr>" 5]
  by (auto simp: wf_map_def getValue_def getSize_def)

end
