(* ===== verification/Mocks.thy ===== *)
theory Mocks
  imports MutexMap
begin

text \<open>
  The stand-ins of \<open>p2p/mocks.go\<close> for the two services a node depends on: \<open>MockND\<close>, a table from
  each node to its group, shared by all mock instances, and \<open>MockIS\<close>, a cache of messages.  \<open>validate\<close> stands
  for \<open>blueprint.ValidateKey\<close>.
\<close>

section \<open>Node discovery\<close>

type_synonym groups = "(string, string list) mutexmap"

definition group_of :: "groups \<Rightarrow> string \<Rightarrow> string list" where
  "group_of members a = (case getValue members a of None \<Rightarrow> [] | Some g \<Rightarrow> g)"

text \<open>
  \<open>toBeUpdated\<close> is made empty, and \<open>copy\<close> writes only as many elements as the destination has: the
  loop that is to update the other members has nothing to run over.
\<close>

definition go_copy :: "'a list \<Rightarrow> 'a list \<Rightarrow> 'a list" where
  "go_copy dst src = take (length dst) src @ drop (length src) dst"

definition update_member :: "string \<Rightarrow> string list \<Rightarrow> nat \<Rightarrow> groups \<Rightarrow> groups" where
  "update_member owner toBeUpdated i members =
     setValue members (toBeUpdated ! i) (take i toBeUpdated @ drop (i + 1) toBeUpdated @ [owner])"

definition JoinCluster :: "string \<Rightarrow> string \<Rightarrow> groups \<Rightarrow> groups" where
  "JoinCluster owner contact members =
     (let toJoin = group_of members contact;
          mygroup = group_of members owner
      in if contact \<in> set mygroup then members
         else
           (let members1 = setValue members owner (mygroup @ [contact] @ toJoin);
                toBeUpdated = go_copy [] (toJoin @ [contact])
            in fold (update_member owner toBeUpdated) [0..<length toBeUpdated] members1))"

definition leave_entry :: "string \<Rightarrow> string \<Rightarrow> string list \<Rightarrow> groups \<Rightarrow> groups" where
  "leave_entry owner member memberGroup members =
     (if member \<noteq> owner
      then (if owner \<in> set memberGroup then setValue members member (remove1 owner memberGroup) else members)
      else deleteValue members owner)"

definition LeaveCluster :: "string \<Rightarrow> string list \<Rightarrow> groups \<Rightarrow> groups" where
  "LeaveCluster owner ord members = iterate (leave_entry owner) ord members members"

definition GetMembers :: "string \<Rightarrow> groups \<Rightarrow> string list" where
  "GetMembers owner members = group_of members owner"

section \<open>Immutable storage\<close>

type_synonym cache = "(bytes, bytes) mutexmap"

definition mock_Store :: "(bytes \<Rightarrow> bytes \<Rightarrow> bool) \<Rightarrow> bytes \<Rightarrow> bytes \<Rightarrow> cache \<Rightarrow> go_error option \<times> cache" where
  "mock_Store validate key message m =
     (if \<not> validate key message then (Some (ErrNew ''invalid key''), m) else (None, setValue m key message))"

definition mock_Read :: "bytes \<Rightarrow> cache \<Rightarrow> (go_error + bytes) outcome" where
  "mock_Read key m =
     (case getValue m key of
        None \<Rightarrow> Ret (Inl (ErrNew ''not discovered''))
      | Some msg \<Rightarrow> if length msg < 48 then Panic SliceBounds else Ret (Inr (drop 48 msg)))"

definition mock_AvailableKeys :: "bytes list \<Rightarrow> cache \<Rightarrow> bytes list" where
  "mock_AvailableKeys ord m = iterate (\<lambda>key msg result. result @ [key]) ord m []"

definition mock_IsDiscovered :: "bytes \<Rightarrow> cache \<Rightarrow> bool" where
  "mock_IsDiscovered key m = (getValue m key \<noteq> None)"

section \<open>Properties\<close>

text \<open>
  Joining through a contact changes the group of the joining node only.  The contact and the
  members of its group never learn of the new node, because the slice of members to update is copied into an empty
  one.
\<close>

theorem join_is_one_sided:
  "getValue (JoinCluster owner contact members) other =
     (if other = owner \<and> contact \<notin> set (GetMembers owner members)
      then Some (GetMembers owner members @ contact # GetMembers contact members)
      else getValue members other)"
  by (simp add: JoinCluster_def go_copy_def Let_def GetMembers_def mm.get_put)

lemma leave_fold:
  "distinct (map fst es) \<Longrightarrow>
   getValue (fold (\<lambda>(k, g). leave_entry owner k g) es acc) x =
     (case map_of es x of
        None \<Rightarrow> getValue acc x
      | Some g \<Rightarrow> if x = owner then None
                  else if owner \<in> set g then Some (remove1 owner g) else getValue acc x)"
proof (induction es arbitrary: acc)
  case Nil
  then show ?case by simp
next
  case (Cons e es)
  obtain k g where e: "e = (k, g)"
    by (cases e)
  have "map_of es k = None"
    using Cons.prems e by (auto simp: map_of_eq_None_iff)
  with Cons e show ?case
    by (auto simp: leave_entry_def mm.get_put mm.get_drop split: option.splits)
qed

text \<open>
  Leaving removes the node's own group and one occurrence of the node from every other group, in
  whatever order the table is visited while it is being changed.
\<close>

theorem leave_removes_owner:
  assumes "wf_map members"
  shows "getValue (LeaveCluster owner ord members) x =
     (if x = owner then None else map_option (remove1 owner) (getValue members x))"
proof -
  have dist: "distinct (map fst (range_entries ord members))"
    using assms by (rule mm.entries_distinct)
  have "map_of (range_entries ord members) x = getValue members x"
  proof (cases "getValue members x")
    case None
    then have "x \<notin> fst ` set (range_entries ord members)"
      by (auto simp: mm.entries_mem [OF assms])
    with None show ?thesis
      by (simp add: map_of_eq_None_iff)
  next
    case (Some g)
    then have "(x, g) \<in> set (range_entries ord members)"
      by (simp add: mm.entries_mem [OF assms])
    with Some dist show ?thesis
      by simp
  qed
  then show ?thesis
    by (auto simp: LeaveCluster_def iterate_def leave_fold [OF dist] remove1_idem split: option.splits)
qed

theorem leave_removes_owner_witness:
  "getValue (LeaveCluster ''a'' [''a'', ''b''] [(''a'', [''b'']), (''b'', [''a'', ''c''])]) ''b'' = Some [''c'']"
  by (subst leave_removes_owner) (simp_all add: wf_map_def getValue_def)

text \<open>
  A message that the mock store accepts is discovered at once; reading it back gives it without its first
  48 bytes, and panics when it is shorter than that.  A rejected message leaves the store as it was.
\<close>

theorem mock_store_read:
  "(if validate key message
    then mock_IsDiscovered key (snd (mock_Store validate key message m)) \<and>
         mock_Read key (snd (mock_Store validate key message m)) =
           (if length message < 48 then Panic SliceBounds else Ret (Inr (drop 48 message)))
    else snd (mock_Store validate key message m) = m \<and> fst (mock_Store validate key message m) \<noteq> None)"
  by (simp add: mock_Store_def mock_Read_def mock_IsDiscovered_def)

section \<open>Shared caches\<close>

text \<open>
  A \<open>MockIS\<close> holds a pointer to a mutex and a map, which in Go is a reference as well: mocks made by \<open>ShareCacheWith\<close>
  have both in common.  The references are addresses of a heap that holds the caches; every operation runs
  under the mutex of its cache, so it is one step on the heap.
\<close>

record MockIS =
  mi_lock :: nat
  mi_cache :: nat

record mock_heap =
  mh_caches :: "(nat, cache) mutexmap"
  mh_next :: nat

definition NewMockIS :: "mock_heap \<Rightarrow> MockIS \<times> mock_heap" where
  "NewMockIS h =
     (\<lparr>mi_lock = mh_next h, mi_cache = Suc (mh_next h)\<rparr>,
      \<lparr>mh_caches = setValue (mh_caches h) (Suc (mh_next h)) NewMutexMap, mh_next = mh_next h + 2\<rparr>)"

definition ShareCacheWith :: "MockIS \<Rightarrow> MockIS" where
  "ShareCacheWith other = \<lparr>mi_lock = mi_lock other, mi_cache = mi_cache other\<rparr>"

definition cache_of :: "mock_heap \<Rightarrow> MockIS \<Rightarrow> cache" where
  "cache_of h m = (case getValue (mh_caches h) (mi_cache m) of None \<Rightarrow> NewMutexMap | Some c \<Rightarrow> c)"

definition shared_Store ::
    "(bytes \<Rightarrow> bytes \<Rightarrow> bool) \<Rightarrow> MockIS \<Rightarrow> bytes \<Rightarrow> bytes \<Rightarrow> mock_heap \<Rightarrow> go_error option \<times> mock_heap" where
  "shared_Store validate m key message h =
     (let (err, c) = mock_Store validate key message (cache_of h m)
      in (err, h\<lparr>mh_caches := setValue (mh_caches h) (mi_cache m) c\<rparr>))"

definition shared_Read :: "MockIS \<Rightarrow> bytes \<Rightarrow> mock_heap \<Rightarrow> (go_error + bytes) outcome" where
  "shared_Read m key h = mock_Read key (cache_of h m)"

definition shared_IsDiscovered :: "MockIS \<Rightarrow> bytes \<Rightarrow> mock_heap \<Rightarrow> bool" where
  "shared_IsDiscovered m key h = mock_IsDiscovered key (cache_of h m)"

lemma cache_of_store:
  "cache_of (snd (shared_Store validate m key message h)) m' =
     (if mi_cache m' = mi_cache m then snd (mock_Store validate key message (cache_of h m)) else cache_of h m')"
  by (simp add: shared_Store_def cache_of_def mm.get_put split: prod.split)

text \<open>
  What one mock accepts is discovered and read by every mock that shares its cache, and by no other.
\<close>

theorem shared_store_seen:
  assumes "validate key message"
  shows "shared_IsDiscovered m' key (snd (shared_Store validate m key message h)) \<longleftrightarrow>
           mi_cache m' = mi_cache m \<or> shared_IsDiscovered m' key h"
    and "shared_Read (ShareCacheWith m) key (snd (shared_Store validate m key message h)) =
           (if length message < 48 then Panic SliceBounds else Ret (Inr (drop 48 message)))"
  using assms
  by (simp_all add: shared_IsDiscovered_def shared_Read_def cache_of_store ShareCacheWith_def mock_Store_def
      mock_IsDiscovered_def mock_Read_def mm.get_put)

text \<open>A new mock starts empty, with a cache that no mock made before has.\<close>

definition heap_ok :: "mock_heap \<Rightarrow> MockIS list \<Rightarrow> bool" where
  "heap_ok h ms \<longleftrightarrow> (\<forall>m \<in> set ms. mi_lock m < mh_next h \<and> mi_cache m < mh_next h)"

theorem new_mock_apart:
  assumes "heap_ok h ms" and "NewMockIS h = (m, h')"
  shows "heap_ok h' (m # ms)" and "\<not> shared_IsDiscovered m key h'"
    and "m' \<in> set ms \<Longrightarrow> cache_of h' m' = cache_of h m'"
    and "m' \<in> set ms \<Longrightarrow> cache_of (snd (shared_Store validate m key message h')) m' = cache_of h m'"
  using assms
  by (auto simp: heap_ok_def NewMockIS_def cache_of_store shared_IsDiscovered_def mock_IsDiscovered_def)
    (auto simp: cache_of_def mm.get_put NewMutexMap_def getValue_def)

end
