(* ===== verification/HealthLocks.thy ===== *)
theory HealthLocks
  imports Maintenance Transitions
begin

text \<open>
  The health checks of several nodes and the locks of their path tables.  \<open>invalidPathProfiles\<close> asks the next hop of every
  path from inside \<open>iterate\<close>, so the node holds its read lock until the last answer is in; \<open>handleQueryPathReq\<close> on the
  asked node takes that node's read lock twice, in \<open>getSize\<close> and in \<open>iterate\<close>.  A \<open>sync.RWMutex\<close> lets no
  reader in while a writer holds the lock or waits for it, and lets a writer in only when no reader holds it.

  The state of a node is its health check (the hops still to be asked, and for each hop asked so far whether it
  answered), the progress its current query has made on the node it asks, and one goroutine that writes to the table
  (any of \<open>setValue\<close>, \<open>deleteValue\<close>, \<open>Publish\<close>, \<open>markPublishJobStatus\<close>).  \<open>hops\<close> are the next hops of a node's paths.
\<close>

section \<open>Checks, queries and writers\<close>

datatype 'n check = Idle | Asking "'n list" "bool list" | Checked "bool list"

datatype query = AtSize | AtIterate | Answered

datatype writer = NoWriter | Waiting | Writing

record 'n checks =
  check_of :: "'n \<Rightarrow> 'n check"
  query_of :: "'n \<Rightarrow> query"
  writer_of :: "'n \<Rightarrow> writer"

definition reading :: "'n checks \<Rightarrow> 'n \<Rightarrow> bool" where
  "reading r i \<longleftrightarrow> (case check_of r i of Asking js rs \<Rightarrow> True | _ \<Rightarrow> False)"

definition admits_reader :: "'n checks \<Rightarrow> 'n \<Rightarrow> bool" where
  "admits_reader r i \<longleftrightarrow> writer_of r i = NoWriter"

definition set_check :: "'n \<Rightarrow> 'n check \<Rightarrow> 'n checks \<Rightarrow> 'n checks" where
  "set_check i c r = r\<lparr>check_of := (check_of r)(i := c)\<rparr>"

definition set_query :: "'n \<Rightarrow> query \<Rightarrow> 'n checks \<Rightarrow> 'n checks" where
  "set_query i q r = r\<lparr>query_of := (query_of r)(i := q)\<rparr>"

definition set_writer :: "'n \<Rightarrow> writer \<Rightarrow> 'n checks \<Rightarrow> 'n checks" where
  "set_writer i w r = r\<lparr>writer_of := (writer_of r)(i := w)\<rparr>"

text \<open>What the goroutines of one node that are under way can do without a timer.\<close>

inductive check_moves :: "'n \<Rightarrow> 'n checks \<Rightarrow> 'n checks \<Rightarrow> bool" where
  size_read: "check_of r i = Asking (j # js) rs \<Longrightarrow> query_of r i = AtSize \<Longrightarrow> admits_reader r j \<Longrightarrow>
    check_moves i r (set_query i AtIterate r)"
| table_read: "check_of r i = Asking (j # js) rs \<Longrightarrow> query_of r i = AtIterate \<Longrightarrow> admits_reader r j \<Longrightarrow>
    check_moves i r (set_query i Answered r)"
| answer: "check_of r i = Asking (j # js) rs \<Longrightarrow> query_of r i = Answered \<Longrightarrow>
    check_moves i r (set_query i AtSize (set_check i (Asking js (rs @ [True])) r))"
| unlock_read: "check_of r i = Asking [] rs \<Longrightarrow> check_moves i r (set_check i (Checked rs) r)"
| lock_write: "writer_of r i = Waiting \<Longrightarrow> \<not> reading r i \<Longrightarrow> check_moves i r (set_writer i Writing r)"
| unlock_write: "writer_of r i = Writing \<Longrightarrow> check_moves i r (set_writer i NoWriter r)"

text \<open>Checks and writers that begin, and the timer of a request.\<close>

inductive check_step :: "('n \<Rightarrow> 'n list) \<Rightarrow> 'n checks \<Rightarrow> 'n checks \<Rightarrow> bool" for hops :: "'n \<Rightarrow> 'n list" where
  move: "check_moves i r r' \<Longrightarrow> check_step hops r r'"
| begin_check: "\<not> reading r i \<Longrightarrow> admits_reader r i \<Longrightarrow>
    check_step hops r (set_query i AtSize (set_check i (Asking (hops i) []) r))"
| begin_write: "writer_of r i = NoWriter \<Longrightarrow> check_step hops r (set_writer i Waiting r)"
| request_timeout: "check_of r i = Asking (j # js) rs \<Longrightarrow>
    check_step hops r (set_query i AtSize (set_check i (Asking js (rs @ [False])) r))"

definition checks_start :: "'n checks \<Rightarrow> bool" where
  "checks_start r \<longleftrightarrow> (\<forall>i. check_of r i = Idle \<and> writer_of r i = NoWriter)"

lemmas check_updates [simp] = set_check_def set_query_def set_writer_def

section \<open>The invariant\<close>

definition checks_inv :: "('n \<Rightarrow> 'n list) \<Rightarrow> 'n checks \<Rightarrow> bool" where
  "checks_inv hops r \<longleftrightarrow>
     (\<forall>i js rs. check_of r i = Asking js rs \<longrightarrow>
        writer_of r i \<noteq> Writing \<and> js = drop (length rs) (hops i) \<and> length rs \<le> length (hops i)) \<and>
     (\<forall>i rs. check_of r i = Checked rs \<longrightarrow> length rs = length (hops i))"

lemma drop_Suc_tl: "x # xs = drop n ys \<Longrightarrow> n \<le> length ys \<Longrightarrow> xs = drop (Suc n) ys \<and> Suc n \<le> length ys"
  by (metis Suc_leI drop_Suc drop_all drop_tl le_neq_implies_less list.distinct(1) list.sel(3) order_refl)

lemma checks_inv_moves: "checks_inv hops r \<Longrightarrow> check_moves i r r' \<Longrightarrow> checks_inv hops r'"
  by (erule check_moves.cases) (fastforce simp: checks_inv_def reading_def dest: drop_Suc_tl)+

lemma checks_inv_step: "checks_inv hops r \<Longrightarrow> check_step hops r r' \<Longrightarrow> checks_inv hops r'"
  by (erule check_step.cases)
    (fastforce simp: checks_inv_def admits_reader_def dest: drop_Suc_tl intro: checks_inv_moves)+

interpretation health_checks: inductive_invariant checks_start "check_step hops" "checks_inv hops" for hops
proof unfold_locales
  show "checks_inv hops s" if "checks_start s" for s
    using that by (simp add: checks_start_def checks_inv_def)
qed (rule checks_inv_step)

section \<open>Who waits for whom\<close>

definition asks :: "'n checks \<Rightarrow> ('n \<times> 'n) set" where
  "asks r = {(i, j). \<exists>js rs. check_of r i = Asking (j # js) rs}"

text \<open>If neither a node nor the one it asks can move, then the latter has a writer that waits for its own check.\<close>

lemma stuck_waits:
  assumes "\<forall>r'. \<not> check_moves i r r'" and "\<forall>j r'. (i, j) \<in> asks r \<longrightarrow> \<not> check_moves j r r'"
    and "check_of r i = Asking js rs"
  shows "\<exists>j js'. js = j # js' \<and> writer_of r j = Waiting \<and> reading r j"
proof (cases js)
  case Nil
  with assms(1,3) show ?thesis
    by (metis unlock_read)
next
  case (Cons j js')
  then have "query_of r i \<noteq> Answered" "\<not> admits_reader r j"
    using assms(1,3) by (metis answer, metis size_read table_read answer query.exhaust)
  moreover have "(i, j) \<in> asks r"
    using Cons assms(3) by (auto simp: asks_def)
  then have "writer_of r j \<noteq> Writing" "writer_of r j = Waiting \<longrightarrow> reading r j"
    using assms(2) by (metis unlock_write, metis lock_write)
  ultimately show ?thesis
    using Cons by (cases "writer_of r j") (auto simp: admits_reader_def)
qed

definition waits_for :: "'n checks \<Rightarrow> ('n \<times> 'n) set" where
  "waits_for r = {(i, j). (\<exists>js rs. check_of r i = Asking (j # js) rs) \<and> writer_of r j = Waiting \<and> reading r j}"

lemma reading_Asking: "reading r i \<longleftrightarrow> (\<exists>js rs. check_of r i = Asking js rs)"
  by (auto simp: reading_def split: check.splits)

lemma stuck_successor:
  assumes "\<forall>r'. \<not> check_moves i r r'" and "\<forall>j r'. (i, j) \<in> asks r \<longrightarrow> \<not> check_moves j r r'" and "reading r i"
  shows "\<exists>j. (i, j) \<in> waits_for r"
proof -
  obtain js rs where "check_of r i = Asking js rs"
    using assms(3) by (auto simp: reading_Asking)
  with stuck_waits [OF assms(1,2) this] show ?thesis
    by (auto simp: waits_for_def)
qed

lemma waits_for_asks: "(waits_for r)\<^sup>* \<subseteq> (asks r)\<^sup>*"
  by (rule rtrancl_mono) (auto simp: waits_for_def asks_def)

lemma waits_for_reading: "(i, j) \<in> waits_for r \<Longrightarrow> reading r i \<and> reading r j"
  by (auto simp: waits_for_def reading_Asking)

lemma waits_for_hops: "checks_inv hops r \<Longrightarrow> waits_for r \<subseteq> {(i, j). j \<in> set (hops i)}"
proof clarify
  fix i j
  assume inv: "checks_inv hops r" and "(i, j) \<in> waits_for r"
  then obtain js rs where "check_of r i = Asking (j # js) rs"
    by (auto simp: waits_for_def)
  then have "j # js = drop (length rs) (hops i)"
    using inv by (simp add: checks_inv_def)
  then have "j \<in> set (drop (length rs) (hops i))"
    by (metis list.set_intros(1))
  then show "j \<in> set (hops i)"
    by (rule in_set_dropD)
qed

text \<open>
  Property C25: a health check under way can go on without any timer: some node along the chain of those it asks, who asks
  whom, can move, unless the chain leads to a cycle: nodes that all check at the same time, each asking the next
  one, each with a writer that waits for its own check.  Such a cycle is one of next hops, so while the next hops of all
  trees together have no cycle no check waits in vain.
\<close>

theorem check_stalls_only_on_cycle:
  assumes "reach checks_start (check_step hops) r" and "finite {i. reading r i}" and "reading r i"
  shows "(\<exists>j r'. (i, j) \<in> (asks r)\<^sup>* \<and> check_moves j r r') \<or>
    (\<exists>j. (i, j) \<in> (waits_for r)\<^sup>* \<and> (j, j) \<in> (waits_for r)\<^sup>+ \<and> (j, j) \<in> {(a, b). b \<in> set (hops a)}\<^sup>+)"
proof (rule disjCI)
  assume "\<nexists>j. (i, j) \<in> (waits_for r)\<^sup>* \<and> (j, j) \<in> (waits_for r)\<^sup>+ \<and> (j, j) \<in> {(a, b). b \<in> set (hops a)}\<^sup>+"
  then have no: "\<nexists>j. (i, j) \<in> (waits_for r)\<^sup>* \<and> (j, j) \<in> (waits_for r)\<^sup>+"
    using waits_for_hops [OF health_checks.reachable_inv [OF assms(1)]] by (blast dest: trancl_mono)
  have "waits_for r \<subseteq> {i. reading r i} \<times> {i. reading r i}"
    by (auto dest: waits_for_reading)
  then have fin: "finite (waits_for r)"
    by (rule finite_subset) (rule finite_cartesian_product [OF assms(2,2)])
  show "\<exists>j r'. (i, j) \<in> (asks r)\<^sup>* \<and> check_moves j r r'"
  proof (rule ccontr)
    assume stuck: "\<not> ?thesis"
    have "\<exists>k. (j, k) \<in> waits_for r" if "(i, j) \<in> (waits_for r)\<^sup>*" for j
    proof (rule stuck_successor)
      have "(i, j) \<in> (asks r)\<^sup>*"
        using that waits_for_asks by blast
      with stuck show "\<forall>r'. \<not> check_moves j r r'" "\<forall>k r'. (j, k) \<in> asks r \<longrightarrow> \<not> check_moves k r r'"
        by (blast intro: rtrancl_into_rtrancl)+
      show "reading r j"
        using that assms(3) by (induction rule: rtrancl_induct) (simp_all add: waits_for_reading)
    qed
    then show False
      using finite_cycle [OF fin] no by blast
  qed
qed

section \<open>Checks that block each other\<close>

definition blocked :: "('n \<Rightarrow> 'n list) \<Rightarrow> 'n set \<Rightarrow> 'n set \<Rightarrow> 'n set \<Rightarrow> 'n checks" where
  "blocked hops C W T =
     \<lparr>check_of = (\<lambda>i. if i \<in> T then Asking (tl (hops i)) [False] else if i \<in> C then Asking (hops i) [] else Idle),
      query_of = (\<lambda>i. AtSize), writer_of = (\<lambda>i. if i \<in> W then Waiting else NoWriter)\<rparr>"

lemma blocked_checks: "finite C \<Longrightarrow> reach checks_start (check_step hops) (blocked hops C {} {})"
proof (induction rule: finite_induct)
  case empty
  show ?case
    by (rule reach_init) (simp add: checks_start_def blocked_def)
next
  case (insert i C)
  let ?r = "blocked hops C {} {}"
  have "check_step hops ?r (set_query i AtSize (set_check i (Asking (hops i) []) ?r))"
    by (rule begin_check) (use insert in \<open>auto simp: reading_def admits_reader_def blocked_def\<close>)
  moreover have "set_query i AtSize (set_check i (Asking (hops i) []) ?r) = blocked hops (insert i C) {} {}"
    by (auto simp: blocked_def)
  ultimately show ?case
    using insert.IH by (metis reach_step)
qed

lemma blocked_writers:
  "finite W \<Longrightarrow> finite C \<Longrightarrow> reach checks_start (check_step hops) (blocked hops C W {})"
proof (induction rule: finite_induct)
  case empty
  then show ?case by (simp add: blocked_checks)
next
  case (insert i W)
  let ?r = "blocked hops C W {}"
  have "check_step hops ?r (set_writer i Waiting ?r)"
    by (rule begin_write) (use insert in \<open>simp add: blocked_def\<close>)
  moreover have "set_writer i Waiting ?r = blocked hops C (insert i W) {}"
    by (auto simp: blocked_def)
  ultimately show ?case
    using insert by (metis reach_step)
qed

lemma blocked_timers:
  "finite T \<Longrightarrow> T \<subseteq> C \<Longrightarrow> \<forall>i \<in> C. hops i \<noteq> [] \<Longrightarrow>
   (check_step hops)\<^sup>*\<^sup>* (blocked hops C C {}) (blocked hops C C T)"
proof (induction rule: finite_induct)
  case empty
  then show ?case by simp
next
  case (insert i T)
  let ?r = "blocked hops C C T"
  obtain j js where hops: "hops i = j # js"
    using insert.prems by (metis insert_subset neq_Nil_conv)
  have "check_step hops ?r (set_query i AtSize (set_check i (Asking js ([] @ [False])) ?r))"
    by (rule request_timeout) (use insert hops in \<open>simp add: blocked_def\<close>)
  moreover have "set_query i AtSize (set_check i (Asking js ([] @ [False])) ?r) = blocked hops C C (insert i T)"
    using hops by (auto simp: blocked_def)
  ultimately show ?case
    using insert by (metis insert_subset rtranclp.rtrancl_into_rtrancl)
qed

lemma blocked_stuck:
  assumes "\<forall>i \<in> C. hops i \<noteq> [] \<and> hd (hops i) \<in> C"
  shows "\<not> check_moves i (blocked hops C C {}) r'"
proof
  assume "check_moves i (blocked hops C C {}) r'"
  then show False
    using assms by cases (auto simp: blocked_def admits_reader_def reading_def split: if_splits)
qed

text \<open>A check that timed out is a failed request, and the path is reported to be cleaned.\<close>

lemma timed_out_cleaned:
  assumes "\<forall>t ip m. e_arrival E t ip m = TimedOut" and "p_next p \<noteq> IS"
  shows "fst (invalid_step E k p (rs, s)) = rs @ [clean_report p]"
proof -
  obtain err u where "sendQueryPathRequest E (p_next p) s = (Inl err, u)"
    using assms(1)
    by (fastforce simp: sendQueryPathRequest_def tcpSendAndWaitResponse_def waitForResponse_def Let_def
        split: sum.splits option.splits)
  with assms(2) show ?thesis
    by (simp add: invalid_step_def judge_path_def)
qed

text \<open>
  Property C26: nodes whose first next hops lead round in a circle (two nodes that use each other on different trees are
  enough) block each other.  There is an interleaving after which each of them waits for the answer of the next one,
  none of which can be given, as a writer on every node waits for that node's check; only the timers of the requests
  end this, and then every one of these healthy hops counts as one that did not answer, so that its path is cleaned.
\<close>

theorem checks_block_each_other:
  assumes "finite C" and "\<forall>i \<in> C. hops i \<noteq> [] \<and> hd (hops i) \<in> C"
  shows "\<exists>r r'. reach checks_start (check_step hops) r \<and> (\<forall>i u. \<not> check_moves i r u) \<and>
      (\<forall>i \<in> C. check_of r i = Asking (hops i) [] \<and> writer_of r i = Waiting) \<and>
    (check_step hops)\<^sup>*\<^sup>* r r' \<and> (\<forall>i \<in> C. check_of r' i = Asking (tl (hops i)) [False]) \<and>
    (\<forall>E k p rs s. (\<forall>t ip m. e_arrival E t ip m = TimedOut) \<and> p_next p \<noteq> IS \<longrightarrow>
       fst (invalid_step E k p (rs, s)) = rs @ [clean_report p])"
proof (intro exI conjI)
  show "reach checks_start (check_step hops) (blocked hops C C {})"
    by (rule blocked_writers [OF assms(1,1)])
  show "\<forall>i u. \<not> check_moves i (blocked hops C C {}) u"
    using blocked_stuck [OF assms(2)] by blast
  show "(check_step hops)\<^sup>*\<^sup>* (blocked hops C C {}) (blocked hops C C C)"
    by (rule blocked_timers [OF assms(1) subset_refl]) (use assms(2) in blast)
qed (auto simp: blocked_def timed_out_cleaned)

text \<open>Two nodes, each the next hop of the other on one tree.\<close>

theorem checks_block_each_other_witness:
  "\<exists>r. reach checks_start (check_step (\<lambda>i. [\<not> i])) r \<and> (\<forall>i u. \<not> check_moves i r u) \<and>
     check_of r True = Asking [False] [] \<and> check_of r False = Asking [True] []"
  using checks_block_each_other [of UNIV "\<lambda>i. [\<not> i]"] by auto

theorem check_stalls_only_on_cycle_witness:
  "\<exists>r. reach checks_start (check_step (\<lambda>i. [\<not> i])) r \<and> reading r True \<and>
     ((\<exists>j r'. check_moves j r r') \<or> (True, True) \<in> {(a, b). b \<in> set [\<not> a]}\<^sup>+)"
proof -
  have r: "reach checks_start (check_step (\<lambda>i. [\<not> i])) (blocked (\<lambda>i. [\<not> i]) UNIV {} {})"
    by (rule blocked_checks) simp
  moreover have "reading (blocked (\<lambda>i. [\<not> i]) UNIV {} {}) i" for i :: bool
    by (simp add: reading_def blocked_def)
  moreover have "(j, j) \<in> {(a, b). b \<in> set [\<not> a]}\<^sup>+" for j :: bool
    by (rule trancl_trans [of _ "\<not> j"]) (auto intro: r_into_trancl)
  ultimately show ?thesis
    using check_stalls_only_on_cycle [OF r, of True] by auto
qed

end
