(* ===== verification/MoveUpRace.thy ===== *)
theory MoveUpRace
  imports Publishing Delivery Transitions
begin

text \<open>
  The two goroutines that follow when the health worker gives up a path and moves up.  The cancelled worker of the old path
  cleans up: it looks up the path's current next hop, and then removes the path if that is the address of its own connection
  (\<open>sendCoverMessageWorker\<close>, \<open>p2p/workers.go\<close>).  \<open>MoveUp\<close> meanwhile reconnects the path under its identifier: \<open>ConnectPath\<close>
  (\<open>p2p/node.go\<close>) stores the new path, starts its worker and enters its connection.  Look-up, removal and the
  three actions of the other are critical sections of their own, and \<open>Publish\<close> and job results run between them.
\<close>

section \<open>The steps\<close>

datatype cleaner = Sending | Looked bool | Removed | Cleaned

datatype mover = Connecting | Stored ctx | Spawned ctx | Moved ctx

text \<open>\<open>mv_overtaken\<close> records that the new path was stored between the look-up and the removal; no step reads it.\<close>

record moving =
  mv_node :: state
  mv_cleaner :: cleaner
  mv_mover :: mover
  mv_overtaken :: bool

text \<open>The old path's connection, and the path and connection that replace it.\<close>

record replacement =
  rp_tree :: uuid
  rp_old :: TCPConnectionProfile
  rp_fresh :: PathProfile
  rp_conn :: TCPConnectionProfile

definition new_path :: "replacement \<Rightarrow> ctx \<Rightarrow> PathProfile" where
  "new_path R ctx = (rp_fresh R)\<lparr>p_cancelFunc := Some ctx\<rparr>"

definition looks_up :: "replacement \<Rightarrow> state \<Rightarrow> bool" where
  "looks_up R s \<longleftrightarrow> (case getValue (paths s) (rp_tree R) of None \<Rightarrow> '''' | Some p \<Rightarrow> p_next p) = tc_IP (rp_old R)"

definition removes :: "replacement \<Rightarrow> bool \<Rightarrow> state \<Rightarrow> state" where
  "removes R found s = (if found then s\<lparr>paths := deleteValue (paths s) (rp_tree R)\<rparr> else s)"

definition closes :: "replacement \<Rightarrow> state \<Rightarrow> state" where
  "closes R s = (case tc_Conn (rp_old R) of None \<Rightarrow> s | Some c \<Rightarrow> close_conn c s)"

definition stores :: "replacement \<Rightarrow> state \<Rightarrow> state" where
  "stores R s = (tick s)\<lparr>paths := setValue (paths s) (rp_tree R) (new_path R (clock s))\<rparr>"

definition starts :: "replacement \<Rightarrow> ctx \<Rightarrow> state \<Rightarrow> state" where
  "starts R ctx s = spawn (SendCoverMessageWorker ctx (rp_conn R) (new_path R ctx)) s"

definition opens :: "replacement \<Rightarrow> state \<Rightarrow> state" where
  "opens R s = s\<lparr>openConnections := setValue (openConnections s) (rp_tree R) (rp_conn R)\<rparr>"

inductive move_step :: "env \<Rightarrow> replacement \<Rightarrow> moving \<Rightarrow> moving \<Rightarrow> bool" for E :: env and R :: replacement where
  look_up: "mv_cleaner r = Sending \<Longrightarrow> move_step E R r (r\<lparr>mv_cleaner := Looked (looks_up R (mv_node r))\<rparr>)"
| remove: "mv_cleaner r = Looked found \<Longrightarrow>
    move_step E R r (r\<lparr>mv_cleaner := Removed, mv_node := removes R found (mv_node r)\<rparr>)"
| close: "mv_cleaner r = Removed \<Longrightarrow> move_step E R r (r\<lparr>mv_cleaner := Cleaned, mv_node := closes R (mv_node r)\<rparr>)"
| store: "mv_mover r = Connecting \<Longrightarrow>
    move_step E R r (r\<lparr>mv_mover := Stored (clock (mv_node r)), mv_node := stores R (mv_node r),
      mv_overtaken := (mv_cleaner r = Looked True)\<rparr>)"
| start: "mv_mover r = Stored ctx \<Longrightarrow> move_step E R r (r\<lparr>mv_mover := Spawned ctx, mv_node := starts R ctx (mv_node r)\<rparr>)"
| open_conn: "mv_mover r = Spawned ctx \<Longrightarrow> move_step E R r (r\<lparr>mv_mover := Moved ctx, mv_node := opens R (mv_node r)\<rparr>)"
| publish: "Publish E key m target (mv_node r) = Ret (res, s) \<Longrightarrow> move_step E R r (r\<lparr>mv_node := s\<rparr>)"
| job_result: "move_step E R r (r\<lparr>mv_node := markPublishJobStatus jobID job (mv_node r)\<rparr>)"
| time: "move_step E R r (r\<lparr>mv_node := tick (mv_node r)\<rparr>)"

text \<open>One after the other the parts are the operations of the sequential model.\<close>

lemma cleanup_parts:
  assumes "p_uuid old = rp_tree R"
  shows "sendCover_cleanup (rp_old R) old s = closes R (removes R (looks_up R s) s)"
  unfolding sendCover_cleanup_def closes_def removes_def looks_up_def Let_def assms by simp

lemma install_parts: "install_path (rp_fresh R) (rp_conn R) (rp_tree R) s = opens R (starts R (clock s) (stores R s))"
  by (simp add: install_path_def opens_def starts_def stores_def new_path_def Let_def tick_def spawn_def)

section \<open>When the new path survives\<close>

text \<open>The same path, whatever has been counted on it.\<close>

definition recounted :: "PathProfile \<Rightarrow> PathProfile \<Rightarrow> bool" where
  "recounted p q \<longleftrightarrow> (\<exists>m n. q = p\<lparr>p_successCount := m, p_failureCount := n\<rparr>)"

lemma recounted_refl [simp]: "recounted p p"
  unfolding recounted_def by (rule exI [of _ "p_successCount p"], rule exI [of _ "p_failureCount p"]) simp

definition in_table :: "uuid \<Rightarrow> PathProfile \<Rightarrow> state \<Rightarrow> bool" where
  "in_table tree p s \<longleftrightarrow> (\<exists>q. getValue (paths s) tree = Some q \<and> recounted p q)"

definition move_start :: "replacement \<Rightarrow> moving \<Rightarrow> bool" where
  "move_start R r \<longleftrightarrow> mv_cleaner r = Sending \<and> mv_mover r = Connecting \<and> \<not> mv_overtaken r"

definition mover_ctx :: "mover \<Rightarrow> ctx option" where
  "mover_ctx m = (case m of Connecting \<Rightarrow> None | Stored c \<Rightarrow> Some c | Spawned c \<Rightarrow> Some c | Moved c \<Rightarrow> Some c)"

definition removed :: "moving \<Rightarrow> bool" where
  "removed r \<longleftrightarrow> mv_overtaken r \<and> mv_cleaner r \<in> {Removed, Cleaned}"

definition move_inv :: "replacement \<Rightarrow> moving \<Rightarrow> bool" where
  "move_inv R r \<longleftrightarrow>
     (case mover_ctx (mv_mover r) of
        None \<Rightarrow> \<not> mv_overtaken r
      | Some c \<Rightarrow>
          (mv_cleaner r = Looked True \<longrightarrow> mv_overtaken r) \<and> (mv_overtaken r \<longrightarrow> mv_cleaner r \<notin> {Sending, Looked False}) \<and>
          (if removed r then getValue (paths (mv_node r)) (rp_tree R) = None
           else in_table (rp_tree R) (new_path R c) (mv_node r)))"

lemma recounted_counts [simp]:
  "recounted p (q\<lparr>p_successCount := n\<rparr>) \<longleftrightarrow> recounted p q" "recounted p (q\<lparr>p_failureCount := n\<rparr>) \<longleftrightarrow> recounted p q"
  by (cases p; cases q; auto simp: recounted_def)+

lemma in_table_paths: "paths s' = paths s \<Longrightarrow> in_table tree p s' \<longleftrightarrow> in_table tree p s"
  by (simp add: in_table_def)

lemma mark_in_table:
  "in_table tree p s \<Longrightarrow> in_table tree p (markPublishJobStatus jobID job s)"
  "getValue (paths (markPublishJobStatus jobID job s)) tree = None \<longleftrightarrow> getValue (paths s) tree = None"
  by (auto simp: in_table_def markPublishJobStatus_def Let_def mm.get_put split: option.splits if_splits)

text \<open>A step of the node that keeps the table of paths keeps the invariant, whoever of the two takes it next.\<close>

lemma parts_paths [simp]:
  "paths (closes R s) = paths s" "paths (starts R c s) = paths s" "paths (opens R s) = paths s" "paths (tick s) = paths s"
  by (simp_all add: closes_def close_conn_def starts_def spawn_def opens_def tick_def split: option.split)

lemma move_inv_paths:
  assumes "move_inv R r" and "paths (mv_node r') = paths (mv_node r)" and "mv_overtaken r' = mv_overtaken r"
    and "mover_ctx (mv_mover r') = mover_ctx (mv_mover r)"
    and "mv_cleaner r' = mv_cleaner r \<or> mv_cleaner r = Removed \<and> mv_cleaner r' = Cleaned"
  shows "move_inv R r'"
  using assms in_table_paths [OF assms(2)]
  by (auto simp: move_inv_def removed_def split: option.splits if_splits)

lemma move_inv_step:
  assumes "p_next (rp_fresh R) \<noteq> tc_IP (rp_old R)" and "move_inv R r" and "move_step E R r r'"
  shows "move_inv R r'"
  using assms(3)
proof (cases rule: move_step.cases)
  case look_up
  have "\<not> looks_up R (mv_node r)" if "in_table (rp_tree R) (new_path R c) (mv_node r)" for c
    using that assms(1) by (auto simp: in_table_def looks_up_def recounted_def new_path_def)
  with look_up assms(2) show ?thesis
    by (auto simp: move_inv_def removed_def split: option.splits if_splits)
next
  case (remove found)
  with assms(2) show ?thesis
    by (cases found) (auto simp: move_inv_def removed_def removes_def split: option.splits if_splits)
next
  case close
  then show ?thesis
    using assms(2) by (auto intro: move_inv_paths)
next
  case store
  with assms(2) show ?thesis
    by (auto simp: move_inv_def removed_def in_table_def stores_def mover_ctx_def tick_def split: mover.splits)
next
  case (start ctx)
  with assms(2) show ?thesis
    by (auto simp: mover_ctx_def intro: move_inv_paths)
next
  case (open_conn ctx)
  with assms(2) show ?thesis
    by (auto simp: mover_ctx_def intro: move_inv_paths)
next
  case (publish key m target res s)
  with assms(2) Publish_paths [OF publish(2)] show ?thesis
    by (auto intro: move_inv_paths)
next
  case (job_result jobID job)
  with assms(2) show ?thesis
    by (auto simp: move_inv_def removed_def mark_in_table split: option.splits)
next
  case time
  with assms(2) show ?thesis
    by (auto intro: move_inv_paths)
qed

text \<open>
  The step relation of the replacements that lead elsewhere than the old connection, as moving up does: to the second hop.
\<close>

definition moves_on :: "env \<Rightarrow> replacement \<Rightarrow> moving \<Rightarrow> moving \<Rightarrow> bool" where
  "moves_on E R r r' \<longleftrightarrow> p_next (rp_fresh R) \<noteq> tc_IP (rp_old R) \<and> move_step E R r r'"

lemma move_start_inv: "move_start R r \<Longrightarrow> move_inv R r"
  by (simp add: move_start_def move_inv_def mover_ctx_def)

interpretation moving_up: inductive_invariant "move_start R" "moves_on E R" "move_inv R" for E R
  by unfold_locales (auto simp: moves_on_def intro: move_start_inv move_inv_step)

text \<open>
  Property C35: when a path is moved up, its new version stays in the table of paths in every interleaving with the cleanup
  of the old version, with publishing and with job results, except in one: the cleanup looked up the old
  version before the new one was stored, and removed it afterwards.  Then, and only then, the new path is gone.
\<close>

theorem replacement_survives_iff:
  assumes "reach (move_start R) (moves_on E R) r" and "mover_ctx (mv_mover r) = Some c"
  shows "if mv_overtaken r \<and> mv_cleaner r \<in> {Removed, Cleaned} then getValue (paths (mv_node r)) (rp_tree R) = None
    else in_table (rp_tree R) (new_path R c) (mv_node r)"
  using moving_up.reachable_inv [OF assms(1)] assms(2)
  by (simp add: move_inv_def removed_def)

text \<open>The run that loses it.\<close>

lemma lost_run:
  assumes "mv_cleaner r = Sending" and "mv_mover r = Connecting" and "looks_up R (mv_node r)"
  defines "c \<equiv> clock (mv_node r)"
  shows "(move_step E R)\<^sup>*\<^sup>* r (r\<lparr>mv_cleaner := Cleaned, mv_mover := Moved c, mv_overtaken := True,
    mv_node := closes R (removes R True (opens R (starts R c (stores R (mv_node r)))))\<rparr>)"
proof -
  let ?r1 = "r\<lparr>mv_cleaner := Looked True\<rparr>"
  let ?r2 = "?r1\<lparr>mv_mover := Stored c, mv_node := stores R (mv_node r), mv_overtaken := True\<rparr>"
  let ?r3 = "?r2\<lparr>mv_mover := Spawned c, mv_node := starts R c (mv_node ?r2)\<rparr>"
  let ?r4 = "?r3\<lparr>mv_mover := Moved c, mv_node := opens R (mv_node ?r3)\<rparr>"
  let ?r5 = "?r4\<lparr>mv_cleaner := Removed, mv_node := removes R True (mv_node ?r4)\<rparr>"
  let ?r6 = "?r5\<lparr>mv_cleaner := Cleaned, mv_node := closes R (mv_node ?r5)\<rparr>"
  have "move_step E R r ?r1" "move_step E R ?r1 ?r2"
    using look_up [of r E R] store [of ?r1 E R] assms by simp_all
  moreover have "move_step E R ?r2 ?r3" "move_step E R ?r3 ?r4"
    using start [of ?r2 c E R] open_conn [of ?r3 c E R] by simp_all
  moreover have "move_step E R ?r4 ?r5" "move_step E R ?r5 ?r6"
    using remove [of ?r4 True E R] close [of ?r5 E R] by simp_all
  ultimately have "(move_step E R)\<^sup>*\<^sup>* r ?r6"
    by (meson converse_rtranclp_into_rtranclp rtranclp.rtrancl_refl)
  then show ?thesis
    by (cases r) simp
qed

lemma lost_state:
  assumes "s' = closes R (removes R True (opens R (starts R c (stores R s))))"
  shows "getValue (paths s') (rp_tree R) = None"
    "SendCoverMessageWorker c (rp_conn R) (new_path R c) \<in> set (tasks s')"
    "getValue (openConnections s') (rp_tree R) = Some (rp_conn R)"
  unfolding assms
  by (simp_all add: closes_def removes_def opens_def starts_def spawn_def close_conn_def split: option.split)

text \<open>
  Property C36: that interleaving happens.  From every state in which the old path is in the table, the two goroutines can
  end so that \<open>ConnectPath\<close> has succeeded, the worker of the new path runs and sends into its open connection, and
  yet the table has no path of that identifier: the node does not publish on it, and will connect again.
\<close>

theorem replacement_lost:
  assumes "move_start R r" and "p_next (rp_fresh R) \<noteq> tc_IP (rp_old R)"
    and "getValue (paths (mv_node r)) (rp_tree R) = Some old" and "p_next old = tc_IP (rp_old R)"
  shows "\<exists>r' ctx. (moves_on E R)\<^sup>*\<^sup>* r r' \<and> mv_cleaner r' = Cleaned \<and> mv_mover r' = Moved ctx \<and>
    getValue (paths (mv_node r')) (rp_tree R) = None \<and>
    SendCoverMessageWorker ctx (rp_conn R) (new_path R ctx) \<in> set (tasks (mv_node r')) \<and>
    getValue (openConnections (mv_node r')) (rp_tree R) = Some (rp_conn R)"
proof -
  define r' where "r' = r\<lparr>mv_cleaner := Cleaned, mv_mover := Moved (clock (mv_node r)), mv_overtaken := True,
    mv_node := closes R (removes R True (opens R (starts R (clock (mv_node r)) (stores R (mv_node r)))))\<rparr>"
  have "moves_on E R = move_step E R"
    using assms(2) by (simp add: moves_on_def fun_eq_iff)
  then have "(moves_on E R)\<^sup>*\<^sup>* r r'"
    using lost_run [of r R E] assms by (simp add: move_start_def looks_up_def r'_def)
  moreover have "mv_cleaner r' = Cleaned" "mv_mover r' = Moved (clock (mv_node r))"
    by (simp_all add: r'_def)
  moreover note lost_state [where s' = "mv_node r'" and R = R and c = "clock (mv_node r)" and s = "mv_node r"]
  ultimately show ?thesis
    by (intro exI [of _ r'] exI [of _ "clock (mv_node r)"]) (simp add: r'_def)
qed

text \<open>A node whose path 5 leads through \<open>''10.0.0.8''\<close>, and its replacement by the path through \<open>''10.0.0.9''\<close>.\<close>

definition up_replacement :: replacement where
  "up_replacement = \<lparr>rp_tree = 5, rp_old = \<lparr>tc_Conn = Some 3, tc_Encoder = Some 3, tc_IP = ''10.0.0.8''\<rparr>, rp_fresh = relay_path,
     rp_conn = \<lparr>tc_Conn = Some 4, tc_Encoder = Some 4, tc_IP = ''10.0.0.9''\<rparr>\<rparr>"

definition moving_node :: moving where
  "moving_node = \<lparr>mv_node = node0\<lparr>paths := [(5, relay_path\<lparr>p_next := ''10.0.0.8'', p_symKey := 2 ^ 254\<rparr>)]\<rparr>,
     mv_cleaner = Sending, mv_mover = Connecting, mv_overtaken = False\<rparr>"

lemma moving_sample:
  "move_start up_replacement moving_node" "p_next (rp_fresh up_replacement) \<noteq> tc_IP (rp_old up_replacement)"
  "getValue (paths (mv_node moving_node)) (rp_tree up_replacement) = Some (relay_path\<lparr>p_next := ''10.0.0.8'', p_symKey := 2 ^ 254\<rparr>)"
  by (simp_all add: move_start_def moving_node_def up_replacement_def relay_path_def getValue_def)

theorem replacement_survives_iff_witness:
  "\<exists>r :: moving. mv_cleaner r = Looked False \<and> mv_mover r = Stored 8 \<and> in_table 5 (new_path up_replacement 8) (mv_node r)"
proof -
  let ?r1 = "moving_node\<lparr>mv_mover := Stored 8, mv_node := stores up_replacement (mv_node moving_node), mv_overtaken := False\<rparr>"
  let ?r2 = "?r1\<lparr>mv_cleaner := Looked False\<rparr>"
  have "move_step sample_env up_replacement moving_node ?r1"
    using store [of moving_node sample_env up_replacement] by (simp add: moving_node_def)
  then have "reach (move_start up_replacement) (moves_on sample_env up_replacement) ?r1"
    using moving_sample reach_step [OF reach_init] by (metis moves_on_def)
  moreover have "\<not> looks_up up_replacement (mv_node ?r1)"
    by (simp add: looks_up_def stores_def up_replacement_def new_path_def relay_path_def)
  then have "move_step sample_env up_replacement ?r1 ?r2"
    using look_up [of ?r1 sample_env up_replacement] by (simp add: moving_node_def)
  ultimately have "reach (move_start up_replacement) (moves_on sample_env up_replacement) ?r2"
    using moving_sample(2) reach_step by (metis moves_on_def)
  from replacement_survives_iff [OF this, of 8] show ?thesis
    by (intro exI [of _ ?r2]) (simp add: mover_ctx_def up_replacement_def)
qed

theorem replacement_lost_witness:
  "\<exists>(r' :: moving) ctx. mv_mover r' = Moved ctx \<and> getValue (paths (mv_node r')) 5 = None \<and>
     getValue (openConnections (mv_node r')) 5 = Some (rp_conn up_replacement)"
proof -
  have "p_next (relay_path\<lparr>p_next := ''10.0.0.8'', p_symKey := 2 ^ 254\<rparr>) = tc_IP (rp_old up_replacement)"
    and tree: "rp_tree up_replacement = 5"
    by (simp_all add: up_replacement_def)
  from replacement_lost [OF moving_sample this(1), of sample_env, unfolded tree] show ?thesis
    by blast
qed

section \<open>Publishing before the connection is entered\<close>

lemma seal_open_foreign:
  assumes "gcm_authentic L" and "NewRealMessage L G t dm pub k = Inr am" and "big_Bytes k \<noteq> big_Bytes k'" and "aes_key k'"
  shows "\<exists>err. SymmetricDecrypt L (am_SymmetricEncryptedPayload am) k' = Ret (Inl err)"
  using assms symmetric_open_foreign by (force simp: NewRealMessage_def seal_data_message_Inr)

text \<open>
  \<open>Publish\<close> locks the table of paths, and not that of the connections.  Between the new path's entry
  and its connection's it seals with the new key and writes to the old connection: it returns the identifier of
  a job pending on the path, and the old next hop refuses the message, which no one else receives.
\<close>

theorem published_between_lost:
  assumes "gcm_authentic (e_lib E)" and "e_lib E' = e_lib E" and "wf_map (paths s)" and "rp_tree R \<noteq> uuid_Nil"
    and "usable (getValue (openConnections s) (rp_tree R)) = Some conn" and "p_next (rp_fresh R) \<noteq> IS"
    and "Publish E key m (rp_tree R) (starts R c (stores R s)) = Ret (Inr jobID, s')"
    and "big_Bytes (p_symKey (rp_fresh R)) \<noteq> big_Bytes (c_secretKey cover)" and "aes_key (c_secretKey cover)"
  shows "\<exists>am. sent s' = sent s @ [(conn, am)] \<and> (\<exists>err. handleApplicationMessage E' am cover fwd u = Ret (Some err, u))"
proof -
  let ?s = "starts R c (stores R s)"
  have "wf_map (paths ?s)"
    using assms(3) by (simp add: stores_def mm.ok_put)
  then obtain k p where "getValue (paths ?s) k = Some p" "rp_tree R \<noteq> uuid_Nil \<longrightarrow> k = rp_tree R" "carried E key m k p ?s s'"
    using assms(7) by (rule Publish_sound)
  moreover have "getValue (paths ?s) (rp_tree R) = Some (new_path R (clock s))"
    by (simp add: stores_def)
  ultimately have "carried E key m (rp_tree R) (new_path R (clock s)) ?s s'"
    using assms(4) by auto
  moreover have "openConnections ?s = openConnections s" "sent ?s = sent s"
    by (simp_all add: starts_def stores_def spawn_def tick_def)
  ultimately obtain t am where am: "NewRealMessage (e_lib E) (e_gob E) t \<lparr>dm_Key = key, dm_Content = m\<rparr>
      (p_proxyPublic (rp_fresh R)) (p_symKey (rp_fresh R)) = Inr am" "sent s' = sent s @ [(conn, am)]"
    using assms(5,6) by (auto simp: carried_def new_path_def)
  then have "\<exists>err. SymmetricDecrypt (e_lib E) (am_SymmetricEncryptedPayload am) (c_secretKey cover) = Ret (Inl err)"
    using seal_open_foreign [OF assms(1)] assms(8,9) by blast
  with am(2) assms(2) show ?thesis
    by (auto simp: handleApplicationMessage_def)
qed

end
