(* ===== verification/CoverRace.thy ===== *)
theory CoverRace
  imports Preservation Transitions Samples
begin

text \<open>
  A round of \<open>sendCoverMessageWorker\<close> (\<open>p2p/workers.go\<close>) in its two goroutines.  The inner one builds a cover message, writes it
  and reports on a channel without a buffer; the worker waits for the report or the end of its context, whichever its
  \<open>select\<close> finds first, then for the end of its context or the next round.  Everything else that runs in the node comes
  in between.  \<open>Maintenance\<close> has the same round as one step.
\<close>

section \<open>The two goroutines\<close>

datatype sender = Building | Writing ApplicationMessage | Reporting "go_error option" | Exited

datatype worker = Selecting | Sleeping | Returned

text \<open>\<open>cw_rounds\<close> and \<open>cw_written\<close> count the rounds that ended well and the messages written; no step reads them.\<close>

record cover_run =
  cw_node :: state
  cw_sender :: sender
  cw_worker :: worker
  cw_rounds :: nat
  cw_written :: nat

definition cover_return :: "ctx \<Rightarrow> TCPConnectionProfile \<Rightarrow> PathProfile \<Rightarrow> cover_run \<Rightarrow> cover_run" where
  "cover_return ctx tc p r =
     r\<lparr>cw_worker := Returned, cw_node := finish_task (SendCoverMessageWorker ctx tc p) (sendCover_cleanup tc p (cw_node r))\<rparr>"

inductive cover_step :: "env \<Rightarrow> ctx \<Rightarrow> TCPConnectionProfile \<Rightarrow> PathProfile \<Rightarrow> cover_run \<Rightarrow> cover_run \<Rightarrow> bool"
  for E :: env and ctx :: ctx and tc :: TCPConnectionProfile and p :: PathProfile where
  built: "cw_sender r = Building \<Longrightarrow> s = cw_node r \<Longrightarrow>
    NewCoverMessage (e_lib E) (e_gob E) (clock s) (p_proxyPublic p) (p_symKey p) = Inr m \<Longrightarrow>
    cover_step E ctx tc p r (r\<lparr>cw_sender := Writing m, cw_node := s\<lparr>clock := clock s + 4\<rparr>\<rparr>)"
| not_built: "cw_sender r = Building \<Longrightarrow> s = cw_node r \<Longrightarrow>
    NewCoverMessage (e_lib E) (e_gob E) (clock s) (p_proxyPublic p) (p_symKey p) = Inl err \<Longrightarrow>
    cover_step E ctx tc p r (r\<lparr>cw_sender := Reporting (Some err), cw_node := s\<lparr>clock := clock s + 4\<rparr>\<rparr>)"
| written: "cw_sender r = Writing m \<Longrightarrow> tc_Encoder tc = Some encoder \<Longrightarrow> write_message E encoder m (cw_node r) = (None, s') \<Longrightarrow>
    cover_step E ctx tc p r (r\<lparr>cw_sender := Reporting None, cw_node := s', cw_written := Suc (cw_written r)\<rparr>)"
| not_written: "cw_sender r = Writing m \<Longrightarrow> tc_Encoder tc = Some encoder \<Longrightarrow>
    write_message E encoder m (cw_node r) = (Some err, s') \<Longrightarrow>
    cover_step E ctx tc p r (r\<lparr>cw_sender := Reporting (Some err), cw_node := s'\<rparr>)"
| done_success: "cw_worker r = Selecting \<Longrightarrow> cw_sender r = Reporting None \<Longrightarrow>
    cover_step E ctx tc p r (r\<lparr>cw_sender := Exited, cw_worker := Sleeping, cw_rounds := Suc (cw_rounds r)\<rparr>)"
| done_err: "cw_worker r = Selecting \<Longrightarrow> cw_sender r = Reporting (Some err) \<Longrightarrow>
    cover_step E ctx tc p r (cover_return ctx tc p (r\<lparr>cw_sender := Exited\<rparr>))"
| ctx_done: "cw_worker r \<noteq> Returned \<Longrightarrow> map_of (cancelled (cw_node r)) ctx \<noteq> None \<Longrightarrow>
    cover_step E ctx tc p r (cover_return ctx tc p r)"
| after_interval: "cw_worker r = Sleeping \<Longrightarrow> cover_step E ctx tc p r (r\<lparr>cw_sender := Building, cw_worker := Selecting\<rparr>)"
| others: "\<forall>c. map_of (cancelled (cw_node r)) c \<noteq> None \<longrightarrow> map_of (cancelled s') c \<noteq> None \<Longrightarrow>
    cover_step E ctx tc p r (r\<lparr>cw_node := s'\<rparr>)"

definition cover_start :: "cover_run \<Rightarrow> bool" where
  "cover_start r \<longleftrightarrow> cw_sender r = Building \<and> cw_worker r = Selecting \<and> cw_rounds r = 0 \<and> cw_written r = 0"

section \<open>The round of the sequential model\<close>

text \<open>A round without interference is a run of the two goroutines, with the same end.\<close>

lemma cover_return_fields [simp]:
  "cw_sender (cover_return ctx tc p r) = cw_sender r" "cw_worker (cover_return ctx tc p r) = Returned"
  "cw_rounds (cover_return ctx tc p r) = cw_rounds r" "cw_written (cover_return ctx tc p r) = cw_written r"
  "cw_node (cover_return ctx tc p r) = finish_task (SendCoverMessageWorker ctx tc p) (sendCover_cleanup tc p (cw_node r))"
  by (simp_all add: cover_return_def)

theorem sequential_round:
  assumes "sendCoverMessageWorker E ctx tc p s = Ret s'" and "cw_node r = s"
    and "cw_sender r = Building" and "cw_worker r = Selecting"
  shows "\<exists>r'. (cover_step E ctx tc p)\<^sup>*\<^sup>* r r' \<and> cw_node r' = s' \<and> cw_worker r' \<noteq> Selecting \<and> cw_sender r' = Exited"
proof -
  let ?step = "cover_step E ctx tc p"
  obtain go s1 where round: "sendCover_round E ctx tc p s = Ret (go, s1)"
    and s': "s' = (if go then s1 else finish_task (SendCoverMessageWorker ctx tc p) (sendCover_cleanup tc p s1))"
    using assms(1) by (auto simp: sendCoverMessageWorker_def elim!: obind_RetE)
  let ?s = "s\<lparr>clock := clock s + 4\<rparr>"
  show ?thesis
  proof (cases "NewCoverMessage (e_lib E) (e_gob E) (clock s) (p_proxyPublic p) (p_symKey p)")
    case (Inl err)
    let ?r1 = "r\<lparr>cw_sender := Reporting (Some err), cw_node := ?s\<rparr>"
    have "?step r ?r1" "?step ?r1 (cover_return ctx tc p (?r1\<lparr>cw_sender := Exited\<rparr>))"
      using not_built [of r s E p err] done_err [of ?r1 err] assms(2-4) Inl by simp_all
    moreover have "s' = finish_task (SendCoverMessageWorker ctx tc p) (sendCover_cleanup tc p ?s)"
      using round s' Inl by (simp add: sendCover_round_def Let_def)
    ultimately show ?thesis
      by (intro exI [of _ "cover_return ctx tc p (?r1\<lparr>cw_sender := Exited\<rparr>)"]) (auto intro: converse_rtranclp_into_rtranclp)
  next
    case (Inr m)
    obtain encoder where enc: "tc_Encoder tc = Some encoder"
      using round Inr by (auto simp: sendCover_round_def Let_def split: option.splits)
    obtain e s2 where w: "write_message E encoder m ?s = (e, s2)"
      by fastforce
    let ?r1 = "r\<lparr>cw_sender := Writing m, cw_node := ?s\<rparr>"
    have r1: "?step r ?r1"
      using built [of r s E p m] assms(2,3) Inr by simp
    show ?thesis
    proof (cases e)
      case (Some err)
      let ?r2 = "?r1\<lparr>cw_sender := Reporting (Some err), cw_node := s2\<rparr>"
      have "?step ?r1 ?r2" "?step ?r2 (cover_return ctx tc p (?r2\<lparr>cw_sender := Exited\<rparr>))"
        using not_written [of ?r1 m tc encoder E err s2] done_err [of ?r2 err] assms(4) enc w Some by simp_all
      moreover have "s' = finish_task (SendCoverMessageWorker ctx tc p) (sendCover_cleanup tc p s2)"
        using round s' Inr enc w Some by (simp add: sendCover_round_def Let_def)
      ultimately show ?thesis
        using r1 by (intro exI [of _ "cover_return ctx tc p (?r2\<lparr>cw_sender := Exited\<rparr>)"])
          (auto intro: converse_rtranclp_into_rtranclp)
    next
      case None
      let ?r2 = "?r1\<lparr>cw_sender := Reporting None, cw_node := s2, cw_written := Suc (cw_written r)\<rparr>"
      let ?r3 = "?r2\<lparr>cw_sender := Exited, cw_worker := Sleeping, cw_rounds := Suc (cw_rounds r)\<rparr>"
      have "?step ?r1 ?r2" "?step ?r2 ?r3"
        using written [of ?r1 m tc encoder E s2] done_success [of ?r2] assms(4) enc w None by simp_all
      with r1 have r3: "?step\<^sup>*\<^sup>* r ?r3"
        by (auto intro: converse_rtranclp_into_rtranclp)
      have go: "go \<longleftrightarrow> map_of (cancelled s2) ctx = None" "s1 = s2"
        using round Inr enc w None by (auto simp: sendCover_round_def Let_def)
      show ?thesis
      proof (cases go)
        case True
        with r3 go s' show ?thesis
          by (intro exI [of _ ?r3]) simp
      next
        case False
        with go have "?step ?r3 (cover_return ctx tc p ?r3)"
          by (intro ctx_done) simp_all
        with r3 False go s' show ?thesis
          by (intro exI [of _ "cover_return ctx tc p ?r3"]) (auto intro: rtranclp.rtrancl_into_rtrancl)
      qed
    qed
  qed
qed

section \<open>What is left when the worker has returned\<close>

definition cover_inv :: "cover_run \<Rightarrow> bool" where
  "cover_inv r \<longleftrightarrow>
     cw_written r = cw_rounds r + (if cw_sender r = Reporting None then 1 else 0) \<and>
     (cw_worker r = Selecting \<longrightarrow> cw_sender r \<noteq> Exited) \<and> (cw_worker r = Sleeping \<longrightarrow> cw_sender r = Exited)"

interpretation cover_goroutines: inductive_invariant cover_start "cover_step E ctx tc p" cover_inv for E ctx tc p
proof unfold_locales
  show "cover_inv r" if "cover_start r" for r
    using that by (simp add: cover_start_def cover_inv_def)
  show "cover_inv r'" if "cover_inv r" "cover_step E ctx tc p r r'" for r r'
    using that(2,1) by (cases rule: cover_step.cases) (auto simp: cover_inv_def)
qed

lemma returned_step:
  assumes "cover_step E ctx tc p r r'" and "cw_worker r = Returned"
  shows "cw_worker r' = Returned \<and> cw_rounds r' = cw_rounds r \<and> (cw_sender r' = Exited \<longleftrightarrow> cw_sender r = Exited)"
  using assms by (cases rule: cover_step.cases) auto

lemma returned_steps:
  assumes "(cover_step E ctx tc p)\<^sup>*\<^sup>* r r'" and "cw_worker r = Returned"
  shows "cw_worker r' = Returned \<and> cw_rounds r' = cw_rounds r \<and> (cw_sender r' = Exited \<longleftrightarrow> cw_sender r = Exited)"
  using assms by (induction rule: rtranclp_induct) (auto dest: returned_step)

lemma reach_steps: "(step)\<^sup>*\<^sup>* s t \<Longrightarrow> reach init step s \<Longrightarrow> reach init step t"
  by (induction rule: rtranclp_induct) (auto intro: reach_step)

text \<open>
  Property C21: a cover worker counts a round only when its message was written, so that it is never more than one message
  ahead.  Once it has returned, its path removed and its connection closed, the goroutine it started last may write
  one more message, and no second; and if that goroutine had not reported by then it never ends: it waits for ever to
  report on a channel that nobody reads.
\<close>

theorem returned_worker_leaks:
  assumes "reach cover_start (cover_step E ctx tc p) r" and "cw_worker r = Returned"
    and "(cover_step E ctx tc p)\<^sup>*\<^sup>* r r'"
  shows "cw_rounds r' \<le> cw_written r' \<and> cw_written r' \<le> cw_written r + 1 \<and> cw_written r' \<le> cw_rounds r + 1 \<and>
    (cw_sender r \<noteq> Exited \<longrightarrow> cw_sender r' \<noteq> Exited)"
proof -
  have "cover_inv r" "cover_inv r'"
    using cover_goroutines.reachable_inv assms(1) reach_steps [OF assms(3,1)] by blast+
  then show ?thesis
    using returned_steps [OF assms(3,2)] by (auto simp: cover_inv_def)
qed

theorem returned_worker_leaks_witness:
  "\<exists>(r :: cover_run) r' :: cover_run. cw_worker r = Returned \<and> cw_written r = 0 \<and> cw_written r' = 1 \<and>
     cw_sender r' \<noteq> Exited \<and> closed (cw_node r) = [4]"
proof -
  let ?tc = "\<lparr>tc_Conn = Some 4, tc_Encoder = Some 4, tc_IP = ''10.0.0.9''\<rparr>"
  let ?p = "(self_proxy_path 5 [9] (2 ^ 255))\<lparr>p_next := ''10.0.0.9''\<rparr>"
  let ?step = "cover_step sample_env 1 ?tc ?p"
  let ?r = "\<lparr>cw_node = node0\<lparr>cancelled := [(1, WrongPrivateKey)]\<rparr>, cw_sender = Building, cw_worker = Selecting,
      cw_rounds = 0, cw_written = 0\<rparr>"
  define r1 where "r1 = cover_return 1 ?tc ?p ?r"
  obtain m where m: "NewCoverMessage sample_lib field_gob (clock (cw_node r1)) [9] (2 ^ 255) = Inr m"
  proof -
    have "aes_key (2 ^ 255)"
      by (simp add: aes_key_bounds)
    then show ?thesis
      using sample_seal that unfolding NewCoverMessage_def by blast
  qed
  define r2 where "r2 = r1\<lparr>cw_sender := Writing m, cw_node := (cw_node r1)\<lparr>clock := clock (cw_node r1) + 4\<rparr>\<rparr>"
  obtain s' where w: "write_message sample_env 4 m (cw_node r2) = (None, s')"
    by (simp add: write_message_def sample_env_def)
  define r3 where "r3 = r2\<lparr>cw_sender := Reporting None, cw_node := s', cw_written := Suc (cw_written r2)\<rparr>"
  have r1: "reach cover_start ?step r1"
    unfolding r1_def by (rule reach_step [OF reach_init]) (auto simp: cover_start_def intro: ctx_done)
  have "?step r1 r2"
    unfolding r2_def by (rule built) (use m in \<open>simp_all add: r1_def self_proxy_path_def sample_env_def\<close>)
  moreover have "?step r2 r3"
    unfolding r3_def by (rule written) (use w in \<open>simp_all add: r2_def\<close>)
  ultimately have "?step\<^sup>*\<^sup>* r1 r3"
    by (auto intro: converse_rtranclp_into_rtranclp)
  from returned_worker_leaks [OF r1 _ this] show ?thesis
    by (intro exI [of _ r1] exI [of _ r3])
      (auto simp: r1_def r2_def r3_def sendCover_cleanup_def finish_task_def close_conn_def Let_def getValue_def)
qed

text \<open>Every cancelled context can leave such a goroutine behind.\<close>

theorem cancelled_worker_leaks:
  assumes "cover_start r" and "map_of (cancelled (cw_node r)) ctx \<noteq> None"
  shows "\<exists>r1. cover_step E ctx tc p r r1 \<and> cw_worker r1 = Returned \<and>
    (\<forall>r2. (cover_step E ctx tc p)\<^sup>*\<^sup>* r1 r2 \<longrightarrow> cw_sender r2 \<noteq> Exited)"
proof -
  let ?r1 = "cover_return ctx tc p r"
  have "cover_step E ctx tc p r ?r1" "cw_sender ?r1 \<noteq> Exited" "cw_worker ?r1 = Returned"
    using ctx_done assms by (simp_all add: cover_start_def)
  then show ?thesis
    using returned_steps by blast
qed

end
