(* ===== verification/Offers.thy ===== *)
theory Offers
  imports Forming
begin

text \<open>
  Which offer a connection is made from.  \<open>ConnectPath\<close> is told the peer and the tree, but takes the next hop of the new
  path from the half-open entry of the tree, which the last peer that offered the tree has left there.
\<close>

section \<open>The entry that is used\<close>

lemma ConnectPath_from_half:
  assumes "ConnectPath E ip treeID s = Ret ((Some resp, None), s')" and "cresp_Accepted resp"
  obtains secret info s1 tc u half k where "open_exchange E s = Ret (secret, info, s1)"
    "sendConnectPathRequest E ip treeID info s1 = Ret (Inr (resp, tc), u)"
    "getValue (halfOpenPath u) treeID = Some half"
    "s' = install_path (half\<lparr>p_symKey := k, p_successCount := 0, p_failureCount := 0\<rparr>) tc treeID
       (u\<lparr>halfOpenPath := deleteValue (halfOpenPath u) treeID\<rparr>)"
proof -
  obtain secret info s1 where ex: "open_exchange E s = Ret (secret, info, s1)"
    using assms(1) by (auto simp: ConnectPath_def elim!: obind_RetE)
  obtain r u where send: "sendConnectPathRequest E ip treeID info s1 = Ret (r, u)"
    using assms(1) ex by (auto simp: ConnectPath_def elim!: obind_RetE)
  obtain tc where r: "r = Inr (resp, tc)"
    using assms(1) ex send by (cases r) (auto simp: ConnectPath_def split: if_splits option.splits elim!: obind_RetE)
  obtain half where half: "getValue (halfOpenPath u) treeID = Some half"
    using assms ex send r by (auto simp: ConnectPath_def split: option.splits)
  obtain k where "s' = install_path (half\<lparr>p_symKey := k, p_successCount := 0, p_failureCount := 0\<rparr>) tc treeID
      (u\<lparr>halfOpenPath := deleteValue (halfOpenPath u) treeID\<rparr>)"
    using assms ex send r half by (auto simp: ConnectPath_def elim!: obind_RetE)
  with ex send r half show ?thesis
    by (intro that) simp_all
qed

text \<open>With the peer's key and the tree's offer at hand the offer is not renewed.\<close>

lemma sendConnect_cached:
  assumes "sendConnectPathRequest E ip treeID info s = Ret (r, s')"
    and "getValue (peerPublicKeys s) ip \<noteq> None" and "getValue (halfOpenPath s) treeID \<noteq> None"
  shows "same_node s s'"
  using assms post_connect_request_ok [of E ip treeID info s]
  by (auto simp: sendConnectPathRequest_def learn_peer_def)

definition follows_offer :: "PathProfile \<Rightarrow> PathProfile \<Rightarrow> bool" where
  "follows_offer half p \<longleftrightarrow> p_uuid p = p_uuid half \<and> p_next p = p_next half \<and> p_next2 p = p_next2 half \<and>
     p_proxyPublic p = p_proxyPublic half \<and> p_successCount p = 0 \<and> p_failureCount p = 0"

lemma ConnectPath_cached:
  assumes "ConnectPath E ip treeID s = Ret ((Some resp, None), s')" and "cresp_Accepted resp"
    and "getValue (peerPublicKeys s) ip \<noteq> None" and "getValue (halfOpenPath s) treeID = Some half"
  obtains p tc ctx where "follows_offer half p" "paths s' = setValue (paths s) treeID p" "tc_IP tc = ip"
    "openConnections s' = setValue (openConnections s) treeID tc" "covers s' = covers s"
    "SendCoverMessageWorker ctx tc p \<in> set (tasks s')"
proof -
  obtain secret info s1 tc u h k where run: "open_exchange E s = Ret (secret, info, s1)"
    "sendConnectPathRequest E ip treeID info s1 = Ret (Inr (resp, tc), u)" "getValue (halfOpenPath u) treeID = Some h"
    and s': "s' = install_path (h\<lparr>p_symKey := k, p_successCount := 0, p_failureCount := 0\<rparr>) tc treeID
       (u\<lparr>halfOpenPath := deleteValue (halfOpenPath u) treeID\<rparr>)"
    by (rule ConnectPath_from_half [OF assms(1,2)])
  have s1: "same_node s s1"
    using open_exchange_same [OF run(1)] by simp
  have "same_node s1 u"
    by (rule sendConnect_cached [OF run(2)]) (use assms(3,4) s1 in \<open>simp_all add: same_node_fields\<close>)
  with s1 have u: "same_node s u"
    by (rule same_node_trans)
  have "tc_IP tc = ip"
    using run(2) assms(3,4) s1 post_connect_request_ok [of E ip treeID info s1]
    by (auto simp: sendConnectPathRequest_def learn_peer_def same_node_fields)
  let ?p = "h\<lparr>p_symKey := k, p_successCount := 0, p_failureCount := 0, p_cancelFunc := Some (clock u)\<rparr>"
  show ?thesis
    by (rule that [of ?p tc "clock u"])
      (use u run(3) assms(4) \<open>tc_IP tc = ip\<close> in
        \<open>simp_all add: s' follows_offer_def install_path_def Let_def spawn_def tick_def same_node_fields\<close>)
qed

text \<open>
  Property C33: an offer that another peer left behind mislabels the path.  When the key of the asked peer is known and the
  half-open entry of the tree was left by another one, \<open>ConnectPath\<close> does not ask again: the messages of the new path
  go to the asked peer, while the table says that the path leads through the other one.  The health check
  then asks the wrong node, and when the cover worker of the path ends, it finds a next hop that is not its own, so that
  the path stays in the table, with its connection closed.
\<close>

theorem stale_offer_mislabels:
  assumes "ConnectPath E ip treeID s = Ret ((Some resp, None), s')" and "cresp_Accepted resp"
    and "getValue (peerPublicKeys s) ip \<noteq> None" and "getValue (halfOpenPath s) treeID = Some half"
    and "half_ok (halfOpenPath s)" and "p_next half \<noteq> ip"
  shows "\<exists>p tc ctx. getValue (paths s') treeID = Some p \<and> p_next p = p_next half \<and>
    getValue (openConnections s') treeID = Some tc \<and> tc_IP tc = ip \<and>
    SendCoverMessageWorker ctx tc p \<in> set (tasks s') \<and>
    getValue (paths (sendCover_cleanup tc p s')) treeID = Some p"
proof -
  obtain p tc ctx where run: "follows_offer half p" "paths s' = setValue (paths s) treeID p" "tc_IP tc = ip"
    "openConnections s' = setValue (openConnections s) treeID tc" "SendCoverMessageWorker ctx tc p \<in> set (tasks s')"
    by (rule ConnectPath_cached [OF assms(1-4)])
  moreover have "p_uuid p = treeID"
    using run(1) assms(4,5) by (simp add: follows_offer_def half_ok_def)
  ultimately show ?thesis
    using assms(6)
    by (intro exI [of _ p] exI [of _ tc] exI [of _ ctx])
      (auto simp: follows_offer_def sendCover_cleanup_def Let_def close_conn_def split: option.splits)
qed

text \<open>The child of \<open>Link\<close>, with an offer for the tree from another peer than the one it connects to.\<close>

theorem stale_offer_mislabels_witness:
  "\<exists>resp s' p tc. ConnectPath child_env ''10.0.0.7'' 5
       (child\<lparr>halfOpenPath := [(5, offered_half)]\<rparr>) = Ret ((Some resp, None), s') \<and>
     getValue (paths s') 5 = Some p \<and> p_next p = ''10.0.0.8'' \<and>
     getValue (openConnections s') 5 = Some tc \<and> tc_IP tc = ''10.0.0.7'' \<and>
     getValue (paths (sendCover_cleanup tc p s')) 5 = Some p"
proof -
  let ?s = "child\<lparr>halfOpenPath := [(5, offered_half)]\<rparr>"
  obtain resp s' where run: "ConnectPath child_env ''10.0.0.7'' 5 ?s = Ret ((Some resp, None), s')"
    "cresp_Accepted resp"
    using child_connects_with by blast
  have "getValue (peerPublicKeys ?s) ''10.0.0.7'' \<noteq> None" "getValue (halfOpenPath ?s) 5 = Some offered_half"
    "half_ok (halfOpenPath ?s)" "p_next offered_half \<noteq> ''10.0.0.7''"
    by (auto simp: child_def getValue_def half_ok_def wf_map_def offered_half_def split: if_splits)
  from stale_offer_mislabels [OF run this] run show ?thesis
    by (auto simp: offered_half_def)
qed

section \<open>Offers of the asked peer\<close>

definition offers_from :: "string \<Rightarrow> uuid \<Rightarrow> state \<Rightarrow> bool" where
  "offers_from ip treeID s \<longleftrightarrow> (\<forall>h. getValue (halfOpenPath s) treeID = Some h \<longrightarrow> p_next h = ip)"

lemma offers_from_same: "same_node s s' \<Longrightarrow> offers_from ip treeID s \<Longrightarrow> offers_from ip treeID s'"
  by (simp add: offers_from_def same_node_fields)

lemma QueryPath_step_from:
  assumes "offers_from ip treeID (snd acc)"
  shows "offers_from ip treeID (snd (QueryPath_step E ip path acc))"
proof -
  have keep: "halfOpenPath u = halfOpenPath t" if "verify_half_open E h t = (b, u)" for h t b u
    using verify_half_open_same [OF that] by (simp add: same_node_fields)
  show ?thesis
    using assms keep
    by (auto simp: QueryPath_step_def Let_def offers_from_def split: prod.splits sum.splits if_splits option.splits)
qed

lemma QueryPath_from:
  assumes "QueryPath E ip s = Ret (r, v, s')" and "offers_from ip treeID s"
  shows "offers_from ip treeID s'"
proof -
  obtain resp s1 where send: "sendQueryPathRequest E ip s = (Inr resp, s1)"
    using assms(1) by (auto simp: QueryPath_def split: prod.splits sum.splits)
  let ?s2 = "s1\<lparr>peerPublicKeys := setValue (peerPublicKeys s1) ip (qresp_ParentPublicKey resp)\<rparr>"
  have "same_node s s1"
    using send_same(1) [of s E ip] send by simp
  then have "offers_from ip treeID (snd ([] :: PathProfile list, ?s2))"
    using assms(2) by (simp add: offers_from_def same_node_fields)
  then have "offers_from ip treeID (snd (fold (QueryPath_step E ip) (qresp_Paths resp) ([], ?s2)))"
    by (rule fold_invariant_on [rotated]) (rule QueryPath_step_from)
  moreover have "fold (QueryPath_step E ip) (qresp_Paths resp) ([], ?s2) = (v, s')"
    using assms(1) send by (auto simp: QueryPath_def Let_def split: prod.splits)
  ultimately show ?thesis
    by simp
qed

lemma sendConnect_from:
  assumes "sendConnectPathRequest E ip treeID info s = Ret (r, s')" and "offers_from ip treeID s"
  shows "offers_from ip treeID s'"
proof -
  obtain failed s1 where learn: "learn_peer E ip treeID s = Ret (failed, s1)"
    using assms(1) by (auto simp: sendConnectPathRequest_def elim!: obind_RetE)
  then have "offers_from ip treeID s1"
    using assms(2) by (auto simp: learn_peer_def elim!: obind_RetE split: if_splits dest: QueryPath_from)
  moreover have "s' = s1 \<or> same_node s1 s'"
    using assms(1) learn post_connect_request_ok [of E ip treeID info s1]
    by (cases failed) (auto simp: sendConnectPathRequest_def)
  ultimately show ?thesis
    by (auto intro: offers_from_same)
qed

text \<open>Without an offer from elsewhere, a new path leads through the peer that was asked.\<close>

lemma ConnectPath_through_peer:
  assumes "ConnectPath E ip treeID s = Ret (r, s')" and "caches_ok s" and "offers_from ip treeID s"
  shows "covers s' = covers s \<and>
    (paths s' = paths s \<or> (\<exists>p. paths s' = setValue (paths s) treeID p \<and> p_next p = ip))"
proof -
  obtain resp err where run: "ConnectPath E ip treeID s = Ret ((resp, err), s')"
    using assms(1) by (cases r) auto
  from run assms(2) show ?thesis
  proof (cases rule: ConnectPath_cases)
    case unchanged
    then show ?thesis by (simp add: same_but_caches_def)
  next
    case (installed t profile tc m)
    then obtain secret info s1 tc' u half k where *: "open_exchange E s = Ret (secret, info, s1)"
      "sendConnectPathRequest E ip treeID info s1 = Ret (Inr (m, tc'), u)" "getValue (halfOpenPath u) treeID = Some half"
      "s' = install_path (half\<lparr>p_symKey := k, p_successCount := 0, p_failureCount := 0\<rparr>) tc' treeID
         (u\<lparr>halfOpenPath := deleteValue (halfOpenPath u) treeID\<rparr>)"
      using run by (auto elim: ConnectPath_from_half)
    have "same_node s s1"
      using open_exchange_same [OF *(1)] by simp
    then have "offers_from ip treeID u"
      using assms(3) sendConnect_from [OF *(2)] offers_from_same by blast
    then have peer: "p_next half = ip"
      using *(3) by (simp add: offers_from_def)
    have "same_but_caches s s1" "caches_ok s1"
      using open_exchange_same [OF *(1)] assms(2)
      by (auto simp: same_node_runtime_caches caches_ok_def same_node_fields)
    then have "same_but_caches s u"
      using sendConnectPathRequest_ok [OF *(2)] same_but_caches_trans by blast
    then show ?thesis
      using peer
      by (auto simp: *(4) same_but_caches_def install_path_def Let_def spawn_def tick_def
          intro!: exI [of _ "half\<lparr>p_symKey := k, p_successCount := 0, p_failureCount := 0, p_cancelFunc := Some (clock u)\<rparr>"])
  qed
qed

end
