(* ===== verification/Trees.thy ===== *)
theory Trees
  imports Overlay Offers Neighbour
begin

text \<open>
  Several nodes, and the trees that their paths form.  A network gives every address the node that listens there; the address
  \<open>IS\<close> of the storage is no node.  \<open>leads\<close> is the next-hop relation of one tree, as the abstract view of \<open>Overlay\<close>
  shows it.  The theory says which operations keep these relations free of cycles, and shows that one of them
  does not: a node can join a tree below its own descendant.
\<close>

type_synonym network = "string \<Rightarrow> state"

definition leads :: "network \<Rightarrow> uuid \<Rightarrow> (string \<times> string) set" where
  "leads N t = {(a, b). o_routes (view (N a)) t = Some b}"

section \<open>Moving one edge\<close>

text \<open>
  A node that gets a new next hop closes no cycle if nobody leads to it, or if the new hop is one of its ancestors, or if
  the new hop leads nowhere.
\<close>

definition safe_hop :: "('a \<times> 'a) set \<Rightarrow> 'a \<Rightarrow> 'a \<Rightarrow> bool" where
  "safe_hop R a b \<longleftrightarrow> a \<noteq> b \<and> ((\<forall>x. (x, a) \<notin> R) \<or> (a, b) \<in> R\<^sup>+ \<or> (\<forall>x. (b, x) \<notin> R))"

lemma acyclic_rehook:
  assumes "acyclic R" and "safe_hop R a b"
  shows "acyclic (insert (a, b) {(x, y). (x, y) \<in> R \<and> x \<noteq> a})"
proof -
  let ?S = "{(x, y). (x, y) \<in> R \<and> x \<noteq> a}"
  have sub: "?S \<subseteq> R"
    by blast
  have "(b, a) \<notin> ?S\<^sup>*"
  proof
    assume down: "(b, a) \<in> ?S\<^sup>*"
    with assms(2) consider "\<forall>x. (x, a) \<notin> R" | "(a, b) \<in> R\<^sup>+" | "\<forall>x. (b, x) \<notin> R"
      by (auto simp: safe_hop_def)
    then show False
    proof cases
      case 1
      with down assms(2) show False
        by (auto simp: safe_hop_def elim: rtranclE)
    next
      case 2
      have "(b, a) \<in> R\<^sup>*"
        using down rtrancl_mono [OF sub] by blast
      with 2 assms(1) show False
        by (auto simp: acyclic_def intro: trancl_rtrancl_trancl)
    next
      case 3
      with down assms(2) show False
        by (auto simp: safe_hop_def elim: converse_rtranclE)
    qed
  qed
  moreover have "acyclic ?S"
    using assms(1) sub by (rule acyclic_subset)
  ultimately show ?thesis
    by simp
qed

text \<open>What an operation of node \<open>a\<close> may do to the routes of the node.\<close>

definition safe_routes :: "network \<Rightarrow> string \<Rightarrow> state \<Rightarrow> bool" where
  "safe_routes N a s' \<longleftrightarrow>
     (\<forall>t b. o_routes (view s') t = Some b \<longrightarrow>
        o_routes (view (N a)) t = Some b \<or> safe_hop (leads N t) a b)"

lemma leads_update: "leads (N(a := s')) t = {(x, y). (x, y) \<in> leads N t \<and> x \<noteq> a} \<union>
    (case o_routes (view s') t of None \<Rightarrow> {} | Some b \<Rightarrow> {(a, b)})"
  by (auto simp: leads_def split: option.splits if_splits)

lemma acyclic_leads_update:
  assumes "acyclic (leads N t)" and "safe_routes N a s'"
  shows "acyclic (leads (N(a := s')) t)"
proof (cases "o_routes (view s') t")
  case None
  then have "leads (N(a := s')) t \<subseteq> leads N t"
    by (auto simp: leads_update)
  with assms(1) show ?thesis
    by (rule acyclic_subset)
next
  case (Some b)
  then have upd: "leads (N(a := s')) t = insert (a, b) {(x, y). (x, y) \<in> leads N t \<and> x \<noteq> a}"
    by (auto simp: leads_update)
  show ?thesis
  proof (cases "o_routes (view (N a)) t = Some b")
    case True
    then have "leads (N(a := s')) t \<subseteq> leads N t"
      unfolding upd by (auto simp: leads_def)
    with assms(1) show ?thesis
      by (rule acyclic_subset)
  next
    case False
    then have "safe_hop (leads N t) a b"
      using assms(2) Some by (auto simp: safe_routes_def)
    then show ?thesis
      unfolding upd by (rule acyclic_rehook [OF assms(1)])
  qed
qed

section \<open>What each operation does to the routes\<close>

lemma routes_paths: "paths s' = paths s \<Longrightarrow> o_routes (view s') = o_routes (view s)"
  by (simp add: view_def)

lemma routes_set: "paths s' = setValue (paths s) k p \<Longrightarrow> o_routes (view s') = (o_routes (view s))(k \<mapsto> p_next p)"
  by (auto simp: view_def fun_eq_iff)

lemma routes_delete: "paths s' = deleteValue (paths s) k \<Longrightarrow> o_routes (view s') = (o_routes (view s))(k := None)"
  by (auto simp: view_def fun_eq_iff)

text \<open>A new route leads to storage, or there is none.\<close>

definition only_rooted :: "state \<Rightarrow> state \<Rightarrow> bool" where
  "only_rooted s s' \<longleftrightarrow>
     (\<forall>t b. o_routes (view s') t = Some b \<longrightarrow> o_routes (view s) t = Some b \<or> b = IS)"

lemma only_rooted_paths: "paths s' = paths s \<Longrightarrow> only_rooted s s'"
  using routes_paths [of s' s] by (simp add: only_rooted_def)

lemma only_rooted_delete: "paths s' = deleteValue (paths s) k \<Longrightarrow> only_rooted s s'"
  using routes_delete [of s' s k] by (simp add: only_rooted_def)

lemma only_rooted_set: "paths s' = setValue (paths s) k p \<Longrightarrow> p_next p = IS \<Longrightarrow> only_rooted s s'"
  using routes_set [of s' s k p] by (simp add: only_rooted_def)

lemma only_rooted_same: "same_node s s' \<Longrightarrow> only_rooted s s'"
  by (rule only_rooted_paths) (simp add: same_node_fields)

lemma only_rooted_refl [simp]: "only_rooted s s"
  by (simp add: only_rooted_def)

lemma Publish_rooted: "Publish E key m target s = Ret (r, s') \<Longrightarrow> only_rooted s s'"
  by (rule only_rooted_paths) (rule Publish_paths)

lemma sendCoverMessageWorker_rooted:
  assumes "sendCoverMessageWorker E ctx tc p s = Ret s'"
  shows "only_rooted s s'"
proof -
  obtain go s1 where run: "sendCover_round E ctx tc p s = Ret (go, s1)"
    using assms by (auto simp: sendCoverMessageWorker_def elim!: obind_RetE)
  have "paths v = paths u" if "write_message E c am u = (e, v)" for c am u e v
    using that by (auto simp: write_message_def tick_def split: option.splits)
  note written = this
  have "paths s1 = paths s"
    using run by (auto simp: sendCover_round_def Let_def split: sum.splits option.splits prod.splits dest!: written)
  then have "paths s' = paths s \<or> paths s' = deleteValue (paths s) (p_uuid p)"
    using assms run
    by (auto simp: sendCoverMessageWorker_def sendCover_cleanup_def Let_def finish_task_def close_conn_def
        split: if_splits option.splits)
  then show ?thesis
    by (auto intro: only_rooted_paths only_rooted_delete)
qed

lemma handleApplicationMessageWorker_rooted:
  assumes "handleApplicationMessageWorker E ctx conn c p ev s = Ret s'"
  shows "only_rooted s s'"
proof (cases "\<exists>m. ev = Received m")
  case True
  then obtain m err where "handleApplicationMessage E m c p s = Ret (err, s')"
    using assms by (auto simp: handleApplicationMessageWorker_def elim!: obind_RetE)
  then show ?thesis
    by (rule only_rooted_same [OF handleApplicationMessage_same])
next
  case False
  then have "paths s' = paths s"
    using assms
    by (auto simp: handleApplicationMessageWorker_def handleApp_cleanup_def finish_task_def close_conn_def
        split: app_event.splits)
  then show ?thesis
    by (rule only_rooted_paths)
qed

lemma markPublishJobStatus_rooted: "only_rooted s (finish_task g (markPublishJobStatus jobID job s))"
proof -
  have "o_routes (view (finish_task g (markPublishJobStatus jobID job s))) = o_routes (view s)"
    by (auto simp: view_def fun_eq_iff markPublishJobStatus_def finish_task_def Let_def split: option.split)
  then show ?thesis
    by (simp add: only_rooted_def)
qed

lemma handleConnection_rooted:
  assumes "handleConnection E c m s = Ret s'"
  shows "only_rooted s s'"
proof (cases m)
  case (Inl err)
  with assms show ?thesis
    by (auto simp: handleConnection_def close_conn_def intro: only_rooted_paths)
next
  case (Inr msg)
  then obtain e where run: "handleMessage E c msg s = Ret (e, s')"
    using assms by (auto simp: handleConnection_def elim!: obind_RetE)
  note quiet = only_rooted_same
  have connect: "only_rooted s t" if "handleConnectPathReq E conn req s = Ret (e, t)" for conn req e t
    using that unfolding handleConnectPathReq_def
    by (auto split: option.splits sum.splits prod.splits bool.splits elim!: accept_connect_tables
        intro: only_rooted_paths quiet [OF close_conn_same(1)] quiet [OF answered_same])
  have host: "only_rooted s t" if "handleCreateProxyReq E conn req s = Ret (e, t)" for conn req e t
    using that unfolding handleCreateProxyReq_def Let_def
    by (auto split: option.splits sum.splits prod.splits if_splits elim!: accept_proxy_tables
        intro: only_rooted_set quiet [OF answered_same])
  show ?thesis
    using run quiet [OF handleQueryPathReq_same] quiet [OF handleVerifyCoverReq_same]
    by (auto simp: handleMessage_def Let_def split: sum.splits if_splits dest: connect host
        intro: quiet) (metis snd_conv)+
qed

lemma become_proxy_rooted: "only_rooted s (become_proxy E s)"
  by (rule only_rooted_set) (auto simp: become_proxy_def Let_def tick_def self_proxy_path_def)

text \<open>Operations that hook a tree to a peer.\<close>

definition hooked :: "uuid \<Rightarrow> string \<Rightarrow> state \<Rightarrow> state \<Rightarrow> bool" where
  "hooked t b s s' \<longleftrightarrow> o_routes (view s') = o_routes (view s) \<or> o_routes (view s') = (o_routes (view s))(t \<mapsto> b)"

lemma hooked_set: "paths s' = setValue (paths s) t p \<Longrightarrow> hooked t (p_next p) s s'"
  using routes_set [of s' s t p] by (simp add: hooked_def)

lemma hooked_paths: "paths s' = paths s \<Longrightarrow> hooked t b s s'"
  using routes_paths [of s' s] by (simp add: hooked_def)

lemma ConnectPath_hooked:
  assumes "ConnectPath E ip t s = Ret (r, s')" and "caches_ok s" and "offers_from ip t s"
  shows "hooked t ip s s'"
  using ConnectPath_through_peer [OF assms] by (auto intro: hooked_paths dest: hooked_set)

lemma install_hooked: "p_next profile = ip \<Longrightarrow> \<exists>t. hooked t ip s (install_path profile tc k s)"
  using hooked_set [OF install_path_paths [of profile tc k s]] by auto

lemma nothing_hooked: "\<exists>t. hooked t ip s s"
  by (simp add: hooked_def)

lemma CreateProxy_hooked:
  assumes "CreateProxy E ip s = Ret (r, s')"
  shows "\<exists>t. hooked t ip s s'"
proof -
  obtain secret info s1 where ex: "open_exchange E s = Ret (secret, info, s1)"
    using assms unfolding CreateProxy_def by (auto elim!: obind_RetE)
  obtain q s2 where send: "sendCreateProxyRequest E ip info s1 = (q, s2)"
    by fastforce
  have "same_node s s2"
    using open_exchange_same [OF ex] send_same(3) [of s1 E ip info] send by (auto intro: same_node_trans)
  then have s2: "paths s2 = paths s"
    by (rule same_node_fields)
  have "\<exists>t. hooked t ip s2 s'"
    using assms ex send
    by (cases q) (auto simp: CreateProxy_def elim!: obind_RetE split: sum.splits if_splits
        simp del: ex_simps simp add: install_hooked nothing_hooked)
  then show ?thesis
    using routes_paths [OF s2] by (simp add: hooked_def)
qed

lemma MoveUp_hooked:
  assumes "MoveUp E p s = Ret s'" and "node_inv E s" and "p_next2 p \<noteq> IS \<longrightarrow> offers_from (p_next2 p) (p_uuid p) s"
  shows "hooked (p_uuid p) (p_next2 p) s s' \<or> only_rooted s s'"
proof (cases "p_next2 p = IS")
  case True
  with assms(1) show ?thesis
    by (simp add: MoveUp_def)
next
  case False
  obtain r s1 where send: "sendVerifyCoverRequest E (p_next2 p) (p_next p) s = (r, s1)"
    by fastforce
  then have same: "same_node s s1"
    using send_same(2) [of s E "p_next2 p" "p_next p"] by simp
  have proxy: "only_rooted s s'" if "cancel_covers_of E k u = Ret w" "s' = become_proxy E w" "paths u = paths s" for k u w
  proof -
    have "paths w = paths s"
      using cancel_covers_same [OF that(1)] same_node_fields(1) that(3) by metis
    then show ?thesis
      using become_proxy_rooted [of w E] routes_paths [of w s] by (simp add: only_rooted_def that(2))
  qed
  have connect: "hooked (p_uuid p) (p_next2 p) s s2"
    if "ConnectPath E (p_next2 p) (p_uuid p) s1 = Ret (q, s2)" for q s2
  proof -
    have "caches_ok s1" "offers_from (p_next2 p) (p_uuid p) s1"
      using same assms(2,3) False
      by (auto simp: node_inv_def node_ok_def caches_ok_def same_node_fields intro: offers_from_same)
    with that have "hooked (p_uuid p) (p_next2 p) s1 s2"
      by (rule ConnectPath_hooked)
    then show ?thesis
      using view_same_node [OF same] by (simp add: hooked_def)
  qed
  have refused: "paths s2 = paths s"
    if "ConnectPath E (p_next2 p) (p_uuid p) s1 = Ret ((resp, err), s2)"
      "\<not> (err = None \<and> (case resp of None \<Rightarrow> False | Some m \<Rightarrow> cresp_Accepted m))" for resp err s2
  proof -
    have "caches_ok s1"
      using same assms(2) by (auto simp: node_inv_def node_ok_def caches_ok_def same_node_fields)
    from that(1) this show ?thesis
      by (cases rule: ConnectPath_cases) (use that(2) same in \<open>auto simp: same_but_caches_def same_node_fields\<close>)
  qed
  have kept: "paths s1 = paths s"
    using same by (rule same_node_fields)
  show ?thesis
  proof (cases r)
    case (Inl err)
    with assms(1) False send kept show ?thesis
      by (simp add: MoveUp_def hooked_paths)
  next
    case (Inr m)
    note run = assms(1) [unfolded MoveUp_def if_not_P [OF False] send, simplified Inr Let_def prod.case sum.case]
    show ?thesis
    proof (cases "vresp_IsVerified m")
      case False
      with run proxy [OF _ _ kept] show ?thesis
        by (auto elim!: obind_RetE)
    next
      case True
      then obtain resp err s2 where con: "ConnectPath E (p_next2 p) (p_uuid p) s1 = Ret ((resp, err), s2)"
        using run by (auto elim!: obind_RetE)
      show ?thesis
      proof (cases "err = None \<and> (case resp of None \<Rightarrow> False | Some m \<Rightarrow> cresp_Accepted m)")
        case True
        with run con \<open>vresp_IsVerified m\<close> have "s' = s2"
          by (simp split: if_splits)
        with connect [OF con] show ?thesis
          by simp
      next
        case False
        with run con \<open>vresp_IsVerified m\<close> obtain w where "cancel_covers_of E (p_uuid p) s2 = Ret w" "s' = become_proxy E w"
          by (auto elim!: obind_RetE split: if_splits)
        with proxy refused [OF con False] show ?thesis
          by blast
      qed
    qed
  qed
qed

lemma handle_invalid_hooked:
  assumes "handle_invalid r s = Ret s'"
  shows "hooked (p_uuid (i_SelfProfile r)) (p_next (i_SelfProfile r)) s s'"
proof (cases "i_HandleType r")
  case CLEAN
  then have "same_node s s'"
    using assms by (auto simp: handle_invalid_def dest: same_node_cancel)
  then show ?thesis
    by (intro hooked_paths) (simp add: same_node_fields)
next
  case FIX
  let ?p = "(i_SelfProfile r)\<lparr>p_next2 := path_NextHopIP (i_NextHopProfile r),
      p_proxyPublic := path_ProxyPublicKey (i_NextHopProfile r)\<rparr>"
  have "paths s' = setValue (paths s) (p_uuid (i_SelfProfile r)) ?p"
    using assms FIX by (auto simp: handle_invalid_def Let_def)
  from hooked_set [OF this] show ?thesis
    by simp
qed

section \<open>Networks whose trees stay trees\<close>

text \<open>
  The operations of the nodes, each with arbitrary peers.  Joining a tree has a condition that the code does not check: the
  node that joins has nobody below it on that tree.  Moving up and repairing have conditions that say the node's own
  record of its path is accurate: the second hop is an ancestor, and the repaired path still has its next hop.
\<close>

inductive net_step :: "(string \<Rightarrow> env) \<Rightarrow> network \<Rightarrow> network \<Rightarrow> bool" for E :: "string \<Rightarrow> env" where
  net_publish: "a \<noteq> IS \<Longrightarrow> Publish (E a) key m target (N a) = Ret (r, s') \<Longrightarrow> net_step E N (N(a := s'))"
| net_cover: "a \<noteq> IS \<Longrightarrow> sendCoverMessageWorker (E a) ctx tc p (N a) = Ret s' \<Longrightarrow> net_step E N (N(a := s'))"
| net_receive: "a \<noteq> IS \<Longrightarrow> handleApplicationMessageWorker (E a) ctx conn c p ev (N a) = Ret s' \<Longrightarrow>
    net_step E N (N(a := s'))"
| net_job: "a \<noteq> IS \<Longrightarrow>
    net_step E N (N(a := finish_task (CheckPublishJobStatusWorker j) (markPublishJobStatus j job (N a))))"
| net_answer: "a \<noteq> IS \<Longrightarrow> handleConnection (E a) c m (N a) = Ret s' \<Longrightarrow> net_step E N (N(a := s'))"
| net_own_proxy: "a \<noteq> IS \<Longrightarrow> net_step E N (N(a := become_proxy (E a) (N a)))"
| net_join: "a \<noteq> IS \<Longrightarrow> ConnectPath (E a) b t (N a) = Ret (r, s') \<Longrightarrow> offers_from b t (N a) \<Longrightarrow>
    a \<noteq> b \<Longrightarrow> \<forall>x. (x, a) \<notin> leads N t \<Longrightarrow> net_step E N (N(a := s'))"
| net_ask_proxy: "a \<noteq> IS \<Longrightarrow> CreateProxy (E a) b (N a) = Ret (r, s') \<Longrightarrow> a \<noteq> b \<Longrightarrow>
    \<forall>t. o_routes (view s') t \<noteq> o_routes (view (N a)) t \<longrightarrow> (\<forall>x. (x, a) \<notin> leads N t) \<Longrightarrow> net_step E N (N(a := s'))"
| net_move_up: "a \<noteq> IS \<Longrightarrow> MoveUp (E a) p (N a) = Ret s' \<Longrightarrow>
    p_next2 p \<noteq> IS \<longrightarrow> offers_from (p_next2 p) (p_uuid p) (N a) \<and> (a, p_next2 p) \<in> (leads N (p_uuid p))\<^sup>+ \<Longrightarrow>
    net_step E N (N(a := s'))"
| net_repair: "a \<noteq> IS \<Longrightarrow> handle_invalid r (N a) = Ret s' \<Longrightarrow> report_ok (N a) r \<Longrightarrow>
    (a, p_next (i_SelfProfile r)) \<in> leads N (p_uuid (i_SelfProfile r)) \<Longrightarrow> net_step E N (N(a := s'))"
| net_cancel: "a \<noteq> IS \<Longrightarrow> call_cancel f e (N a) = Ret s' \<Longrightarrow> net_step E N (N(a := s'))"
| net_time: "a \<noteq> IS \<Longrightarrow> net_step E N (N(a := tick (N a)))"

definition net_start :: "network \<Rightarrow> bool" where
  "net_start N \<longleftrightarrow> (\<forall>a. node_start (N a))"

definition net_inv :: "(string \<Rightarrow> env) \<Rightarrow> network \<Rightarrow> bool" where
  "net_inv E N \<longleftrightarrow> (\<forall>a. node_inv (E a) (N a)) \<and> (\<forall>t. acyclic (leads N t)) \<and> (\<forall>t x. (IS, x) \<notin> leads N t)"

lemma net_inv_update:
  assumes "net_inv E N" and "a \<noteq> IS" and "node_inv (E a) s'" and "safe_routes N a s'"
  shows "net_inv E (N(a := s'))"
  using assms acyclic_leads_update [OF _ assms(4)] by (auto simp: net_inv_def leads_def)

lemma net_inv_rooted:
  assumes "net_inv E N" and "a \<noteq> IS" and "node_inv (E a) s'" and "only_rooted (N a) s'"
  shows "net_inv E (N(a := s'))"
proof (rule net_inv_update [OF assms(1-3)])
  have "safe_hop (leads N t) a IS" for t
    using assms(1,2) by (simp add: safe_hop_def net_inv_def)
  with assms(4) show "safe_routes N a s'"
    by (auto simp: safe_routes_def only_rooted_def)
qed

lemma net_inv_hooked:
  assumes "net_inv E N" and "a \<noteq> IS" and "node_inv (E a) s'" and "hooked t b (N a) s'"
    and "o_routes (view s') t \<noteq> o_routes (view (N a)) t \<Longrightarrow> safe_hop (leads N t) a b"
  shows "net_inv E (N(a := s'))"
proof (rule net_inv_update [OF assms(1-3)])
  show "safe_routes N a s'"
    using assms(4,5)
    by (cases "o_routes (view s') t = o_routes (view (N a)) t") (auto simp: safe_routes_def hooked_def split: if_splits)
qed

lemma safe_ancestor: "net_inv E N \<Longrightarrow> (a, b) \<in> (leads N t)\<^sup>+ \<Longrightarrow> safe_hop (leads N t) a b"
  by (auto simp: safe_hop_def net_inv_def acyclic_def)

lemma net_inv_step: "net_step E N N' \<Longrightarrow> net_inv E N \<Longrightarrow> net_inv E N'"
proof (induction rule: net_step.induct)
  case (net_publish a key m target N r s')
  then show ?case
    by (metis net_inv_def net_inv_rooted Publish_inv Publish_rooted)
next
  case (net_cover a ctx tc p N s')
  then show ?case
    by (metis net_inv_def net_inv_rooted sendCoverMessageWorker_inv sendCoverMessageWorker_rooted)
next
  case (net_receive a ctx conn c p ev N s')
  then show ?case
    by (metis net_inv_def net_inv_rooted handleApplicationMessageWorker_inv handleApplicationMessageWorker_rooted)
next
  case (net_job a N j job)
  then show ?case
    by (metis net_inv_def net_inv_rooted finish_task_inv markPublishJobStatus_inv markPublishJobStatus_rooted)
next
  case (net_answer a c m N s')
  then show ?case
    by (metis net_inv_def net_inv_rooted handleConnection_inv handleConnection_rooted)
next
  case (net_own_proxy a N)
  then show ?case
    by (metis net_inv_def net_inv_rooted become_proxy_inv become_proxy_rooted)
next
  case (net_join a b t N r s')
  have inv: "node_inv (E a) (N a)"
    using net_join by (simp add: net_inv_def)
  show ?case
  proof (rule net_inv_hooked [OF net_join(6,1)])
    show "node_inv (E a) s'"
      using net_join(2) inv by (rule ConnectPath_inv)
    show "hooked t b (N a) s'"
      using net_join(2) node_inv_caches_ok [OF inv] net_join(3) by (rule ConnectPath_hooked)
    show "safe_hop (leads N t) a b"
      using net_join(4,5) by (simp add: safe_hop_def)
  qed
next
  case (net_ask_proxy a b N r s')
  obtain t where t: "hooked t b (N a) s'"
    using CreateProxy_hooked [OF net_ask_proxy(2)] by blast
  show ?case
  proof (rule net_inv_hooked [OF net_ask_proxy(5,1) _ t])
    show "node_inv (E a) s'"
      using net_ask_proxy(2,5) CreateProxy_inv by (auto simp: net_inv_def)
    show "safe_hop (leads N t) a b" if "o_routes (view s') t \<noteq> o_routes (view (N a)) t"
      using net_ask_proxy(3,4) that by (simp add: safe_hop_def)
  qed
next
  case (net_move_up a p N s')
  have inv: "node_inv (E a) (N a)"
    using net_move_up by (simp add: net_inv_def)
  then have s': "node_inv (E a) s'"
    using net_move_up(2) MoveUp_inv by blast
  have "hooked (p_uuid p) (p_next2 p) (N a) s' \<or> only_rooted (N a) s'"
    using net_move_up(2) inv by (rule MoveUp_hooked) (use net_move_up(3) in blast)
  then show ?case
  proof
    assume hook: "hooked (p_uuid p) (p_next2 p) (N a) s'"
    have "safe_hop (leads N (p_uuid p)) a (p_next2 p)"
    proof (cases "p_next2 p = IS")
      case True
      with net_move_up(1,4) show ?thesis
        by (auto simp: safe_hop_def net_inv_def)
    next
      case False
      with net_move_up(3,4) show ?thesis
        by (auto intro: safe_ancestor)
    qed
    then show ?thesis
      by (rule net_inv_hooked [OF net_move_up(4,1) s' hook])
  next
    assume "only_rooted (N a) s'"
    then show ?thesis
      by (rule net_inv_rooted [OF net_move_up(4,1) s'])
  qed
next
  case (net_repair a r N s')
  have "node_inv (E a) s'"
    using net_repair handle_invalid_inv by (auto simp: net_inv_def)
  then show ?case
    using net_repair by (intro net_inv_hooked [OF _ _ _ handle_invalid_hooked]) (auto intro: safe_ancestor)
next
  case (net_cancel a f e N s')
  then show ?case
    by (metis net_inv_def net_inv_rooted call_cancel_inv only_rooted_same same_node_cancel)
next
  case (net_time a N)
  then show ?case
    by (metis net_inv_def net_inv_rooted tick_inv only_rooted_same same_node_runtime(1))
qed

lemma net_start_fresh:
  assumes "net_start N"
  shows "paths (N a) = []" "node_inv E (N a)"
proof -
  obtain L t name where "N a = NewNode L t name"
    using assms unfolding net_start_def node_start_def by metis
  then show "paths (N a) = []" "node_inv E (N a)"
    by (simp_all add: node_inv_NewNode) (simp add: NewNode_def NewMutexMap_def Let_def split: prod.split)
qed

interpretation trees: inductive_invariant net_start "net_step E" "net_inv E" for E
proof unfold_locales
  show "net_inv E N" if "net_start N" for N
    using net_start_fresh [OF that] by (simp add: net_inv_def leads_def view_def getValue_def acyclic_def)
qed (rule net_inv_step)



end
