(* ===== verification/Loops.thy ===== *)
theory Loops
  imports Trees Delivery
begin

text \<open>
  Two nodes on one tree, each below the other.  A node that lost its path asks its members for another one; one of its own
  covers offers the very tree it sends into this node, and the second hop that \<open>QueryPath\<close> asks to confirm the
  offer is the asking node itself, which confirms it.
\<close>

section \<open>Confirming a cover\<close>

text \<open>Dialling and writing succeed, and the two messages of a verification can be encoded.\<close>

definition undisturbed :: "env \<Rightarrow> bool" where
  "undisturbed E \<longleftrightarrow> (\<forall>t l a. e_dial E t l a = None) \<and> (\<forall>t c. e_write E t c = None) \<and>
     (\<forall>q. \<exists>m. enc_VerifyCoverReq (e_gob E) q = Inr m) \<and> (\<forall>r. \<exists>bs. enc_VerifyCoverResp (e_gob E) r = Inr bs)"

lemma verify_answer_yes:
  assumes "gob_correct (e_gob E)" and "undisturbed E" and "getValue (covers p) x \<noteq> None"
    and "enc_VerifyCoverReq (e_gob E) \<lparr>vreq_NextHopIP = x\<rparr> = Inr m"
  shows "\<exists>bs. answer_of E c p \<lparr>pm_Type = VerifyCoverRequest, pm_Content = m\<rparr> = Arrived bs \<and>
     enc_VerifyCoverResp (e_gob E) \<lparr>vresp_IsVerified = True\<rparr> = Inr bs"
proof -
  have "handleMessage E c \<lparr>pm_Type = VerifyCoverRequest, pm_Content = m\<rparr> p =
      Ret (handleVerifyCoverReq E c \<lparr>vreq_NextHopIP = x\<rparr> p)"
    using gob_decode(3) [OF assms(1,4)] by (simp add: handleMessage_def message_types)
  moreover obtain bs where "enc_VerifyCoverResp (e_gob E) \<lparr>vresp_IsVerified = True\<rparr> = Inr bs"
    using assms(2) unfolding undisturbed_def by blast
  ultimately show ?thesis
    using assms(2,3)
    by (simp add: answer_of_def encoded_def handleVerifyCoverReq_def Let_def write_response_def close_conn_def tick_def
        undisturbed_def)
qed

lemma verify_half_open_yes:
  assumes "gob_correct (e_gob E)" and "e_gob E' = e_gob E" and "undisturbed E" and "undisturbed E'"
    and "\<forall>t m. e_arrival E t (p_next2 half) \<lparr>pm_Type = VerifyCoverRequest, pm_Content = m\<rparr> =
           answer_of E' c p \<lparr>pm_Type = VerifyCoverRequest, pm_Content = m\<rparr>"
    and "getValue (covers p) (p_next half) \<noteq> None"
  shows "fst (verify_half_open E half s)"
proof (cases "p_next2 half = IS")
  case True
  then show ?thesis by (simp add: verify_half_open_def)
next
  case False
  obtain m where m: "enc_VerifyCoverReq (e_gob E) \<lparr>vreq_NextHopIP = p_next half\<rparr> = Inr m"
    using assms(3) unfolding undisturbed_def by blast
  obtain bs where "answer_of E' c p \<lparr>pm_Type = VerifyCoverRequest, pm_Content = m\<rparr> = Arrived bs"
    "enc_VerifyCoverResp (e_gob E) \<lparr>vresp_IsVerified = True\<rparr> = Inr bs"
    using verify_answer_yes [of E' p "p_next half" m c] assms m by auto
  then show ?thesis
    using False m assms(3,5) gob_decode(4) [OF assms(1)]
    by (simp add: verify_half_open_def sendVerifyCoverRequest_def tcpSendAndWaitResponse_def waitForResponse_def Let_def
        undisturbed_def)
qed

section \<open>A descendant's offer\<close>

lemma fold_collects:
  assumes "q \<in> set qs" and "I s"
    and "\<And>x v u. I u \<Longrightarrow> I (snd (f x (v, u))) \<and> set v \<subseteq> set (fst (f x (v, u)))"
    and "\<And>v u. I u \<Longrightarrow> h \<in> set (fst (f q (v, u)))"
  shows "h \<in> set (fst (fold f qs (v, s)))"
  using assms(1,2)
proof (induction qs arbitrary: v s)
  case Nil
  then show ?case by simp
next
  case (Cons x xs)
  obtain w u where w: "f x (v, s) = (w, u)"
    by (cases "f x (v, s)")
  have grow: "I u' \<Longrightarrow> set v' \<subseteq> set (fst (fold f ys (v', u')))" for ys v' u'
  proof (induction ys arbitrary: v' u')
    case (Cons y ys)
    obtain w' t where "f y (v', u') = (w', t)"
      by (cases "f y (v', u')")
    with Cons assms(3) [of u' y v'] show ?case
      by fastforce
  qed simp
  have u: "I u"
    using assms(3) [of s x v] Cons.prems(2) w by simp
  show ?case
  proof (cases "x = q")
    case True
    then have "h \<in> set w"
      using assms(4) [OF Cons.prems(2), of v] w by simp
    then show ?thesis
      using grow [OF u, of w xs] w by auto
  next
    case False
    with Cons u w show ?thesis
      by simp
  qed
qed

lemma QueryPath_step_keeps:
  "paths (snd (QueryPath_step E ip path (v, u))) = paths u \<and>
   privateKey (snd (QueryPath_step E ip path (v, u))) = privateKey u \<and>
   peerPublicKeys (snd (QueryPath_step E ip path (v, u))) = peerPublicKeys u \<and>
   set v \<subseteq> set (fst (QueryPath_step E ip path (v, u)))"
proof -
  have keep: "paths u' = paths t \<and> privateKey u' = privateKey t \<and> peerPublicKeys u' = peerPublicKeys t" if "verify_half_open E h t = (b, u')" for h t b u'
    using verify_half_open_same [OF that] by (simp add: same_node_fields)
  show ?thesis
    by (auto simp: QueryPath_step_def Let_def keep split: prod.splits sum.splits option.splits if_splits dest!: keep)
qed

text \<open>The offer of a tree that the node is not on, by a peer that is its cover and has it as next hop, is verified.\<close>

definition offer_of :: "string \<Rightarrow> uuid \<Rightarrow> Path \<Rightarrow> PathProfile" where
  "offer_of ip u q =
     \<lparr>p_uuid = u, p_next = ip, p_next2 = path_NextHopIP q, p_proxyPublic = path_ProxyPublicKey q, p_symKey = 0,
      p_successCount = 0, p_failureCount = 0, p_cancelFunc = None\<rparr>"

lemma QueryPath_step_offers_tree:
  assumes "DecryptUUID (e_lib E) (path_EncryptedTreeUUID q) (privateKey u) = Inr k" and "getValue (paths u) k = None"
    and "fst (verify_half_open E (offer_of ip k q) u)"
  shows "offer_of ip k q \<in> set (fst (QueryPath_step E ip q (v, u)))"
  using assms by (simp add: QueryPath_step_def Let_def offer_of_def case_prod_beta)

lemma QueryPath_offers_tree:
  assumes "QueryPath E ip s = Ret (Inr resp, offers, s')" and "q \<in> set (qresp_Paths resp)"
    and "DecryptUUID (e_lib E) (path_EncryptedTreeUUID q) (privateKey s) = Inr k" and "getValue (paths s) k = None"
    and "\<And>u. fst (verify_half_open E (offer_of ip k q) u)"
  shows "offer_of ip k q \<in> set offers"
proof -
  obtain s1 where send: "sendQueryPathRequest E ip s = (Inr resp, s1)"
    using assms(1) by (auto simp: QueryPath_def Let_def split: prod.splits sum.splits)
  let ?s2 = "s1\<lparr>peerPublicKeys := setValue (peerPublicKeys s1) ip (qresp_ParentPublicKey resp)\<rparr>"
  let ?I = "\<lambda>u. paths u = paths s \<and> privateKey u = privateKey s"
  have "same_node s s1"
    using send_same(1) [of s E ip] send by simp
  then have start: "?I ?s2"
    by (simp add: same_node_fields)
  have "offer_of ip k q \<in> set (fst (fold (QueryPath_step E ip) (qresp_Paths resp) ([], ?s2)))"
  proof (rule fold_collects [where I = ?I, OF assms(2) start])
    show "?I (snd (QueryPath_step E ip x (v, u))) \<and> set v \<subseteq> set (fst (QueryPath_step E ip x (v, u)))"
      if "?I u" for x v u
      using QueryPath_step_keeps [of E ip x v u] that by simp
    show "offer_of ip k q \<in> set (fst (QueryPath_step E ip q (v, u)))" if "?I u" for v u
      by (rule QueryPath_step_offers_tree) (use that assms(3-5) in simp_all)
  qed
  moreover have "fold (QueryPath_step E ip) (qresp_Paths resp) ([], ?s2) = (offers, s')"
    using assms(1) send by (auto simp: QueryPath_def Let_def split: prod.splits)
  ultimately show ?thesis
    by simp
qed

lemma handleConnectPathReq_paths:
  assumes "handleConnectPathReq E conn req s = Ret (e, s')"
  shows "paths s' = paths s"
proof -
  have quiet: "paths t = paths s" if "same_node s t" for t
    using that by (rule same_node_fields)
  show ?thesis
    using assms unfolding handleConnectPathReq_def
    by (auto split: option.splits sum.splits prod.splits bool.splits elim!: accept_connect_tables
        intro: quiet [OF close_conn_same(1)] quiet [OF answered_same])
qed

lemma QueryPath_learns_key:
  assumes "QueryPath E ip s = Ret (r, offers, s')"
  shows "\<exists>resp. r = Inr resp \<and> getValue (peerPublicKeys s') ip = Some (qresp_ParentPublicKey resp)"
proof -
  obtain resp s1 where send: "sendQueryPathRequest E ip s = (Inr resp, s1)"
    using assms by (auto simp: QueryPath_def Let_def split: prod.splits sum.splits)
  let ?s2 = "s1\<lparr>peerPublicKeys := setValue (peerPublicKeys s1) ip (qresp_ParentPublicKey resp)\<rparr>"
  have "getValue (peerPublicKeys (snd (fold (QueryPath_step E ip) (qresp_Paths resp) ([], ?s2)))) ip =
      Some (qresp_ParentPublicKey resp)"
  proof (rule fold_invariant_on)
    show "getValue (peerPublicKeys (snd (QueryPath_step E ip x acc))) ip = Some (qresp_ParentPublicKey resp)"
      if "getValue (peerPublicKeys (snd acc)) ip = Some (qresp_ParentPublicKey resp)" for x acc
      using QueryPath_step_keeps [of E ip x "fst acc" "snd acc"] that by simp
  qed simp
  moreover have "r = Inr resp" "fold (QueryPath_step E ip) (qresp_Paths resp) ([], ?s2) = (offers, s')"
    using assms send by (auto simp: QueryPath_def Let_def split: prod.splits)
  ultimately show ?thesis
    by simp
qed

lemma handleMessage_connect_paths:
  assumes "handleMessage E c \<lparr>pm_Type = ConnectPathRequest, pm_Content = m\<rparr> s = Ret (e, s')"
  shows "paths s' = paths s"
  using assms by (auto simp: handleMessage_def message_types Let_def split: sum.splits dest: handleConnectPathReq_paths)

text \<open>
  Property C16: a node can end up below its own descendant.  Let a node have lost its path on a tree while one of its covers
  still sends into it on that tree.  When the node asks this cover for paths, the cover offers the tree back, and the one
  who confirms that offer is the node itself, since it is the cover's next hop; so the offer is verified.  If the
  node then connects, the two agree on a key and each is the other's next hop on the tree: a cycle that leads to
  no proxy, and the node goes on serving the cover.
\<close>

theorem descendant_becomes_parent:
  assumes "gob_correct (e_gob E)" and "e_gob E' = e_gob E" and "e_lib E' = e_lib E"
    and "undisturbed E" and "undisturbed E'"
    and "ecc_pair (e_lib E) (publicKey s) (privateKey s)" and "uuid_lib_correct (e_lib E)"
    and "seals_for (e_lib E) (publicKey s)"
    and "caches_ok s" and "getValue (paths s) u = None" and "getValue (covers s) below \<noteq> None"
    and "paths_ok (paths d)" and "getValue (paths d) u = Some q" and "p_next q = self"
    and "\<forall>t m. e_arrival E t below \<lparr>pm_Type = QueryPathRequest, pm_Content = m\<rparr> =
           answer_of E' c d \<lparr>pm_Type = QueryPathRequest, pm_Content = m\<rparr>"
    and "\<forall>t m. e_arrival E t self \<lparr>pm_Type = VerifyCoverRequest, pm_Content = m\<rparr> =
           answer_of E' c' s \<lparr>pm_Type = VerifyCoverRequest, pm_Content = m\<rparr>"
    and "\<forall>t m. e_arrival E t below \<lparr>pm_Type = ConnectPathRequest, pm_Content = m\<rparr> =
           answer_of E' c d \<lparr>pm_Type = ConnectPathRequest, pm_Content = m\<rparr>"
    and "QueryPath E below s = Ret (Inr resp, offers, s1)"
    and "ConnectPath E below u s1 = Ret ((Some r, None), s2)" and "cresp_Accepted r"
  shows "(\<exists>h \<in> set offers. p_uuid h = u \<and> p_next h = below \<and> p_next2 h = self) \<and>
    (\<exists>m d' p ip port cover. handleMessage E' c \<lparr>pm_Type = ConnectPathRequest, pm_Content = m\<rparr> d = Ret (None, d') \<and>
       getValue (paths s2) u = Some p \<and> SplitHostPort (in_remote c) = Inr (ip, port) \<and>
       getValue (covers d') ip = Some cover \<and> p_symKey p = c_secretKey cover \<and> covers s2 = covers s \<and>
       (\<forall>N. N self = s2 \<and> N below = d' \<longrightarrow>
          (self, below) \<in> leads N u \<and> (below, self) \<in> leads N u \<and> (self, self) \<in> (leads N u)\<^sup>+))"
proof
  obtain s0 where send: "sendQueryPathRequest E below s = (Inr resp, s0)"
    using assms(18) by (auto simp: QueryPath_def Let_def split: prod.splits sum.splits)
  have wf: "wf_map (paths d)"
    using assms(12) by (simp add: paths_ok_def)
  have "(u, q) \<in> set (range_entries (e_order_uuid E' (clock d)) (paths d))"
    using assms(13) by (simp add: mm.entries_mem [OF wf])
  then have "told (u, q) \<in> set (map (understood (e_lib E) (privateKey s)) (qresp_Paths resp))"
    unfolding queried_table [OF assms(1-3,6-8,12,15) send] by simp
  then obtain w where w: "w \<in> set (qresp_Paths resp)" "understood (e_lib E) (privateKey s) w = told (u, q)"
    by auto
  then have w': "DecryptUUID (e_lib E) (path_EncryptedTreeUUID w) (privateKey s) = Inr u" "path_NextHopIP w = self"
    using assms(14) by (simp_all add: understood_def told_def)
  have "fst (verify_half_open E (offer_of below u w) v)" for v
    by (rule verify_half_open_yes [OF assms(1,2,4,5), where c = c' and p = s])
      (use assms(11,16) w'(2) in \<open>simp_all add: offer_of_def\<close>)
  from QueryPath_offers_tree [OF assms(18) w(1) w'(1) assms(10) this]
  show "\<exists>h \<in> set offers. p_uuid h = u \<and> p_next h = below \<and> p_next2 h = self"
    using w'(2) by (intro bexI) (auto simp: offer_of_def)
  then have offered: "\<exists>h. getValue (halfOpenPath s1) u = Some h \<and> p_next h = below" and caches: "covers s1 = covers s"
    using QueryPath_ok [OF assms(18,9)] by (auto simp: offered_ok_def same_but_caches_def)
  then obtain h where h: "getValue (halfOpenPath s1) u = Some h" "p_next h = below"
    by blast
  have "getValue (peerPublicKeys s1) below \<noteq> None"
    using QueryPath_learns_key [OF assms(18)] by auto
  then obtain p where p: "follows_offer h p" "paths s2 = setValue (paths s1) u p" "covers s2 = covers s1"
    by (rule ConnectPath_cached [OF assms(19,20) _ h(1)])
  obtain m d' path cover ip port where link:
    "handleMessage E' c \<lparr>pm_Type = ConnectPathRequest, pm_Content = m\<rparr> d = Ret (None, d')"
    "SplitHostPort (in_remote c) = Inr (ip, port)" "getValue (paths s2) u = Some path"
    "getValue (covers d') ip = Some cover" "p_symKey path = c_secretKey cover"
    using link_established [OF assms(1,2,17,19,20)] by blast
  have "path = p"
    using link(3) p(2) by simp
  moreover have "paths d' = paths d"
    using handleMessage_connect_paths [OF link(1)] .
  then have "(self, below) \<in> leads N u \<and> (below, self) \<in> leads N u" if "N self = s2" "N below = d'" for N
    using that link(3) p(1) \<open>path = p\<close> h(2) assms(13,14) by (auto simp: leads_def view_def follows_offer_def)
  ultimately show "\<exists>m d' p ip port cover.
       handleMessage E' c \<lparr>pm_Type = ConnectPathRequest, pm_Content = m\<rparr> d = Ret (None, d') \<and>
       getValue (paths s2) u = Some p \<and> SplitHostPort (in_remote c) = Inr (ip, port) \<and>
       getValue (covers d') ip = Some cover \<and> p_symKey p = c_secretKey cover \<and> covers s2 = covers s \<and>
       (\<forall>N. N self = s2 \<and> N below = d' \<longrightarrow>
          (self, below) \<in> leads N u \<and> (below, self) \<in> leads N u \<and> (self, self) \<in> (leads N u)\<^sup>+)"
    using link p(3) caches by (intro exI [of _ m] exI [of _ d'] exI [of _ p] exI [of _ ip] exI [of _ port] exI [of _ cover])
      (auto intro: trancl.intros)
qed

text \<open>
  A node at \<open>10.0.0.2\<close> that has lost its path on tree 5, and its cover at \<open>10.0.0.8\<close>, whose path on that tree leads
  through the node.
\<close>

definition orphan :: state where
  "orphan = node0\<lparr>clock := 7, covers := [(''10.0.0.8'', sample_cover\<lparr>c_cover := ''10.0.0.8''\<rparr>)]\<rparr>"

definition descendant :: state where
  "descendant = node0\<lparr>paths := [(5, relay_path\<lparr>p_next := ''10.0.0.2'', p_next2 := ''10.0.0.9''\<rparr>)]\<rparr>"

definition orphan_env :: env where
  "orphan_env = sample_env\<lparr>e_arrival := \<lambda>t ip m.
     answer_of sample_env caller (if ip = ''10.0.0.8'' then descendant else orphan) m\<rparr>"

lemma undisturbed_sample: "undisturbed sample_env" "undisturbed orphan_env"
  by (simp_all add: undisturbed_def orphan_env_def field_gob_def as_fields_def)

lemma orphan_env_fields [simp]:
  "e_lib orphan_env = sample_lib" "e_gob orphan_env = field_gob" "e_dial orphan_env t l a = None"
  "e_write orphan_env t c = None"
  by (simp_all add: orphan_env_def)

lemma orphan_env_arrival [simp]:
  "e_arrival orphan_env t ''10.0.0.8'' m = answer_of sample_env caller descendant m"
  "e_arrival orphan_env t ''10.0.0.2'' m = answer_of sample_env caller orphan m"
  by (simp_all add: orphan_env_def)

lemma range_entries_single: "range_entries ord [(k, v)] = [(k, v)]"
proof -
  have wf: "wf_map [(k, v)]"
    by (simp add: wf_map_def)
  have "length (range_entries ord [(k, v)]) = 1"
    using length_range_entries [OF wf] by simp
  then obtain e where e: "range_entries ord [(k, v)] = [e]"
    by (auto simp: length_Suc_conv)
  have "e \<in> set (range_entries ord [(k, v)])"
    by (simp add: e)
  then have "getValue [(k, v)] (fst e) = Some (snd e)"
    using mm.entries_mem [OF wf] by (metis prod.collapse)
  then have "e = (k, v)"
    by (cases e) (simp add: getValue_def split: if_splits)
  with e show ?thesis by simp
qed

lemma sample_asks:
  assumes "e_lib E = sample_lib" and "e_gob E = field_gob" and "\<And>t l a. e_dial E t l a = None"
    and "\<And>t c. e_write E t c = None"
    and "\<And>t m. e_arrival E t ip \<lparr>pm_Type = QueryPathRequest, pm_Content = m\<rparr> =
           answer_of sample_env caller d \<lparr>pm_Type = QueryPathRequest, pm_Content = m\<rparr>"
    and "paths d = [(5, p)]" and "p_uuid p = 5" and "publicKey d = [7]"
    and "publicKey s = [7]" and "p_cancelFunc p \<noteq> None"
  shows "\<exists>w s0. sendQueryPathRequest E ip s = (Inr \<lparr>qresp_ParentPublicKey = [7], qresp_Paths = [w]\<rparr>, s0) \<and>
     same_node s s0 \<and> clock s0 = Suc (clock s) \<and>
     DecryptUUID sample_lib (path_EncryptedTreeUUID w) [7] = Inr 5 \<and> path_NextHopIP w = p_next p"
proof -
  obtain m where m: "enc_QueryPathReq field_gob \<lparr>qreq_CoverPublicKey = [7]\<rparr> = Inr m"
    by (simp add: field_gob_def as_fields_def)
  have ok: "paths_ok (paths d)" "seals_for sample_lib [7]"
    using assms(6,7,10) by (auto simp: seals_for_def paths_ok_def wf_map_def getValue_def split: if_splits)
  obtain p' where p': "handleQueryPathReq sample_env caller \<lparr>qreq_CoverPublicKey = [7]\<rparr> d = (None, p')"
    by (simp add: handleQueryPathReq_def Let_def write_response_def case_prod_beta)
  have "\<exists>qs. responses p' = responses d @ [(in_conn caller, RespQueryPath
        \<lparr>qresp_ParentPublicKey = publicKey d, qresp_Paths = qs\<rparr>)] \<and>
     map (understood (e_lib sample_env) [7]) qs =
       map told (range_entries (e_order_uuid sample_env (clock d)) (paths d))"
    by (rule handleQueryPathReq_answer [OF _ _ _ ok(1) p']) (simp_all add: sample_lib_laws ok)
  then obtain qs where qs: "map snd (drop (length (responses d)) (responses p')) =
      [RespQueryPath \<lparr>qresp_ParentPublicKey = [7], qresp_Paths = qs\<rparr>]"
    "map (understood sample_lib [7]) qs = [told (5, p)]"
    using assms(6,8) by (auto simp: range_entries_single)
  then obtain w where w: "qs = [w]" "DecryptUUID sample_lib (path_EncryptedTreeUUID w) [7] = Inr 5"
    "path_NextHopIP w = p_next p"
    by (cases qs) (auto simp: understood_def told_def)
  obtain bs where bs: "enc_QueryPathResp field_gob \<lparr>qresp_ParentPublicKey = [7], qresp_Paths = qs\<rparr> = Inr bs"
    by (simp add: field_gob_def as_fields_def)
  have "handleMessage sample_env caller \<lparr>pm_Type = QueryPathRequest, pm_Content = m\<rparr> d = Ret (None, p')"
    using gob_decode(1) [OF field_gob_correct m] p' by (simp add: handleMessage_def)
  then have "answer_of sample_env caller d \<lparr>pm_Type = QueryPathRequest, pm_Content = m\<rparr> = Arrived bs"
    using qs(1) bs by (simp add: answer_of_def encoded_def)
  then show ?thesis
    using m gob_decode(2) [OF field_gob_correct bs] w assms(1-5,9)
    by (simp add: sendQueryPathRequest_def tcpSendAndWaitResponse_def waitForResponse_def Let_def
        close_conn_def tick_def same_node_def node.defs)
qed

lemma verify_ticks:
  assumes "undisturbed E" and "p_next2 half \<noteq> IS"
  shows "clock (snd (verify_half_open E half s)) = Suc (clock s)"
proof -
  obtain m where "enc_VerifyCoverReq (e_gob E) \<lparr>vreq_NextHopIP = p_next half\<rparr> = Inr m"
    using assms(1) unfolding undisturbed_def by blast
  then show ?thesis
    using assms
    by (simp add: verify_half_open_def sendVerifyCoverRequest_def tcpSendAndWaitResponse_def Let_def tick_def close_conn_def
        undisturbed_def case_prod_beta split: sum.split)
qed

lemma sample_queries:
  assumes "e_lib E = sample_lib" and "e_gob E = field_gob" and "undisturbed E"
    and "\<And>t m. e_arrival E t ip \<lparr>pm_Type = QueryPathRequest, pm_Content = m\<rparr> =
           answer_of sample_env caller d \<lparr>pm_Type = QueryPathRequest, pm_Content = m\<rparr>"
    and "\<And>t m. e_arrival E t (p_next p) \<lparr>pm_Type = VerifyCoverRequest, pm_Content = m\<rparr> =
           answer_of sample_env caller v \<lparr>pm_Type = VerifyCoverRequest, pm_Content = m\<rparr>"
    and "paths d = [(5, p)]" and "p_uuid p = 5" and "p_cancelFunc p \<noteq> None" and "publicKey d = [7]"
    and "p_next p \<noteq> IS" and "getValue (covers v) ip \<noteq> None"
    and "publicKey s = [7]" and "privateKey s = [7]" and "paths s = []" and "clock s = 7"
  shows "\<exists>resp offers s1 half. QueryPath E ip s = Ret (Inr resp, offers, s1) \<and> clock s1 = 9 \<and>
     getValue (peerPublicKeys s1) ip = Some [7] \<and> getValue (halfOpenPath s1) 5 = Some half"
proof -
  have calm: "\<And>t l a. e_dial E t l a = None" "\<And>t c. e_write E t c = None"
    using assms(3) by (simp_all add: undisturbed_def)
  obtain w s0 where w: "sendQueryPathRequest E ip s = (Inr \<lparr>qresp_ParentPublicKey = [7], qresp_Paths = [w]\<rparr>, s0)"
    "same_node s s0" "clock s0 = 8" "DecryptUUID sample_lib (path_EncryptedTreeUUID w) [7] = Inr 5" "path_NextHopIP w = p_next p"
    using sample_asks [OF assms(1,2) calm assms(4,6,7,9,12,8)] assms(15) by auto
  let ?s2 = "s0\<lparr>peerPublicKeys := setValue (peerPublicKeys s0) ip [7]\<rparr>"
  let ?half = "offer_of ip 5 w"
  obtain b u where ver: "verify_half_open E ?half ?s2 = (b, u)"
    by fastforce
  have hops: "p_next ?half = ip" "p_next2 ?half = p_next p"
    using w(5) by (simp_all add: offer_of_def)
  have b: "b"
    using verify_half_open_yes [of E sample_env ?half caller v ?s2] ver hops assms(2,3,5,11)
    by (simp add: undisturbed_sample field_gob_correct)
  have "clock u = 9"
    using verify_ticks [OF assms(3), of ?half ?s2] ver w(3) hops assms(10) by simp
  have u: "peerPublicKeys u = setValue (peerPublicKeys s0) ip [7]"
    using same_node_fields(6) [OF conjunct1 [OF verify_half_open_same [OF ver]]] by simp
  have "privateKey s0 = [7]" "paths s0 = []"
    using w(2) assms(13,14) by (simp_all add: same_node_fields)
  then have "QueryPath E ip s = Ret (Inr \<lparr>qresp_ParentPublicKey = [7], qresp_Paths = [w]\<rparr>, [?half],
      u\<lparr>halfOpenPath := setValue (halfOpenPath u) 5 ?half\<rparr>)"
    using w(1,4) ver b assms(1)
    by (simp add: QueryPath_def QueryPath_step_def Let_def getValue_def offer_of_def)
  then show ?thesis
    using \<open>clock u = 9\<close> u by (intro exI conjI) (assumption, simp_all)
qed

lemma orphan_queries:
  "\<exists>resp offers s1 half. QueryPath orphan_env ''10.0.0.8'' orphan = Ret (Inr resp, offers, s1) \<and> clock s1 = 9 \<and>
     getValue (peerPublicKeys s1) ''10.0.0.8'' = Some [7] \<and> getValue (halfOpenPath s1) 5 = Some half"
  by (rule sample_queries [where d = descendant and v = orphan and
        p = "relay_path\<lparr>p_next := ''10.0.0.2'', p_next2 := ''10.0.0.9''\<rparr>"])
    (simp_all add: undisturbed_sample descendant_def orphan_def relay_path_def IS_def getValue_def)

theorem descendant_becomes_parent_witness:
  "\<exists>s1 resp s2 d'. ConnectPath orphan_env ''10.0.0.8'' 5 s1 = Ret ((Some resp, None), s2) \<and>
     (\<forall>N. N ''10.0.0.2'' = s2 \<and> N ''10.0.0.8'' = d' \<longrightarrow> (''10.0.0.2'', ''10.0.0.2'') \<in> (leads N 5)\<^sup>+)"
proof -
  obtain qresp offers s1 half where query: "QueryPath orphan_env ''10.0.0.8'' orphan = Ret (Inr qresp, offers, s1)"
    "clock s1 = 9" "getValue (peerPublicKeys s1) ''10.0.0.8'' = Some [7]" "getValue (halfOpenPath s1) 5 = Some half"
    using orphan_queries by blast
  have d: "getValue (paths descendant) 5 = Some (relay_path\<lparr>p_next := ''10.0.0.2'', p_next2 := ''10.0.0.9''\<rparr>)"
    "covers descendant = []" "privateKey descendant = [7]"
    by (simp_all add: descendant_def getValue_def)
  obtain resp s2 where con: "ConnectPath orphan_env ''10.0.0.8'' 5 s1 = Ret ((Some resp, None), s2)" "cresp_Accepted resp"
    using sample_connects [of orphan_env "''10.0.0.8''" descendant _ s1 half, OF _ _ _ _ _ d query(2-4)]
    by auto
  have ok: "caches_ok orphan" "paths_ok (paths descendant)" "seals_for sample_lib [7]"
    by (auto simp: caches_ok_def half_ok_def orphan_def wf_map_def getValue_def seals_for_def paths_ok_def descendant_def
        relay_path_def split: if_splits)
  have "getValue (paths orphan) 5 = None" "getValue (covers orphan) ''10.0.0.8'' \<noteq> None"
    by (simp_all add: orphan_def getValue_def)
  moreover have "p_next (relay_path\<lparr>p_next := ''10.0.0.2'', p_next2 := ''10.0.0.9''\<rparr>) = ''10.0.0.2''"
    "publicKey orphan = [7]" "privateKey orphan = [7]"
    by (simp_all add: orphan_def)
  ultimately have "\<exists>d'. \<forall>N. N ''10.0.0.2'' = s2 \<and> N ''10.0.0.8'' = d' \<longrightarrow> (''10.0.0.2'', ''10.0.0.2'') \<in> (leads N 5)\<^sup>+"
    using descendant_becomes_parent [of orphan_env sample_env orphan 5 "''10.0.0.8''" descendant _ "''10.0.0.2''" caller caller,
      OF _ _ _ undisturbed_sample(2,1) _ _ _ ok(1) _ _ ok(2) d(1) _ _ _ _ query(1) con] ok(3)
    by (simp add: field_gob_correct sample_lib_laws) blast
  with con(1) show ?thesis
    by blast
qed

section \<open>Rings that nobody notices\<close>

text \<open>Nodes whose paths on one tree lead round in a circle, each with an accurate record of the next node's path.\<close>

definition closed_ring :: "network \<Rightarrow> uuid \<Rightarrow> (string \<Rightarrow> PathProfile) \<Rightarrow> string set \<Rightarrow> bool" where
  "closed_ring N u P C \<longleftrightarrow>
     (\<forall>a \<in> C. getValue (paths (N a)) u = Some (P a) \<and> p_next (P a) \<in> C \<and> p_next (P a) \<noteq> IS \<and>
        p_next2 (P a) = p_next (P (p_next (P a))) \<and> p_proxyPublic (P a) = p_proxyPublic (P (p_next (P a))))"

text \<open>
  Property C17: the health check never notices such a ring, whatever its length.  Every node of it, asking its next hop,
  which answers with its own handler, finds its path in order and reports nothing, although the next hops lead
  from some node of the ring back to that node and to no storage.
\<close>

theorem ring_passes_health_check:
  assumes "gob_correct G" and "uuid_lib_correct L" and "closed_ring N u P C"
    and "\<forall>a \<in> C. e_gob (E a) = G \<and> e_lib (E a) = L \<and> e_gob (F a) = G \<and> e_lib (F a) = L \<and> paths_ok (paths (N a)) \<and>
           ecc_pair L (publicKey (N a)) (privateKey (N a)) \<and> seals_for L (publicKey (N a))"
    and "\<forall>a \<in> C. \<forall>t m. e_arrival (E a) t (p_next (P a)) \<lparr>pm_Type = QueryPathRequest, pm_Content = m\<rparr> =
           answer_of (F (p_next (P a))) (c a) (N (p_next (P a))) \<lparr>pm_Type = QueryPathRequest, pm_Content = m\<rparr>"
    and "\<forall>a \<in> C. \<exists>resp s'. sendQueryPathRequest (E a) (p_next (P a)) (N a) = (Inr resp, s')"
    and "finite C" and "C \<noteq> {}"
  shows "(\<forall>a \<in> C. fst (invalid_step (E a) u (P a) ([], N a)) = []) \<and> (\<exists>a \<in> C. (a, a) \<in> (leads N u)\<^sup>+)"
proof
  show "\<forall>a \<in> C. fst (invalid_step (E a) u (P a) ([], N a)) = []"
  proof
    fix a
    assume a: "a \<in> C"
    let ?b = "p_next (P a)"
    have ring: "getValue (paths (N ?b)) u = Some (P ?b)" "?b \<in> C" "?b \<noteq> IS"
      "p_next2 (P a) = p_next (P ?b)" "p_proxyPublic (P a) = p_proxyPublic (P ?b)"
      using assms(3) a by (auto simp: closed_ring_def)
    obtain resp s' where send: "sendQueryPathRequest (E a) ?b (N a) = (Inr resp, s')"
      using assms(6) a by blast
    have "\<exists>verdict. invalid_step (E a) u (P a) ([], N a) = ([] @ verdict, s') \<and>
      (case getValue (paths (N ?b)) u of
         None \<Rightarrow> verdict = [clean_report (P a)]
       | Some path \<Rightarrow>
           if p_next2 (P a) = p_next path \<and> p_proxyPublic (P a) = p_proxyPublic path then verdict = []
           else \<exists>q. verdict = [\<lparr>i_SelfProfile = P a, i_NextHopProfile = q, i_HandleType = FIX\<rparr>] \<and>
                  path_NextHopIP q = p_next path \<and> path_ProxyPublicKey q = p_proxyPublic path)"
      by (rule health_verdict [where E' = "F ?b" and c = "c a"]) (use assms a ring send in simp_all)
    with ring show "fst (invalid_step (E a) u (P a) ([], N a)) = []"
      by auto
  qed
  let ?R = "leads N u \<inter> C \<times> C"
  obtain a where a: "a \<in> C"
    using assms(8) by blast
  have hop: "(x, p_next (P x)) \<in> ?R" if "x \<in> C" for x
    using assms(3) that by (auto simp: closed_ring_def leads_def view_def)
  have "finite ?R"
    using assms(7) by (blast intro: finite_subset [OF Int_lower2] finite_cartesian_product)
  moreover have "\<exists>y. (x, y) \<in> ?R" if "(a, x) \<in> ?R\<^sup>*" for x
  proof -
    from that have "x \<in> C"
      using a by (cases rule: rtranclE) blast+
    with hop show ?thesis
      by blast
  qed
  ultimately obtain x where "(x, x) \<in> ?R\<^sup>+"
    using finite_cycle [of ?R a] by blast
  have "x \<in> C"
    using \<open>(x, x) \<in> ?R\<^sup>+\<close> by (meson IntD2 SigmaD1 tranclD)
  moreover have "(x, x) \<in> (leads N u)\<^sup>+"
    using \<open>(x, x) \<in> ?R\<^sup>+\<close> Int_lower1 by (rule trancl_mono)
  ultimately show "\<exists>a \<in> C. (a, a) \<in> (leads N u)\<^sup>+"
    by blast
qed

definition ring_hop :: "string \<Rightarrow> string" where
  "ring_hop a = (if a = ''10.0.0.2'' then ''10.0.0.8'' else ''10.0.0.2'')"

definition ring_path :: "string \<Rightarrow> PathProfile" where
  "ring_path a = relay_path\<lparr>p_next := ring_hop a, p_next2 := a\<rparr>"

definition ring_net :: network where
  "ring_net a = node0\<lparr>paths := [(5, ring_path a)]\<rparr>"

definition ring_env :: env where
  "ring_env = sample_env\<lparr>e_arrival := \<lambda>t ip m. answer_of sample_env caller (ring_net ip) m\<rparr>"

lemma ring_env_fields [simp]:
  "e_lib ring_env = sample_lib" "e_gob ring_env = field_gob" "e_dial ring_env t l a = None" "e_write ring_env t c = None"
  "e_arrival ring_env t ip m = answer_of sample_env caller (ring_net ip) m"
  by (simp_all add: ring_env_def)

theorem ring_passes_health_check_witness:
  "fst (invalid_step ring_env 5 (ring_path ''10.0.0.2'') ([], ring_net ''10.0.0.2'')) = [] \<and>
   fst (invalid_step ring_env 5 (ring_path ''10.0.0.8'') ([], ring_net ''10.0.0.8'')) = [] \<and>
   (\<exists>a. (a, a) \<in> (leads ring_net 5)\<^sup>+)"
proof -
  have "(\<forall>a \<in> {''10.0.0.2'', ''10.0.0.8''}. fst (invalid_step ring_env 5 (ring_path a) ([], ring_net a)) = []) \<and>
    (\<exists>a \<in> {''10.0.0.2'', ''10.0.0.8''}. (a, a) \<in> (leads ring_net 5)\<^sup>+)"
  proof (rule ring_passes_health_check [where F = "\<lambda>a. sample_env" and c = "\<lambda>a. caller"])
    show "gob_correct field_gob" "uuid_lib_correct sample_lib"
      by (simp_all add: field_gob_correct sample_lib_laws)
    show "closed_ring ring_net 5 ring_path {''10.0.0.2'', ''10.0.0.8''}"
      by (simp add: closed_ring_def ring_net_def ring_path_def ring_hop_def getValue_def IS_def)
    show "\<forall>a \<in> {''10.0.0.2'', ''10.0.0.8''}. e_gob ring_env = field_gob \<and> e_lib ring_env = sample_lib \<and>
        e_gob sample_env = field_gob \<and> e_lib sample_env = sample_lib \<and> paths_ok (paths (ring_net a)) \<and>
        ecc_pair sample_lib (publicKey (ring_net a)) (privateKey (ring_net a)) \<and> seals_for sample_lib (publicKey (ring_net a))"
      by (auto simp: sample_lib_laws paths_ok_def wf_map_def getValue_def ring_net_def ring_path_def relay_path_def
          seals_for_def split: if_splits)
    show "\<forall>a \<in> {''10.0.0.2'', ''10.0.0.8''}. \<exists>resp s'. sendQueryPathRequest ring_env (p_next (ring_path a)) (ring_net a) = (Inr resp, s')"
    proof
      fix a
      show "\<exists>resp s'. sendQueryPathRequest ring_env (p_next (ring_path a)) (ring_net a) = (Inr resp, s')"
        using sample_asks [of ring_env "p_next (ring_path a)" "ring_net (p_next (ring_path a))" "ring_path (p_next (ring_path a))"
            "ring_net a"]
        by (auto simp: ring_net_def) (auto simp: ring_path_def relay_path_def)
    qed
  qed simp_all
  then show ?thesis
    by blast
qed

end
