(* ===== verification/Founding.thy ===== *)
theory Founding
  imports Journey Loops
begin

text \<open>
  How trees come to carry messages: \<open>CreateProxy\<close> of one node against the handler of another founds a tree of two nodes, and
  \<open>QueryPath\<close> followed by \<open>ConnectPath\<close> joins a node to a tree.  Both are composed with \<open>Publish\<close> and with the handlers
  on the way, so that no agreement on keys, identifiers or proxies is assumed: it follows from the requests.
\<close>

section \<open>The other node's answer\<close>

lemma handleMessage_proxy:
  assumes "gob_correct (e_gob E)" and "enc_CreateProxyReq (e_gob E) req = Inr m"
  shows "handleMessage E c \<lparr>pm_Type = CreateProxyRequest, pm_Content = m\<rparr> p = handleCreateProxyReq E (Some c) req p"
  using gob_decode(7) [OF assms] by (simp add: handleMessage_def message_types)

text \<open>An accepting answer describes the path and the cover entry that the proxy has made.\<close>

lemma proxy_accepted_cover:
  assumes "handleCreateProxyReq E (Some c) req p = Ret (None, p')"
    and "map snd (drop (length (responses p)) (responses p')) = [RespCreateProxy r]" and "xresp_Accepted r"
  obtains ip port b k t tree ctx cover where "SplitHostPort (in_remote c) = Inr (ip, port)"
    "GenerateReturn (xreq_CoverKeyExchange req) b = Ret (xresp_ProxyKeyExchange r)"
    "GetSymKey (xreq_CoverKeyExchange req) b = Ret k"
    "EncryptUUID (e_lib E) t tree (xreq_CoverPublicKey req) = Inr (xresp_EncryptedTreeUUID r)"
    "xresp_ProxyPublicKey r = publicKey p"
    "cover = \<lparr>c_cover = ip, c_secretKey = k, c_treeUUID = tree, c_cancelFunc = Some ctx\<rparr>"
    "paths p' = setValue (paths p) tree (self_proxy_path tree (publicKey p) k)"
    "covers p' = setValue (covers p) ip cover"
    "HandleApplicationMessageWorker ctx (in_conn c) cover (self_proxy_path tree (publicKey p) k) \<in> set (tasks p')"
proof -
  obtain ip port where ip: "SplitHostPort (in_remote c) = Inr (ip, port)"
    using assms(1) by (auto simp: handleCreateProxyReq_def split: sum.splits)
  note run = assms(1) [unfolded handleCreateProxyReq_cases [OF ip]]
  show ?thesis
  proof (cases "getValue (covers p) ip = None \<and> \<not> tooManyCovers E p \<and> \<not> isProxyAlready E p")
    case False
    with run have "responses p' = responses p @ [(in_conn c, RespCreateProxy reject_proxy)]"
      by (auto simp: write_response_def close_conn_def tick_def split: option.splits prod.splits if_splits)
    with assms(2,3) show ?thesis
      by (auto simp: reject_proxy_def)
  next
    case True
    with run have "accept_proxy E c ip req p = Ret (None, p')"
      by (simp split: if_splits)
    then show ?thesis
      by (rule accept_proxy_accepted) (rule that [OF ip], use assms(2) in auto)
  qed
qed

text \<open>The requester's side.\<close>

lemma sendCreateProxy_arrived:
  assumes "sendCreateProxyRequest E ip info s = (Inr (resp, tc), s')"
  obtains t m bs where
    "enc_CreateProxyReq (e_gob E) \<lparr>xreq_CoverPublicKey = publicKey s, xreq_CoverKeyExchange = info\<rparr> = Inr m"
    "e_arrival E t ip \<lparr>pm_Type = CreateProxyRequest, pm_Content = m\<rparr> = Arrived bs"
    "dec_CreateProxyResp (e_gob E) bs = Inr resp"
  using assms by (auto simp: sendCreateProxyRequest_def split: sum.splits elim!: tcpSend_arrived intro: that)

lemma CreateProxy_accepted:
  assumes "CreateProxy E ip s = Ret ((Some resp, None), s')" and "xresp_Accepted resp"
  obtains secret info s1 tc s2 tree path ctx where "offered_with info secret" "publicKey s1 = publicKey s"
    "sendCreateProxyRequest E ip info s1 = (Inr (resp, tc), s2)"
    "DecryptUUID (e_lib E) (xresp_EncryptedTreeUUID resp) (privateKey s) = Inr tree"
    "GetSymKey (xresp_ProxyKeyExchange resp) secret = Ret (p_symKey path)"
    "p_uuid path = tree" "p_next path = ip" "p_next2 path = IS" "p_proxyPublic path = xresp_ProxyPublicKey resp"
    "paths s' = setValue (paths s) tree path" "openConnections s' = setValue (openConnections s) tree tc"
    "SendCoverMessageWorker ctx tc path \<in> set (tasks s')"
proof -
  obtain secret info s1 where ex: "open_exchange E s = Ret (secret, info, s1)"
    using assms(1) by (auto simp: CreateProxy_def elim!: obind_RetE)
  then have off: "offered_with info secret"
    by (auto simp: open_exchange_def Let_def elim!: obind_RetE dest: NewKeyExchange_offered)
  have s1: "same_node s s1"
    using open_exchange_same [OF ex] by simp
  obtain r s2 where send: "sendCreateProxyRequest E ip info s1 = (r, s2)"
    by fastforce
  have s2: "same_node s s2"
    using s1 send_same(3) [of s1 E ip info] send by (auto intro: same_node_trans)
  obtain tc where r: "r = Inr (resp, tc)"
    using assms(1) ex send by (cases r) (auto simp: CreateProxy_def split: if_splits sum.splits elim!: obind_RetE)
  obtain tree where tree: "DecryptUUID (e_lib E) (xresp_EncryptedTreeUUID resp) (privateKey s2) = Inr tree"
    using assms ex send r by (cases "DecryptUUID (e_lib E) (xresp_EncryptedTreeUUID resp) (privateKey s2)")
      (auto simp: CreateProxy_def)
  obtain k where k: "GetSymKey (xresp_ProxyKeyExchange resp) secret = Ret k"
    using assms ex send r tree by (auto simp: CreateProxy_def elim!: obind_RetE)
  let ?path = "\<lparr>p_uuid = tree, p_next = ip, p_next2 = IS, p_proxyPublic = xresp_ProxyPublicKey resp, p_symKey = k,
      p_successCount = 0, p_failureCount = 0, p_cancelFunc = Some (clock s2)\<rparr>"
  have s': "s' = install_path (?path\<lparr>p_cancelFunc := None\<rparr>) tc tree s2"
    using assms ex send r tree k by (simp add: CreateProxy_def)
  show ?thesis
    by (rule that [of info secret s1 tc s2 tree ?path "clock s2"])
      (use off s1 s2 send r tree k in
        \<open>simp_all add: s' install_path_def Let_def spawn_def tick_def same_node_fields\<close>)
qed

section \<open>A tree of two nodes\<close>

text \<open>
  Two ends of a link on a tree: the path at one end and the entry of the other end's cover table have the same key and tree,
  and both workers run, the receiving one forwarding on \<open>fwd\<close>.
\<close>

definition linked_ends :: "uuid \<Rightarrow> PathProfile \<Rightarrow> state \<Rightarrow> conn \<Rightarrow> CoverNodeProfile \<Rightarrow> PathProfile \<Rightarrow> state \<Rightarrow> bool" where
  "linked_ends tree path s conn cover fwd p \<longleftrightarrow>
     getValue (paths s) tree = Some path \<and> p_uuid path = tree \<and> c_treeUUID cover = tree \<and>
     p_symKey path = c_secretKey cover \<and> getValue (covers p) (c_cover cover) = Some cover \<and>
     getValue (paths p) tree = Some fwd \<and>
     (\<exists>ctx tc. SendCoverMessageWorker ctx tc path \<in> set (tasks s) \<and> getValue (openConnections s) tree = Some tc) \<and>
     (\<exists>ctx. HandleApplicationMessageWorker ctx conn cover fwd \<in> set (tasks p))"

lemma tree_founded:
  assumes "gob_correct (e_gob E)" and "e_gob E' = e_gob E" and "e_lib E' = e_lib E"
    and "ecc_pair (e_lib E) (publicKey s) (privateKey s)" and "uuid_lib_correct (e_lib E)"
    and "\<forall>t m. e_arrival E t ip \<lparr>pm_Type = CreateProxyRequest, pm_Content = m\<rparr> =
           answer_of E' c p \<lparr>pm_Type = CreateProxyRequest, pm_Content = m\<rparr>"
    and "CreateProxy E ip s = Ret ((Some resp, None), s')" and "xresp_Accepted resp"
  obtains m p' tree path cover fwd port where
    "handleMessage E' c \<lparr>pm_Type = CreateProxyRequest, pm_Content = m\<rparr> p = Ret (None, p')"
    "SplitHostPort (in_remote c) = Inr (c_cover cover, port)"
    "linked_ends tree path s' (in_conn c) cover fwd p'"
    "p_next path = ip" "p_next2 path = IS" "p_proxyPublic path = publicKey p" "p_next fwd = IS"
proof -
  obtain secret info s1 tc s2 tree path ctx where req: "offered_with info secret" "publicKey s1 = publicKey s"
    "sendCreateProxyRequest E ip info s1 = (Inr (resp, tc), s2)"
    "DecryptUUID (e_lib E) (xresp_EncryptedTreeUUID resp) (privateKey s) = Inr tree"
    "GetSymKey (xresp_ProxyKeyExchange resp) secret = Ret (p_symKey path)"
    and path: "p_uuid path = tree" "p_next path = ip" "p_next2 path = IS" "p_proxyPublic path = xresp_ProxyPublicKey resp"
    "paths s' = setValue (paths s) tree path" "openConnections s' = setValue (openConnections s) tree tc"
    "SendCoverMessageWorker ctx tc path \<in> set (tasks s')"
    by (rule CreateProxy_accepted [OF assms(7,8)])
  let ?req = "\<lparr>xreq_CoverPublicKey = publicKey s1, xreq_CoverKeyExchange = info\<rparr>"
  obtain t m bs where msg: "enc_CreateProxyReq (e_gob E') ?req = Inr m"
    "e_arrival E t ip \<lparr>pm_Type = CreateProxyRequest, pm_Content = m\<rparr> = Arrived bs"
    "dec_CreateProxyResp (e_gob E') bs = Inr resp"
    using sendCreateProxy_arrived [OF req(3)] assms(2) by metis
  have G: "gob_correct (e_gob E')"
    using assms(1,2) by simp
  have req_m: "dec_CreateProxyReq (e_gob E') m = Inr ?req"
    by (rule gob_decode(7) [OF G msg(1)])
  have "answer_of E' c p \<lparr>pm_Type = CreateProxyRequest, pm_Content = m\<rparr> = Arrived bs"
    using msg(2) assms(6) by simp
  then obtain p' r where run: "handleCreateProxyReq E' (Some c) ?req p = Ret (None, p')"
    "responses p' = responses p @ [(in_conn c, RespCreateProxy r)]" "enc_CreateProxyResp (e_gob E') r = Inr bs"
    using req_m by (elim answered_proxy) simp
  have ans: "handleMessage E' c \<lparr>pm_Type = CreateProxyRequest, pm_Content = m\<rparr> p = Ret (None, p')"
    "map snd (drop (length (responses p)) (responses p')) = [RespCreateProxy r]"
    "enc_CreateProxyResp (e_gob E') r = Inr bs"
    using run handleMessage_proxy [OF G msg(1)] by simp_all
  have r: "r = resp"
    using gob_decode(8) [OF G ans(3)] msg(3) by simp
  note hdl = ans(1) [unfolded handleMessage_proxy [OF G msg(1)]]
  show ?thesis
  proof (rule proxy_accepted_cover [OF hdl ans(2)])
    show "xresp_Accepted r"
      using r assms(8) by simp
  next
    fix ip' port b k u tree' ctx' cover
    assume side: "SplitHostPort (in_remote c) = Inr (ip', port)"
      "GenerateReturn (xreq_CoverKeyExchange ?req) b = Ret (xresp_ProxyKeyExchange r)"
      "GetSymKey (xreq_CoverKeyExchange ?req) b = Ret k"
      "EncryptUUID (e_lib E') u tree' (xreq_CoverPublicKey ?req) = Inr (xresp_EncryptedTreeUUID r)"
      "xresp_ProxyPublicKey r = publicKey p"
      "cover = \<lparr>c_cover = ip', c_secretKey = k, c_treeUUID = tree', c_cancelFunc = Some ctx'\<rparr>"
      "paths p' = setValue (paths p) tree' (self_proxy_path tree' (publicKey p) k)"
      "covers p' = setValue (covers p) ip' cover"
      "HandleApplicationMessageWorker ctx' (in_conn c) cover (self_proxy_path tree' (publicKey p) k) \<in> set (tasks p')"
    have "p_symKey path = k"
      using dh.derive_agrees [OF req(1), of b "xresp_ProxyKeyExchange r"] side(2,3) req(5) r by simp
    moreover have "tree' = tree"
      using uuid_open [OF assms(4,5), of u tree'] side(4) req(2,4) r assms(3) by simp
    ultimately have "linked_ends tree path s' (in_conn c) cover (self_proxy_path tree (publicKey p) k) p'"
      using side path unfolding linked_ends_def by auto
    with ans(1) side(1,5,6) path r show ?thesis
      by (intro that [of m p' cover port tree path "self_proxy_path tree (publicKey p) k"]) (simp_all add: self_proxy_path_def)
  qed
qed

text \<open>The end of a link as a node of a chain.\<close>

definition hop_at :: "env \<Rightarrow> CoverNodeProfile \<Rightarrow> PathProfile \<Rightarrow> state \<Rightarrow> hop" where
  "hop_at E cover fwd q = \<lparr>h_env = E, h_cover = cover, h_fwd = fwd, h_state = q\<rparr>"

text \<open>The same path, whatever has been counted on it since.\<close>

definition same_path :: "PathProfile \<Rightarrow> PathProfile \<Rightarrow> bool" where
  "same_path p p' \<longleftrightarrow> p_uuid p' = p_uuid p \<and> p_next p' = p_next p \<and> p_proxyPublic p' = p_proxyPublic p \<and> p_symKey p' = p_symKey p"

text \<open>A message published on a stored path of the node goes to every chain that is linked with that path.\<close>

lemma published_into_chain:
  assumes "gob_correct (e_gob E)" and "gcm_correct (e_lib E)" and "wf_map (paths s)"
    and "getValue (paths s) tree = Some path'" and "same_path path path'" and "tree \<noteq> uuid_Nil" and "p_next path \<noteq> IS"
    and "Publish E key m tree s = Ret (Inr jobID, s')"
    and "linked (e_lib E) (e_gob E) (p_proxyPublic path) key m (p_symKey path) hs"
  shows "\<exists>conn am ss. usable (getValue (openConnections s) tree) = Some conn \<and> sent s' = sent s @ [(conn, am)] \<and>
    relay hs am = Ret ss \<and> delivered key m hs ss"
proof -
  obtain k p where "getValue (paths s) k = Some p" "tree \<noteq> uuid_Nil \<longrightarrow> k = tree" and c: "carried E key m k p s s'"
    using assms(3,8) by (rule Publish_sound)
  then have "k = tree" "p = path'"
    using assms(4,6) by auto
  with carried_on_its_way [OF assms(1,2) c] assms(5,7,9) show ?thesis
    unfolding on_its_way_def same_path_def by metis
qed


section \<open>Joining a tree\<close>

text \<open>What a query has left in the caches comes from the answer.\<close>

lemma half_from_query:
  assumes "QueryPath E ip s = Ret (Inr resp, offers, s')" and "getValue (halfOpenPath s) u = None"
    and "getValue (halfOpenPath s') u = Some h"
  shows "\<exists>w \<in> set (qresp_Paths resp). DecryptUUID (e_lib E) (path_EncryptedTreeUUID w) (privateKey s) = Inr u \<and>
    p_uuid h = u \<and> p_next h = ip \<and> p_next2 h = path_NextHopIP w \<and> p_proxyPublic h = path_ProxyPublicKey w"
proof -
  obtain s1 where send: "sendQueryPathRequest E ip s = (Inr resp, s1)"
    using assms(1) by (auto simp: QueryPath_def Let_def split: prod.splits sum.splits)
  let ?s2 = "s1\<lparr>peerPublicKeys := setValue (peerPublicKeys s1) ip (qresp_ParentPublicKey resp)\<rparr>"
  let ?from = "\<lambda>h. \<exists>w \<in> set (qresp_Paths resp). DecryptUUID (e_lib E) (path_EncryptedTreeUUID w) (privateKey s) = Inr u \<and>
    p_uuid h = u \<and> p_next h = ip \<and> p_next2 h = path_NextHopIP w \<and> p_proxyPublic h = path_ProxyPublicKey w"
  let ?I = "\<lambda>acc :: PathProfile list \<times> state. privateKey (snd acc) = privateKey s \<and>
    (\<forall>h. getValue (halfOpenPath (snd acc)) u = Some h \<longrightarrow> ?from h)"
  have s1: "same_node s s1"
    using send_same(1) [of s E ip] send by simp
  have "?I (fold (QueryPath_step E ip) (qresp_Paths resp) ([], ?s2))"
  proof (rule fold_invariant_on [where I = ?I])
    fix x acc
    assume x: "x \<in> set (qresp_Paths resp)" and I: "?I acc"
    obtain v t where acc: "acc = (v, t)"
      by (cases acc)
    have keep: "privateKey t' = privateKey t \<and> halfOpenPath t' = halfOpenPath t" if "verify_half_open E g t = (b, t')" for g b t'
      using verify_half_open_same [OF that] by (simp add: same_node_fields)
    show "?I (QueryPath_step E ip x acc)"
      using x I acc
      by (auto simp: QueryPath_step_def Let_def mm.get_put split: prod.splits sum.splits option.splits if_splits dest!: keep)
  qed (use s1 assms(2) in \<open>simp add: same_node_fields\<close>)
  moreover have "fold (QueryPath_step E ip) (qresp_Paths resp) ([], ?s2) = (offers, s')"
    using assms(1) send by (auto simp: QueryPath_def Let_def split: prod.splits)
  ultimately show ?thesis
    using assms(3) by simp
qed

text \<open>
  A node that asks another for its paths and connects to one of them, both answers given by the other node's own handlers,
  ends up with a link to it on that tree, and with the tree's proxy key as the other node has it.
\<close>

lemma tree_joined:
  assumes "gob_correct (e_gob E)" and "e_gob E' = e_gob E" and "e_lib E' = e_lib E"
    and "ecc_pair (e_lib E) (publicKey s) (privateKey s)" and "uuid_lib_correct (e_lib E)"
    and "seals_for (e_lib E) (publicKey s)" and "ecc_pair (e_lib E) (publicKey d) (privateKey d)"
    and "paths_ok (paths d)" and "getValue (halfOpenPath s) u = None"
    and "\<forall>t m. e_arrival E t ip \<lparr>pm_Type = QueryPathRequest, pm_Content = m\<rparr> =
           answer_of E' c d \<lparr>pm_Type = QueryPathRequest, pm_Content = m\<rparr>"
    and "\<forall>t m. e_arrival E t ip \<lparr>pm_Type = ConnectPathRequest, pm_Content = m\<rparr> =
           answer_of E' c d \<lparr>pm_Type = ConnectPathRequest, pm_Content = m\<rparr>"
    and "QueryPath E ip s = Ret (Inr qresp, offers, s1)" and "getValue (halfOpenPath s1) u \<noteq> None"
    and "ConnectPath E ip u s1 = Ret ((Some resp, None), s2)" and "cresp_Accepted resp"
  obtains m d' path cover fwd port where
    "handleMessage E' c \<lparr>pm_Type = ConnectPathRequest, pm_Content = m\<rparr> d = Ret (None, d')"
    "SplitHostPort (in_remote c) = Inr (c_cover cover, port)"
    "linked_ends u path s2 (in_conn c) cover fwd d'"
    "p_next path = ip" "p_next2 path = p_next fwd" "p_proxyPublic path = p_proxyPublic fwd"
proof -
  obtain s0 where send: "sendQueryPathRequest E ip s = (Inr qresp, s0)"
    using assms(12) by (auto simp: QueryPath_def Let_def split: prod.splits sum.splits)
  have wf: "wf_map (paths d)"
    using assms(8) by (simp add: paths_ok_def)
  note answer = queried_answer [OF assms(1-6,8,10) send]
  obtain h where h: "getValue (halfOpenPath s1) u = Some h"
    using assms(13) by blast
  obtain w where w: "w \<in> set (qresp_Paths qresp)" "DecryptUUID (e_lib E) (path_EncryptedTreeUUID w) (privateKey s) = Inr u"
    "p_uuid h = u" "p_next h = ip" "p_next2 h = path_NextHopIP w" "p_proxyPublic h = path_ProxyPublicKey w"
    using half_from_query [OF assms(12,9) h] by blast
  have "understood (e_lib E) (privateKey s) w \<in> set (map told (range_entries (e_order_uuid E' (clock d)) (paths d)))"
    using answer w(1) by (metis image_eqI set_map)
  then obtain q where q: "getValue (paths d) u = Some q" "p_next2 h = p_next q" "p_proxyPublic h = p_proxyPublic q"
    using w by (auto simp: understood_def told_def mm.entries_mem [OF wf])
  have key: "getValue (peerPublicKeys s1) ip = Some (publicKey d)"
    using QueryPath_learns_key [OF assms(12)] answer by auto
  then have known: "getValue (peerPublicKeys s1) ip \<noteq> None"
    by simp
  obtain p where p: "follows_offer h p" "paths s2 = setValue (paths s1) u p"
    by (rule ConnectPath_cached [OF assms(14,15) known h])
  obtain m d' path tc ctx cover port fwd s3 v enc where link:
    "handleMessage E' c \<lparr>pm_Type = ConnectPathRequest, pm_Content = m\<rparr> d = Ret (None, d')"
    "SplitHostPort (in_remote c) = Inr (c_cover cover, port)" "getValue (paths s2) u = Some path"
    "getValue (covers d') (c_cover cover) = Some cover" "p_symKey path = c_secretKey cover"
    "SendCoverMessageWorker ctx tc path \<in> set (tasks s2)" "getValue (openConnections s2) u = Some tc"
    "getValue (paths d) (c_treeUUID cover) = Some fwd"
    "\<exists>ctx. HandleApplicationMessageWorker ctx (in_conn c) cover fwd \<in> set (tasks d')"
    and sealed: "same_node s1 s3" "learn_peer E ip u s3 = Ret (None, v)"
    "EncryptUUID (e_lib E) (clock v) u (case getValue (peerPublicKeys v) ip of None \<Rightarrow> [] | Some k \<Rightarrow> k) = Inr enc"
    "DecryptUUID (e_lib E') enc (privateKey d) = Inr (c_treeUUID cover)"
    by (rule link_sealed [OF assms(1,2,11,14,15)])
  have "v = s3"
    using sealed(1,2) known assms(13) by (simp add: learn_peer_def same_node_fields)
  then have tree: "c_treeUUID cover = u"
    using uuid_open [OF assms(7,5)] sealed key assms(3) by (simp add: same_node_fields)
  have path: "path = p"
    using link(3) p(2) by simp
  have "linked_ends u path s2 (in_conn c) cover fwd d'"
    using link tree path p(1) w(3) handleMessage_connect_paths [OF link(1)]
    by (auto simp: linked_ends_def follows_offer_def)
  moreover have "fwd = q"
    using link(8) tree q(1) by simp
  ultimately show ?thesis
    using link(1,2) path p(1) w(4) q(2,3) by (intro that [of m d' cover port path fwd]) (simp_all add: follows_offer_def)
qed


section \<open>Concrete trees\<close>

definition founder :: state where
  "founder = node0\<lparr>clock := 9\<rparr>"

definition founder_env :: env where
  "founder_env = sample_env\<lparr>e_arrival := \<lambda>t ip m. answer_of sample_env caller node0 m\<rparr>"

definition sample_grant :: CreateProxyResp where
  "sample_grant = \<lparr>xresp_Accepted = True, xresp_ProxyKeyExchange = half_exchange, xresp_ProxyPublicKey = [7],
     xresp_EncryptedTreeUUID = frame [7] @ uuid_bytes 10\<rparr>"

lemma sample_proxy_answer:
  assumes "enc_CreateProxyReq field_gob \<lparr>xreq_CoverPublicKey = [7], xreq_CoverKeyExchange = half_exchange\<rparr> = Inr m"
    and "enc_CreateProxyResp field_gob sample_grant = Inr bs"
  shows "answer_of sample_env caller node0 \<lparr>pm_Type = CreateProxyRequest, pm_Content = m\<rparr> = Arrived bs"
proof -
  have "handleMessage sample_env caller \<lparr>pm_Type = CreateProxyRequest, pm_Content = m\<rparr> node0 =
      handleCreateProxyReq sample_env (Some caller) \<lparr>xreq_CoverPublicKey = [7], xreq_CoverKeyExchange = half_exchange\<rparr> node0"
    using handleMessage_proxy [of sample_env _ m caller node0] assms(1) by (simp add: field_gob_correct)
  moreover have "GenerateReturn half_exchange 1 = Ret half_exchange" "GetSymKey half_exchange 1 = Ret (2 ^ 255)"
    by (simp_all add: half_exchange_def GenerateReturn_def GetSymKey_def big_Exp_def)
  ultimately show ?thesis
    using assms(2)
    by (simp add: answer_of_def encoded_def handleCreateProxyReq_def getValue_def getSize_def tooManyCovers_def accept_proxy_def
        isProxyAlready_iff wf_map_def answer_exchange_def Let_def add_cover_def write_response_def tick_def spawn_def
        sample_grant_def)
qed

lemma sample_founds:
  assumes "enc_CreateProxyReq field_gob \<lparr>xreq_CoverPublicKey = [7], xreq_CoverKeyExchange = half_exchange\<rparr> = Inr m"
    and "\<And>t. arr t ''10.0.0.7'' \<lparr>pm_Type = CreateProxyRequest, pm_Content = m\<rparr> =
      answer_of sample_env caller node0 \<lparr>pm_Type = CreateProxyRequest, pm_Content = m\<rparr>"
  shows "\<exists>s' p. CreateProxy (sample_env\<lparr>e_arrival := arr\<rparr>) ''10.0.0.7'' founder = Ret ((Some sample_grant, None), s') \<and>
     paths s' = [(10, p)] \<and> p_symKey p = 2 ^ 255 \<and> p_next p = ''10.0.0.7'' \<and> p_proxyPublic p = [7] \<and>
     usable (getValue (openConnections s') 10) \<noteq> None"
proof -
  let ?E = "sample_env\<lparr>e_arrival := arr\<rparr>"
  obtain bs where bs: "enc_CreateProxyResp field_gob sample_grant = Inr bs"
    by (simp add: field_gob_def as_fields_def)
  have ex: "open_exchange ?E founder = Ret (1, half_exchange, founder\<lparr>clock := 12\<rparr>)"
    by (simp add: open_exchange_def founder_def NewKeyExchange_eq half_exchange_def)
      (simp add: sample_lib_def big_Exp_def)
  have "DecryptUUID sample_lib (frame [7] @ uuid_bytes 10) [7] = Inr 10"
    by (rule uuid_open [of _ "[7]" _ 0]) (simp_all add: sample_lib_laws)
  moreover have "GetSymKey half_exchange 1 = Ret (2 ^ 255)"
    by (simp add: half_exchange_def GetSymKey_def big_Exp_def)
  ultimately show ?thesis
    using ex assms sample_proxy_answer [OF assms(1) bs] gob_decode(8) [OF field_gob_correct bs]
    by (simp add: CreateProxy_def sendCreateProxyRequest_def tcpSendAndWaitResponse_def waitForResponse_def Let_def tick_def
        founder_def sample_grant_def install_path_def spawn_def usable_def getValue_def setValue_def)
qed

lemma founder_founds:
  "\<exists>s' p. CreateProxy founder_env ''10.0.0.7'' founder = Ret ((Some sample_grant, None), s') \<and>
     paths s' = [(10, p)] \<and> p_symKey p = 2 ^ 255 \<and> usable (getValue (openConnections s') 10) \<noteq> None"
proof -
  obtain m where "enc_CreateProxyReq field_gob \<lparr>xreq_CoverPublicKey = [7], xreq_CoverKeyExchange = half_exchange\<rparr> = Inr m"
    by (simp add: field_gob_def as_fields_def)
  from sample_founds [OF this, of "\<lambda>t ip m. answer_of sample_env caller node0 m"] show ?thesis
    unfolding founder_env_def by blast
qed


text \<open>
  A node joins the tree 5 of the node at \<open>10.0.0.8\<close>, whose next hop at \<open>10.0.0.9\<close> is the proxy and vouches for it.
\<close>

definition parent :: state where
  "parent = node0\<lparr>paths := [(5, relay_path)],
     openConnections := [(5, \<lparr>tc_Conn = Some 4, tc_Encoder = Some 4, tc_IP = ''10.0.0.9''\<rparr>)]\<rparr>"

definition grandparent :: state where
  "grandparent = node0\<lparr>covers := [(''10.0.0.8'', sample_cover)]\<rparr>"

definition joiner :: state where
  "joiner = node0\<lparr>clock := 7\<rparr>"

definition joiner_env :: env where
  "joiner_env = sample_env\<lparr>e_arrival := \<lambda>t ip m.
     answer_of sample_env caller (if ip = ''10.0.0.8'' then parent else grandparent) m\<rparr>"

lemma joiner_env_fields [simp]:
  "e_lib joiner_env = sample_lib" "e_gob joiner_env = field_gob" "e_cfg joiner_env = sample_cfg"
  "e_write joiner_env t c = None" "e_dial joiner_env t l a = None" "e_ValidateKey joiner_env k v" "undisturbed joiner_env"
  "e_arrival joiner_env t ''10.0.0.8'' m = answer_of sample_env caller parent m"
  "e_arrival joiner_env t ''10.0.0.9'' m = answer_of sample_env caller grandparent m"
  by (simp_all add: joiner_env_def undisturbed_def field_gob_def as_fields_def)

lemma joiner_joins:
  "\<exists>qresp offers s1 resp s2 p. QueryPath joiner_env ''10.0.0.8'' joiner = Ret (Inr qresp, offers, s1) \<and>
     getValue (halfOpenPath s1) 5 \<noteq> None \<and>
     ConnectPath joiner_env ''10.0.0.8'' 5 s1 = Ret ((Some resp, None), s2) \<and> cresp_Accepted resp \<and>
     paths s2 = [(5, p)] \<and> p_symKey p = 2 ^ 255 \<and> usable (getValue (openConnections s2) 5) \<noteq> None"
proof -
  have "\<exists>resp offers s1 half. QueryPath joiner_env ''10.0.0.8'' joiner = Ret (Inr resp, offers, s1) \<and> clock s1 = 9 \<and>
      getValue (peerPublicKeys s1) ''10.0.0.8'' = Some [7] \<and> getValue (halfOpenPath s1) 5 = Some half"
    by (rule sample_queries [where d = parent and v = grandparent and p = relay_path])
      (simp_all add: parent_def grandparent_def joiner_def relay_path_def IS_def getValue_def)
  then obtain qresp offers s1 half where query: "QueryPath joiner_env ''10.0.0.8'' joiner = Ret (Inr qresp, offers, s1)"
    "clock s1 = 9" "getValue (peerPublicKeys s1) ''10.0.0.8'' = Some [7]" "getValue (halfOpenPath s1) 5 = Some half"
    by blast
  have ok: "caches_ok joiner"
    by (simp add: caches_ok_def half_ok_def joiner_def wf_map_def getValue_def)
  have "paths s1 = []"
    using QueryPath_ok [OF query(1) ok] by (simp add: same_but_caches_def joiner_def)
  moreover have "getValue (paths parent) 5 = Some relay_path" "covers parent = []" "privateKey parent = [7]"
    by (simp_all add: parent_def getValue_def)
  ultimately have "\<exists>resp s2 p. ConnectPath joiner_env ''10.0.0.8'' 5 s1 = Ret ((Some resp, None), s2) \<and> cresp_Accepted resp \<and>
      paths s2 = setValue [] 5 p \<and> p_symKey p = 2 ^ 255 \<and> usable (getValue (openConnections s2) 5) \<noteq> None"
    using sample_connection [of joiner_env "''10.0.0.8''" parent relay_path s1 half] query by simp
  with query show ?thesis
    by (fastforce simp: setValue_def)
qed


end
