(* ===== verification/Network.thy ===== *)
theory Network
  imports Founding
begin

text \<open>
  A network in which the requests that change tables involve two nodes at once: one runs \<open>ConnectPath\<close>, \<open>CreateProxy\<close> or
  \<open>MoveUp\<close>, the other answers with its own handler.  In every reachable network the two ends of a link have the same key, so
  that a published message reaches the storage of the proxy along any chain of links, with nothing assumed about keys.
\<close>

section \<open>What a requester gets from its peer\<close>

text \<open>The keys that come out of accepting answers to the two requests, as the peer \<open>ip\<close> gives them.\<close>

definition connect_granted :: "env \<Rightarrow> string \<Rightarrow> int \<Rightarrow> bool" where
  "connect_granted E ip k \<longleftrightarrow>
     (\<exists>secret info enc m t bs resp. offered_with info secret \<and>
        enc_ConnectPathReq (e_gob E) \<lparr>creq_EncryptedTreeUUID = enc, creq_CoverKeyExchange = info\<rparr> = Inr m \<and>
        e_arrival E t ip \<lparr>pm_Type = ConnectPathRequest, pm_Content = m\<rparr> = Arrived bs \<and>
        dec_ConnectPathResp (e_gob E) bs = Inr resp \<and> cresp_Accepted resp \<and>
        GetSymKey (cresp_ParentKeyExchange resp) secret = Ret k)"

definition proxy_granted :: "env \<Rightarrow> string \<Rightarrow> int \<Rightarrow> bool" where
  "proxy_granted E ip k \<longleftrightarrow>
     (\<exists>secret info pub m t bs resp. offered_with info secret \<and>
        enc_CreateProxyReq (e_gob E) \<lparr>xreq_CoverPublicKey = pub, xreq_CoverKeyExchange = info\<rparr> = Inr m \<and>
        e_arrival E t ip \<lparr>pm_Type = CreateProxyRequest, pm_Content = m\<rparr> = Arrived bs \<and>
        dec_CreateProxyResp (e_gob E) bs = Inr resp \<and> xresp_Accepted resp \<and>
        GetSymKey (xresp_ProxyKeyExchange resp) secret = Ret k)"

definition granted :: "env \<Rightarrow> string \<Rightarrow> int \<Rightarrow> bool" where
  "granted E ip k \<longleftrightarrow> connect_granted E ip k \<or> proxy_granted E ip k"

text \<open>
  What an operation does to the links of a node: no cover is new, and a path that is new leads to storage, or to \<open>b\<close> under a
  key with the property \<open>K\<close>.
\<close>

definition links_from :: "string \<Rightarrow> (int \<Rightarrow> bool) \<Rightarrow> state \<Rightarrow> state \<Rightarrow> bool" where
  "links_from b K s s' \<longleftrightarrow>
     (\<forall>x c. getValue (covers s') x = Some c \<longrightarrow> getValue (covers s) x = Some c) \<and>
     (\<forall>t p'. getValue (paths s') t = Some p' \<longrightarrow> p_next p' = IS \<or> p_next p' = b \<and> K (p_symKey p') \<or>
        (\<exists>p. getValue (paths s) t = Some p \<and> p_next p' = p_next p \<and> p_symKey p' = p_symKey p))"

abbreviation quiet :: "state \<Rightarrow> state \<Rightarrow> bool" where
  "quiet s s' \<equiv> links_from IS (\<lambda>k. False) s s'"

lemma links_from_tables [intro]: "paths s' = paths s \<Longrightarrow> covers s' = covers s \<Longrightarrow> links_from b K s s'"
  by (auto simp: links_from_def)

lemma links_from_same: "same_node s s' \<Longrightarrow> links_from b K s s'"
  by (auto simp: same_node_fields)

lemma links_from_set:
  "paths s' = setValue (paths s) t p \<Longrightarrow> covers s' = covers s \<Longrightarrow> p_next p = IS \<or> p_next p = b \<and> K (p_symKey p) \<Longrightarrow>
   links_from b K s s'"
  by (auto simp: links_from_def)

lemma links_from_before: "paths t = paths s \<Longrightarrow> covers t = covers s \<Longrightarrow> links_from b K t s' \<Longrightarrow> links_from b K s s'"
  by (simp add: links_from_def)

lemma links_from_mono: "links_from b K s s' \<Longrightarrow> (\<And>k. K k \<Longrightarrow> L k) \<Longrightarrow> links_from b L s s'"
  unfolding links_from_def by metis

lemma quiet_links_from: "quiet s s' \<Longrightarrow> links_from b K s s'"
  by (fastforce simp: links_from_def)

lemma ConnectPath_granted:
  assumes "ConnectPath E ip t s = Ret (r, s')" and "caches_ok s" and "offers_from ip t s"
  shows "links_from ip (granted E ip) s s'"
proof -
  obtain resp err where run: "ConnectPath E ip t s = Ret ((resp, err), s')"
    using assms(1) by (cases r) auto
  have covers: "covers s' = covers s"
    using ConnectPath_through_peer [OF assms] by simp
  from run assms(2) show ?thesis
  proof (cases rule: ConnectPath_cases)
    case unchanged
    then show ?thesis
      by (auto simp: same_but_caches_def)
  next
    case (installed u profile tc m)
    then have acc: "ConnectPath E ip t s = Ret ((Some m, None), s')" "cresp_Accepted m"
      using run by simp_all
    obtain secret info tc path s1 s2 where off: "offered_with info secret"
      and send: "sendConnectPathRequest E ip t info s1 = Ret (Inr (m, tc), s2)"
      and k: "GetSymKey (cresp_ParentKeyExchange m) secret = Ret (p_symKey path)" "getValue (paths s') t = Some path"
      by (rule ConnectPath_accepted [OF acc])
    have "connect_granted E ip (p_symKey path)"
      using sendConnect_arrived [OF send] off k(1) acc(2) unfolding connect_granted_def by metis
    moreover have "paths s' = paths s \<or> (\<exists>p. paths s' = setValue (paths s) t p \<and> p_next p = ip \<and> p = path)"
      using ConnectPath_through_peer [OF assms] k(2) by auto
    ultimately show ?thesis
      using covers by (elim disjE exE conjE) (auto simp: granted_def intro: links_from_set)
  qed
qed

lemma CreateProxy_granted:
  assumes "CreateProxy E ip s = Ret (r, s')"
  shows "links_from ip (granted E ip) s s'"
proof -
  obtain secret info s1 where ex: "open_exchange E s = Ret (secret, info, s1)"
    using assms unfolding CreateProxy_def by (auto elim!: obind_RetE)
  obtain q s2 where send: "sendCreateProxyRequest E ip info s1 = (q, s2)"
    by fastforce
  have same: "same_node s s2"
    using open_exchange_same [OF ex] send_same(3) [of s1 E ip info] send by (auto intro: same_node_trans)
  show ?thesis
  proof (cases "\<exists>resp. r = (Some resp, None) \<and> xresp_Accepted resp")
    case True
    then obtain resp where acc: "CreateProxy E ip s = Ret ((Some resp, None), s')" "xresp_Accepted resp"
      using assms by auto
    obtain key offer v1 tc v2 tree path where off: "offered_with offer key"
      and got: "sendCreateProxyRequest E ip offer v1 = (Inr (resp, tc), v2)"
      and k: "GetSymKey (xresp_ProxyKeyExchange resp) key = Ret (p_symKey path)"
      and path: "p_next path = ip" "paths s' = setValue (paths s) tree path"
      by (rule CreateProxy_accepted [OF acc])
    have "proxy_granted E ip (p_symKey path)"
      using sendCreateProxy_arrived [OF got] off k acc(2) unfolding proxy_granted_def by metis
    moreover have "covers s' = covers s"
      using assms ex send same
      by (auto simp: CreateProxy_def install_path_def Let_def spawn_def tick_def same_node_fields elim!: obind_RetE
          split: sum.splits if_splits)
    ultimately show ?thesis
      using path by (auto simp: granted_def intro: links_from_set)
  next
    case False
    with assms ex send same have "s' = s2"
      by (cases q) (auto simp: CreateProxy_def elim!: obind_RetE split: sum.splits if_splits)
    with same show ?thesis
      by (auto intro: links_from_same)
  qed
qed

lemma MoveUp_granted:
  assumes "MoveUp E p s = Ret s'" and "caches_ok s" and "p_next2 p \<noteq> IS \<longrightarrow> offers_from (p_next2 p) (p_uuid p) s"
  shows "links_from (p_next2 p) (granted E (p_next2 p)) s s'"
proof (cases "p_next2 p = IS")
  case True
  with assms(1) show ?thesis
    by (auto simp: MoveUp_def)
next
  case False
  let ?from = "links_from (p_next2 p) (granted E (p_next2 p))"
  obtain r s1 where send: "sendVerifyCoverRequest E (p_next2 p) (p_next p) s = (r, s1)"
    by fastforce
  then have same: "same_node s s1"
    using send_same(2) [of s E "p_next2 p" "p_next p"] by simp
  have proxy: "?from u (become_proxy E w)" if "cancel_covers_of E k u = Ret w" for k u w
    using cancel_covers_same [OF that]
    by (intro links_from_before [of w u]) (auto simp: same_node_fields become_proxy_def Let_def tick_def self_proxy_path_def
        intro: links_from_set)
  have connect: "?from s1 u" if "ConnectPath E (p_next2 p) (p_uuid p) s1 = Ret (q, u)" for q u
    using that assms(2,3) False same
    by (intro ConnectPath_granted) (auto simp: caches_ok_def same_node_fields intro: offers_from_same)
  have refused: "paths u = paths s1 \<and> covers u = covers s1"
    if "ConnectPath E (p_next2 p) (p_uuid p) s1 = Ret ((resp, err), u)"
      "\<not> (err = None \<and> (case resp of None \<Rightarrow> False | Some m \<Rightarrow> cresp_Accepted m))" for resp err u
  proof -
    have "caches_ok s1"
      using same assms(2) by (auto simp: caches_ok_def same_node_fields)
    from that(1) this show ?thesis
      by (cases rule: ConnectPath_cases) (use that(2) in \<open>auto simp: same_but_caches_def\<close>)
  qed
  have "?from s1 s'"
  proof (cases r)
    case (Inl err)
    with assms(1) False send show ?thesis
      by (auto simp: MoveUp_def)
  next
    case (Inr m)
    note run = assms(1) [unfolded MoveUp_def if_not_P [OF False] send, simplified Inr Let_def prod.case sum.case]
    show ?thesis
    proof (cases "vresp_IsVerified m")
      case False
      with run proxy show ?thesis
        by (auto elim!: obind_RetE)
    next
      case True
      then obtain resp err u where con: "ConnectPath E (p_next2 p) (p_uuid p) s1 = Ret ((resp, err), u)"
        using run by (auto elim!: obind_RetE)
      show ?thesis
      proof (cases "err = None \<and> (case resp of None \<Rightarrow> False | Some m \<Rightarrow> cresp_Accepted m)")
        case True
        with run con \<open>vresp_IsVerified m\<close> have "s' = u"
          by (simp split: if_splits)
        with connect [OF con] show ?thesis
          by simp
      next
        case False
        with run con \<open>vresp_IsVerified m\<close> obtain w where "cancel_covers_of E (p_uuid p) u = Ret w" "s' = become_proxy E w"
          by (auto elim!: obind_RetE split: if_splits)
        with proxy refused [OF con False] show ?thesis
          by (blast intro: links_from_before)
      qed
    qed
  qed
  then show ?thesis
    by (rule links_from_before [rotated 2]) (use same in \<open>simp_all add: same_node_fields\<close>)
qed

section \<open>What the other operations do to the links\<close>

lemma Publish_quiet:
  assumes "Publish E key m target s = Ret (r, s')"
  shows "quiet s s'"
  using assms
proof (cases rule: Publish_cases)
  case (refused err)
  then show ?thesis
    by (auto simp: untouched_def intro: links_from_same)
next
  case (chosen k p s1 s2 jobID)
  have "same_node s s1"
    using choose_path_state [OF chosen(3)] untouched_tick [of s] by (auto simp: untouched_def)
  then have "same_node s s2"
    using publish_act_same [OF chosen(5)] by (rule same_node_trans)
  then show ?thesis
    using record_job_recorded [OF chosen(6)] by (auto simp: job_recorded_def same_node_fields)
qed

lemma sendCoverMessageWorker_quiet:
  assumes "sendCoverMessageWorker E ctx tc p s = Ret s'"
  shows "quiet s s'"
proof -
  obtain go s1 where run: "sendCover_round E ctx tc p s = Ret (go, s1)"
    using assms by (auto simp: sendCoverMessageWorker_def elim!: obind_RetE)
  have "same_node u v" if "write_message E c am u = (e, v)" for c am u e v
    using that by (auto simp: write_message_def tick_def same_node_def node.defs split: option.splits)
  note written = same_node_fields [OF this]
  have s1: "paths s1 = paths s" "covers s1 = covers s"
    using run by (auto simp: sendCover_round_def Let_def written split: sum.splits option.splits prod.splits dest!: written(1,4))
  have "s' = s1 \<or> s' = finish_task (SendCoverMessageWorker ctx tc p) (sendCover_cleanup tc p s1)"
    using assms run by (auto simp: sendCoverMessageWorker_def split: if_splits)
  then show ?thesis
    using s1 by (auto simp: links_from_def sendCover_cleanup_def Let_def finish_task_def close_conn_def split: if_splits option.splits)
qed

lemma handleApplicationMessageWorker_quiet:
  assumes "handleApplicationMessageWorker E ctx conn c p ev s = Ret s'"
  shows "quiet s s'"
proof (cases "\<exists>m. ev = Received m")
  case True
  then obtain m err where "handleApplicationMessage E m c p s = Ret (err, s')"
    using assms by (auto simp: handleApplicationMessageWorker_def elim!: obind_RetE)
  then show ?thesis
    by (intro links_from_same) (rule handleApplicationMessage_same)
next
  case False
  then show ?thesis
    using assms
    by (auto simp: handleApplicationMessageWorker_def handleApp_cleanup_def finish_task_def close_conn_def links_from_def
        split: app_event.splits if_splits)
qed

lemma markPublishJobStatus_quiet: "quiet s (finish_task g (markPublishJobStatus jobID job s))"
  by (auto simp: links_from_def markPublishJobStatus_def finish_task_def Let_def split: option.splits if_splits)

lemma become_proxy_quiet: "quiet s (become_proxy E s)"
  by (rule links_from_set) (auto simp: become_proxy_def Let_def tick_def self_proxy_path_def)

lemma handle_invalid_quiet:
  assumes "handle_invalid r s = Ret s'"
    and "\<exists>q. getValue (paths s) (p_uuid (i_SelfProfile r)) = Some q \<and> p_next q = p_next (i_SelfProfile r) \<and>
          p_symKey q = p_symKey (i_SelfProfile r)"
  shows "quiet s s'"
proof (cases "i_HandleType r")
  case CLEAN
  then show ?thesis
    using assms(1) by (auto simp: handle_invalid_def intro: links_from_same same_node_cancel)
next
  case FIX
  then show ?thesis
    using assms by (auto simp: handle_invalid_def Let_def links_from_def split: if_splits)
qed

section \<open>The answering node\<close>

text \<open>Handling a message adds at most a cover at the address of the sender, and a path to storage.\<close>

definition admits :: "incoming \<Rightarrow> state \<Rightarrow> state \<Rightarrow> bool" where
  "admits c s s' \<longleftrightarrow>
     (\<forall>x cover. getValue (covers s') x = Some cover \<longrightarrow> getValue (covers s) x = Some cover \<or>
        (\<exists>port. SplitHostPort (in_remote c) = Inr (x, port))) \<and>
     (\<forall>t p'. getValue (paths s') t = Some p' \<longrightarrow> p_next p' = IS \<or> getValue (paths s) t = Some p')"

lemma admits_same: "same_node s s' \<Longrightarrow> admits c s s'"
  by (simp add: admits_def same_node_fields)

lemma handleMessage_admits:
  assumes "handleMessage E c msg s = Ret (e, s')"
  shows "admits c s s'"
proof -
  have connect: "admits c s t" if "handleConnectPathReq E (Some c) req s = Ret (e', t)" for req e' t
    using that unfolding handleConnectPathReq_def
    by (auto split: option.splits sum.splits prod.splits bool.splits elim!: accept_connect_tables
        intro: admits_same [OF close_conn_same(1)] admits_same [OF answered_same])
      (auto simp: admits_def split: if_splits)
  have host: "admits c s t" if "handleCreateProxyReq E (Some c) req s = Ret (e', t)" for req e' t
    using that unfolding handleCreateProxyReq_def Let_def
    by (auto split: option.splits sum.splits prod.splits if_splits elim!: accept_proxy_tables
        intro: admits_same [OF answered_same] admits_same)
      (auto simp: admits_def split: if_splits)
  show ?thesis
    using assms(1) admits_same [OF handleQueryPathReq_same] admits_same [OF handleVerifyCoverReq_same]
    by (auto simp: handleMessage_def Let_def split: sum.splits if_splits dest: connect host intro: admits_same) (metis snd_conv)+
qed

lemma handleConnection_admits:
  assumes "handleConnection E c m s = Ret s'"
  shows "admits c s s'"
proof (cases m)
  case (Inl err)
  with assms show ?thesis
    by (auto simp: handleConnection_def intro: admits_same close_conn_same)
next
  case (Inr msg)
  with assms show ?thesis
    by (auto simp: handleConnection_def elim!: obind_RetE intro: handleMessage_admits)
qed

text \<open>An accepting answer comes with the cover entry that has its key.\<close>

lemma connect_granted_cover:
  assumes "connect_granted E ip k" and "gob_correct (e_gob E)" and "e_gob E' = e_gob E"
    and "\<And>t m bs. e_arrival E t ip \<lparr>pm_Type = ConnectPathRequest, pm_Content = m\<rparr> = Arrived bs \<Longrightarrow>
           msg = \<lparr>pm_Type = ConnectPathRequest, pm_Content = m\<rparr> \<and> answer_of E' c p msg = Arrived bs"
    and "handleMessage E' c msg p = Ret (e, p')" and "SplitHostPort (in_remote c) = Inr (a, port)"
  shows "\<exists>cover. getValue (covers p') a = Some cover \<and> c_secretKey cover = k"
proof -
  obtain secret info enc m t bs resp where off: "offered_with info secret"
    and m: "enc_ConnectPathReq (e_gob E') \<lparr>creq_EncryptedTreeUUID = enc, creq_CoverKeyExchange = info\<rparr> = Inr m"
    and at: "e_arrival E t ip \<lparr>pm_Type = ConnectPathRequest, pm_Content = m\<rparr> = Arrived bs"
    and resp: "dec_ConnectPathResp (e_gob E') bs = Inr resp" "cresp_Accepted resp"
    and k: "GetSymKey (cresp_ParentKeyExchange resp) secret = Ret k"
    using assms(1,3) by (auto simp: connect_granted_def)
  have G: "gob_correct (e_gob E')"
    using assms(2,3) by simp
  note msg = conjunct1 [OF assms(4) [OF at]] and answer = conjunct2 [OF assms(4) [OF at]]
  let ?req = "\<lparr>creq_EncryptedTreeUUID = enc, creq_CoverKeyExchange = info\<rparr>"
  have "answer_of E' c p \<lparr>pm_Type = ConnectPathRequest, pm_Content = m\<rparr> = Arrived bs"
    using answer unfolding msg .
  then obtain p'' r where run: "handleConnectPathReq E' (Some c) ?req p = Ret (None, p'')"
    "responses p'' = responses p @ [(in_conn c, RespConnectPath r)]" "enc_ConnectPathResp (e_gob E') r = Inr bs"
    using gob_decode(5) [OF G m] by (elim answered_connect) simp
  have r: "r = resp"
    using gob_decode(6) [OF G run(3)] resp(1) by simp
  have same: "p'' = p'"
    using assms(5) msg run(1) handleMessage_connect [OF G m] by simp
  have ans: "map snd (drop (length (responses p)) (responses p'')) = [RespConnectPath r]" "cresp_Accepted r"
    using run(2) r resp(2) by simp_all
  have "\<exists>b cover. GenerateReturn info b = Ret (cresp_ParentKeyExchange r) \<and> GetSymKey info b = Ret (c_secretKey cover) \<and>
      getValue (covers p'') a = Some cover"
  proof (rule connect_accepted_cover [OF run(1) ans])
    fix ip' port' b and cover :: CoverNodeProfile
    assume "SplitHostPort (in_remote c) = Inr (ip', port')" "GenerateReturn (creq_CoverKeyExchange ?req) b = Ret (cresp_ParentKeyExchange r)"
      "GetSymKey (creq_CoverKeyExchange ?req) b = Ret (c_secretKey cover)" "getValue (covers p'') ip' = Some cover"
    with assms(6) show ?thesis
      by (intro exI [of _ b] exI [of _ cover]) simp
  qed
  then obtain b cover where b: "GenerateReturn info b = Ret (cresp_ParentKeyExchange r)"
    and "GetSymKey info b = Ret (c_secretKey cover)" "getValue (covers p'') a = Some cover"
    by blast
  then show ?thesis
    using dh.derive_agrees [OF off b] k r same by auto
qed

lemma proxy_granted_cover:
  assumes "proxy_granted E ip k" and "gob_correct (e_gob E)" and "e_gob E' = e_gob E"
    and "\<And>t m bs. e_arrival E t ip \<lparr>pm_Type = CreateProxyRequest, pm_Content = m\<rparr> = Arrived bs \<Longrightarrow>
           msg = \<lparr>pm_Type = CreateProxyRequest, pm_Content = m\<rparr> \<and> answer_of E' c p msg = Arrived bs"
    and "handleMessage E' c msg p = Ret (e, p')" and "SplitHostPort (in_remote c) = Inr (a, port)"
  shows "\<exists>cover. getValue (covers p') a = Some cover \<and> c_secretKey cover = k"
proof -
  obtain secret info pub m t bs resp where off: "offered_with info secret"
    and m: "enc_CreateProxyReq (e_gob E') \<lparr>xreq_CoverPublicKey = pub, xreq_CoverKeyExchange = info\<rparr> = Inr m"
    and at: "e_arrival E t ip \<lparr>pm_Type = CreateProxyRequest, pm_Content = m\<rparr> = Arrived bs"
    and resp: "dec_CreateProxyResp (e_gob E') bs = Inr resp" "xresp_Accepted resp"
    and k: "GetSymKey (xresp_ProxyKeyExchange resp) secret = Ret k"
    using assms(1,3) by (auto simp: proxy_granted_def)
  have G: "gob_correct (e_gob E')"
    using assms(2,3) by simp
  note msg = conjunct1 [OF assms(4) [OF at]] and answer = conjunct2 [OF assms(4) [OF at]]
  let ?req = "\<lparr>xreq_CoverPublicKey = pub, xreq_CoverKeyExchange = info\<rparr>"
  have "answer_of E' c p \<lparr>pm_Type = CreateProxyRequest, pm_Content = m\<rparr> = Arrived bs"
    using answer unfolding msg .
  then obtain p'' r where run: "handleCreateProxyReq E' (Some c) ?req p = Ret (None, p'')"
    "responses p'' = responses p @ [(in_conn c, RespCreateProxy r)]" "enc_CreateProxyResp (e_gob E') r = Inr bs"
    using gob_decode(7) [OF G m] by (elim answered_proxy) simp
  have r: "r = resp"
    using gob_decode(8) [OF G run(3)] resp(1) by simp
  have same: "p'' = p'"
    using assms(5) msg run(1) handleMessage_proxy [OF G m] by simp
  have ans: "map snd (drop (length (responses p)) (responses p'')) = [RespCreateProxy r]" "xresp_Accepted r"
    using run(2) r resp(2) by simp_all
  have "\<exists>b cover. GenerateReturn info b = Ret (xresp_ProxyKeyExchange r) \<and> GetSymKey info b = Ret (c_secretKey cover) \<and>
      getValue (covers p'') a = Some cover"
  proof (rule proxy_accepted_cover [OF run(1) ans])
    fix ip' port' b k' u tree ctx and cover :: CoverNodeProfile
    assume "SplitHostPort (in_remote c) = Inr (ip', port')" "GenerateReturn (xreq_CoverKeyExchange ?req) b = Ret (xresp_ProxyKeyExchange r)"
      "GetSymKey (xreq_CoverKeyExchange ?req) b = Ret k'" "covers p'' = setValue (covers p) ip' cover"
      "cover = \<lparr>c_cover = ip', c_secretKey = k', c_treeUUID = tree, c_cancelFunc = Some ctx\<rparr>"
    with assms(6) show ?thesis
      by (intro exI [of _ b] exI [of _ cover]) simp
  qed
  then obtain b cover where b: "GenerateReturn info b = Ret (xresp_ProxyKeyExchange r)"
    and "GetSymKey info b = Ret (c_secretKey cover)" "getValue (covers p'') a = Some cover"
    by blast
  then show ?thesis
    using dh.derive_agrees [OF off b] k r same by auto
qed

section \<open>A network with requests between its nodes\<close>

definition keys_agree :: "network \<Rightarrow> bool" where
  "keys_agree N \<longleftrightarrow>
     (\<forall>a b p cover. getValue (paths (N a)) (c_treeUUID cover) = Some p \<and> p_next p = b \<and> b \<noteq> IS \<and>
        getValue (covers (N b)) a = Some cover \<longrightarrow> p_symKey p = c_secretKey cover)"

text \<open>
  What a node does with a request to \<open>b\<close>.  As in \<open>Trees\<close>, a tree is joined on an offer of the asked node.
\<close>

inductive asks :: "env \<Rightarrow> string \<Rightarrow> state \<Rightarrow> state \<Rightarrow> bool" for E :: env and b :: string and s :: state where
  ask_connect: "ConnectPath E b t s = Ret (r, s') \<Longrightarrow> offers_from b t s \<Longrightarrow> asks E b s s'"
| ask_proxy: "CreateProxy E b s = Ret (r, s') \<Longrightarrow> asks E b s s'"
| ask_move_up: "MoveUp E p s = Ret s' \<Longrightarrow> p_next2 p = b \<Longrightarrow> b \<noteq> IS \<longrightarrow> offers_from b (p_uuid p) s \<Longrightarrow> asks E b s s'"

lemma asks_links: "asks E b s s' \<Longrightarrow> caches_ok s \<Longrightarrow> links_from b (granted E b) s s'"
  by (cases rule: asks.cases) (auto intro: ConnectPath_granted CreateProxy_granted MoveUp_granted)

lemma asks_inv: "asks E b s s' \<Longrightarrow> node_inv E s \<Longrightarrow> node_inv E s'"
  by (cases rule: asks.cases) (auto intro: ConnectPath_inv CreateProxy_inv MoveUp_inv)

text \<open>
  The arrivals of a step: from \<open>b\<close>, on a request that changes tables, nothing but the answer \<open>ar\<close> to the message
  \<open>msg\<close>, which may also be lost.  What arrives on queries, and from other nodes, is arbitrary.
\<close>

definition only_answer :: "(nat \<Rightarrow> string \<Rightarrow> ProtocolMessage \<Rightarrow> arrival) \<Rightarrow> string \<Rightarrow> ProtocolMessage \<Rightarrow> arrival \<Rightarrow> bool" where
  "only_answer arr b msg ar \<longleftrightarrow>
     (\<forall>t ty m bs. ty \<in> {ConnectPathRequest, CreateProxyRequest} \<and> arr t b \<lparr>pm_Type = ty, pm_Content = m\<rparr> = Arrived bs \<longrightarrow>
        msg = \<lparr>pm_Type = ty, pm_Content = m\<rparr> \<and> ar = Arrived bs)"

definition hearing :: "env \<Rightarrow> (nat \<Rightarrow> string \<Rightarrow> ProtocolMessage \<Rightarrow> arrival) \<Rightarrow> env" where
  "hearing E arr = E\<lparr>e_arrival := arr\<rparr>"

lemma hearing_fields [simp]:
  "e_gob (hearing E arr) = e_gob E" "e_lib (hearing E arr) = e_lib E" "e_arrival (hearing E arr) = arr"
  "node_inv (hearing E arr) s \<longleftrightarrow> node_inv E s"
  by (simp_all add: hearing_def node_inv_def covers_bounded_def)

text \<open>When a node enters another as a cover of a tree, the other does not lead to it on that tree yet.\<close>

definition fresh_link :: "network \<Rightarrow> string \<Rightarrow> string \<Rightarrow> state \<Rightarrow> bool" where
  "fresh_link N a b s' \<longleftrightarrow>
     (\<forall>cover p. getValue (covers s') a = Some cover \<and> getValue (covers (N b)) a \<noteq> Some cover \<and>
        getValue (paths (N a)) (c_treeUUID cover) = Some p \<longrightarrow> p_next p \<noteq> b)"

lemma granted_cover:
  assumes "granted (hearing (E a) arr) b k" and "gob_correct G" and "e_gob (E a) = G" and "e_gob (E b) = G"
    and "only_answer arr b msg (answer_of (E b) c p msg)"
    and "handleMessage (E b) c msg p = Ret (e, p')" and "SplitHostPort (in_remote c) = Inr (a', port)"
  shows "\<exists>cover. getValue (covers p') a' = Some cover \<and> c_secretKey cover = k"
  using assms(1) unfolding granted_def
proof
  assume grant: "connect_granted (hearing (E a) arr) b k"
  show ?thesis
    by (rule connect_granted_cover [OF grant _ _ _ assms(6,7)])
      (use assms(2-5) in \<open>auto simp: only_answer_def\<close>)
next
  assume grant: "proxy_granted (hearing (E a) arr) b k"
  show ?thesis
    by (rule proxy_granted_cover [OF grant _ _ _ assms(6,7)])
      (use assms(2-5) in \<open>auto simp: only_answer_def\<close>)
qed

lemma nothing_granted: "only_answer arr b msg TimedOut \<Longrightarrow> \<not> granted (hearing E arr) b k"
  by (auto simp: granted_def connect_granted_def proxy_granted_def only_answer_def)

text \<open>
  The steps.  A node alone does what it does in \<open>Trees\<close>, with a repair applied to the path that was examined, or asks a
  node and gets no answer; in an exchange one node asks and the other handles its request; a node may also handle a
  message of which the sender takes no answer.
\<close>

inductive web_step :: "(string \<Rightarrow> env) \<Rightarrow> network \<Rightarrow> network \<Rightarrow> bool" for E :: "string \<Rightarrow> env" where
  web_publish: "Publish (E a) key m target (N a) = Ret (r, s') \<Longrightarrow> web_step E N (N(a := s'))"
| web_cover: "sendCoverMessageWorker (E a) ctx tc p (N a) = Ret s' \<Longrightarrow> web_step E N (N(a := s'))"
| web_receive: "handleApplicationMessageWorker (E a) ctx conn c p ev (N a) = Ret s' \<Longrightarrow> web_step E N (N(a := s'))"
| web_job: "web_step E N (N(a := finish_task (CheckPublishJobStatusWorker j) (markPublishJobStatus j job (N a))))"
| web_own_proxy: "web_step E N (N(a := become_proxy (E a) (N a)))"
| web_cancel: "call_cancel f e (N a) = Ret s' \<Longrightarrow> web_step E N (N(a := s'))"
| web_time: "web_step E N (N(a := tick (N a)))"
| web_query: "QueryPath (hearing (E a) arr) b (N a) = Ret (r, v, s') \<Longrightarrow> web_step E N (N(a := s'))"
| web_repair: "handle_invalid r (N a) = Ret s' \<Longrightarrow> report_ok (N a) r \<Longrightarrow>
    \<exists>q. getValue (paths (N a)) (p_uuid (i_SelfProfile r)) = Some q \<and> p_next q = p_next (i_SelfProfile r) \<and>
      p_symKey q = p_symKey (i_SelfProfile r) \<Longrightarrow> web_step E N (N(a := s'))"
| web_unanswered: "asks (hearing (E a) arr) b (N a) s' \<Longrightarrow> only_answer arr b msg TimedOut \<Longrightarrow> web_step E N (N(a := s'))"
| web_exchange: "a \<noteq> b \<Longrightarrow> SplitHostPort (in_remote c) = Inr (a, port) \<Longrightarrow>
    asks (hearing (E a) arr) b (N a) s' \<Longrightarrow> handleMessage (E b) c msg (N b) = Ret (e, u') \<Longrightarrow>
    only_answer arr b msg (answer_of (E b) c (N b) msg) \<Longrightarrow> fresh_link N a b u' \<Longrightarrow> web_step E N (N(a := s', b := u'))"
| web_answer: "handleConnection (E b) c m (N b) = Ret u' \<Longrightarrow>
    \<forall>a port. SplitHostPort (in_remote c) = Inr (a, port) \<longrightarrow> fresh_link N a b u' \<Longrightarrow> web_step E N (N(b := u'))"

text \<open>All nodes run the same encoders.\<close>

definition same_gob :: "(string \<Rightarrow> env) \<Rightarrow> gob \<Rightarrow> bool" where
  "same_gob E G \<longleftrightarrow> gob_correct G \<and> (\<forall>a. e_gob (E a) = G)"

definition web_inv :: "(string \<Rightarrow> env) \<Rightarrow> network \<Rightarrow> bool" where
  "web_inv E N \<longleftrightarrow> (\<forall>a. node_inv (E a) (N a)) \<and> ((\<exists>G. same_gob E G) \<longrightarrow> keys_agree N)"

lemma keys_agree_quiet: "keys_agree N \<Longrightarrow> quiet (N a) s' \<Longrightarrow> keys_agree (N(a := s'))"
  unfolding keys_agree_def links_from_def by (auto split: if_splits) metis+

lemma keys_agree_admits:
  assumes "keys_agree N" and "admits c (N b) u'"
    and "\<forall>a port. SplitHostPort (in_remote c) = Inr (a, port) \<longrightarrow> fresh_link N a b u'"
  shows "keys_agree (N(b := u'))"
  unfolding keys_agree_def
proof (intro allI impI, elim conjE)
  fix x y p cover
  assume p: "getValue (paths ((N(b := u')) x)) (c_treeUUID cover) = Some p" "p_next p = y" "y \<noteq> IS"
    and cover: "getValue (covers ((N(b := u')) y)) x = Some cover"
  have old: "getValue (paths (N x)) (c_treeUUID cover) = Some p"
    using p assms(2) by (auto simp: admits_def split: if_splits)
  have "getValue (covers (N y)) x = Some cover"
  proof (rule ccontr)
    assume new: "getValue (covers (N y)) x \<noteq> Some cover"
    with cover have y: "y = b" "getValue (covers u') x = Some cover"
      by (auto split: if_splits)
    with new assms(2) obtain port where "SplitHostPort (in_remote c) = Inr (x, port)"
      unfolding admits_def by blast
    with assms(3) have "fresh_link N x b u'"
      by blast
    with y new old p(2) show False
      by (auto simp: fresh_link_def)
  qed
  with old p(2,3) assms(1) show "p_symKey p = c_secretKey cover"
    by (auto simp: keys_agree_def)
qed

lemma keys_agree_exchange:
  assumes "keys_agree N" and "a \<noteq> b" and "SplitHostPort (in_remote c) = Inr (a, port)"
    and "links_from b K (N a) s'" and "admits c (N b) u'" and "fresh_link N a b u'"
    and "\<And>k. K k \<Longrightarrow> \<exists>cover. getValue (covers u') a = Some cover \<and> c_secretKey cover = k"
  shows "keys_agree (N(a := s', b := u'))"
  unfolding keys_agree_def
proof (intro allI impI, elim conjE)
  have answered: "keys_agree (N(b := u'))"
    using assms(1,5) by (rule keys_agree_admits) (use assms(3,6) in auto)
  fix x y p cover
  assume p: "getValue (paths ((N(a := s', b := u')) x)) (c_treeUUID cover) = Some p" "p_next p = y" "y \<noteq> IS"
    and cover: "getValue (covers ((N(a := s', b := u')) y)) x = Some cover"
  have cover': "getValue (covers ((N(b := u')) y)) x = Some cover"
    using cover assms(2,4) by (auto simp: links_from_def split: if_splits)
  show "p_symKey p = c_secretKey cover"
  proof (cases "x = a \<and> y = b \<and> K (p_symKey p)")
    case True
    then show ?thesis
      using assms(7) cover' by auto
  next
    case False
    then obtain q where "getValue (paths ((N(b := u')) x)) (c_treeUUID cover) = Some q" "p_next q = y" "p_symKey q = p_symKey p"
      using p assms(2,4) by (auto simp: links_from_def split: if_splits) metis+
    with answered cover' p(3) show ?thesis
      by (auto simp: keys_agree_def)
  qed
qed

lemma web_inv_quiet: "web_inv E N \<Longrightarrow> node_inv (E a) s' \<Longrightarrow> quiet (N a) s' \<Longrightarrow> web_inv E (N(a := s'))"
  by (auto simp: web_inv_def intro: keys_agree_quiet)

lemma web_inv_step: "web_step E N N' \<Longrightarrow> web_inv E N \<Longrightarrow> web_inv E N'"
proof (induction rule: web_step.induct)
  case (web_publish a key m target N r s')
  then show ?case
    by (metis web_inv_def web_inv_quiet Publish_inv Publish_quiet)
next
  case (web_cover a ctx tc p N s')
  then show ?case
    by (metis web_inv_def web_inv_quiet sendCoverMessageWorker_inv sendCoverMessageWorker_quiet)
next
  case (web_receive a ctx conn c p ev N s')
  then show ?case
    by (metis web_inv_def web_inv_quiet handleApplicationMessageWorker_inv handleApplicationMessageWorker_quiet)
next
  case (web_job N a j job)
  then show ?case
    by (metis web_inv_def web_inv_quiet finish_task_inv markPublishJobStatus_inv markPublishJobStatus_quiet)
next
  case (web_own_proxy N a)
  then show ?case
    by (metis web_inv_def web_inv_quiet become_proxy_inv become_proxy_quiet)
next
  case (web_cancel f e N a s')
  then show ?case
    by (metis web_inv_def web_inv_quiet call_cancel_inv links_from_same same_node_cancel)
next
  case (web_time N a)
  then show ?case
    by (metis web_inv_def web_inv_quiet tick_inv links_from_same same_node_runtime(1))
next
  case (web_query a arr b N r v s')
  have inv: "node_inv (hearing (E a) arr) (N a)"
    using web_query(2) by (simp add: web_inv_def)
  have "quiet (N a) s'"
    using QueryPath_ok [OF web_query(1) node_inv_caches_ok [OF inv]] by (auto simp: same_but_caches_def)
  moreover have "node_inv (E a) s'"
    using QueryPath_inv [OF web_query(1) inv] by simp
  ultimately show ?case
    using web_query(2) by (intro web_inv_quiet)
next
  case (web_repair r N a s')
  then show ?case
    by (intro web_inv_quiet handle_invalid_quiet) (auto simp: web_inv_def dest: handle_invalid_inv)
next
  case (web_unanswered a arr b N s' msg)
  have inv: "node_inv (hearing (E a) arr) (N a)"
    using web_unanswered(3) by (simp add: web_inv_def)
  have "links_from b (granted (hearing (E a) arr) b) (N a) s'"
    using asks_links [OF web_unanswered(1) node_inv_caches_ok [OF inv]] .
  then have "quiet (N a) s'"
    using nothing_granted [OF web_unanswered(2)] unfolding links_from_def by metis
  moreover have "node_inv (E a) s'"
    using asks_inv [OF web_unanswered(1) inv] by simp
  ultimately show ?case
    using web_unanswered(3) by (intro web_inv_quiet)
next
  case (web_exchange a b c port arr N s' msg e u')
  have inv: "node_inv (hearing (E a) arr) (N a)" "node_inv (E b) (N b)"
    using web_exchange(7) by (simp_all add: web_inv_def)
  have "keys_agree (N(a := s', b := u'))" if "same_gob E G" "keys_agree N" for G
    using that(2) web_exchange(1,2) asks_links [OF web_exchange(3) node_inv_caches_ok [OF inv(1)]]
      handleMessage_admits [OF web_exchange(4)] web_exchange(6)
    by (rule keys_agree_exchange)
      (use that(1) granted_cover [where E = E and a = a and b = b and p = "N b", OF _ _ _ _ web_exchange(5,4,2)] in \<open>auto simp: same_gob_def\<close>)
  moreover have "node_inv (E b) u'"
    using handleConnection_inv [of "E b" c "Inr msg" "N b" u'] web_exchange(4) inv(2) by (simp add: handleConnection_def)
  moreover have "node_inv (E a) s'"
    using asks_inv [OF web_exchange(3) inv(1)] by simp
  ultimately have "\<forall>x. node_inv (E x) ((N(a := s', b := u')) x)" "(\<exists>G. same_gob E G) \<longrightarrow> keys_agree (N(a := s', b := u'))"
    using web_exchange(7) by (simp_all add: web_inv_def) blast
  then show ?case
    unfolding web_inv_def by (rule conjI)
next
  case (web_answer b c m N u')
  then have "\<forall>x. node_inv (E x) ((N(b := u')) x)"
    using handleConnection_inv by (auto simp: web_inv_def)
  moreover have "(\<exists>G. same_gob E G) \<longrightarrow> keys_agree (N(b := u'))"
    using web_answer handleConnection_admits keys_agree_admits unfolding web_inv_def by blast
  ultimately show ?case
    unfolding web_inv_def by (rule conjI)
qed

interpretation web: inductive_invariant net_start "web_step E" "web_inv E" for E
proof unfold_locales
  show "web_inv E N" if "net_start N" for N
    using net_start_fresh [OF that] by (simp add: web_inv_def keys_agree_def getValue_def)
qed (rule web_inv_step)

section \<open>Every reachable network carries messages\<close>

text \<open>
  A chain of links on tree \<open>t\<close> from node \<open>a\<close>: every node has the one before it as a cover of the tree, and a worker of that
  cover that forwards on the node's path of the tree, whatever has been counted on the path since.
\<close>

fun chain_from :: "(string \<Rightarrow> env) \<Rightarrow> network \<Rightarrow> uuid \<Rightarrow> string \<Rightarrow> (string \<times> hop) list \<Rightarrow> bool" where
  "chain_from E N t a [] = True"
| "chain_from E N t a ((b, h) # hs) =
     (b \<noteq> IS \<and> h_env h = E b \<and> h_state h = N b \<and>
      map_option p_next (getValue (paths (N a)) t) = Some b \<and>
      getValue (covers (N b)) a = Some (h_cover h) \<and> c_treeUUID (h_cover h) = t \<and>
      (case getValue (paths (N b)) t of None \<Rightarrow> False | Some fwd \<Rightarrow> same_path fwd (h_fwd h)) \<and>
      (\<exists>g \<in> set (tasks (N b)). case g of
         HandleApplicationMessageWorker ctx conn cover fwd \<Rightarrow> cover = h_cover h \<and> fwd = h_fwd h | _ \<Rightarrow> False) \<and>
      chain_from E N t b hs)"

text \<open>The nodes of a chain can pass a message on, and only the last one is the proxy it is sealed for.\<close>

fun can_carry :: "lib \<Rightarrow> bytes \<Rightarrow> bytes \<Rightarrow> bytes \<Rightarrow> hop list \<Rightarrow> bool" where
  "can_carry L pub key content [] = False"
| "can_carry L pub key content (h # hs) =
     (if hs = [] then ecc_pair L pub (privateKey (h_state h)) \<and> can_store key content h
      else ecc_alien L pub (privateKey (h_state h)) \<and> can_forward h \<and> can_carry L pub key content hs)"

lemma reachable_keys_agree:
  assumes "same_gob E G" and "reach net_start (web_step E) N"
  shows "keys_agree N"
  using web.reachable_inv [OF assms(2)] assms(1) by (auto simp: web_inv_def)

lemma chain_linked:
  assumes "keys_agree N" and "\<forall>x. e_lib (E x) = L \<and> e_gob (E x) = G"
  shows "chain_from E N t a hs \<Longrightarrow> getValue (paths (N a)) t = Some p \<Longrightarrow> can_carry L pub key content (map snd hs) \<Longrightarrow>
    linked L G pub key content (p_symKey p) (map snd hs)"
proof (induction hs arbitrary: a p)
  case Nil
  then show ?case by simp
next
  case (Cons bh hs)
  obtain b h where bh: "bh = (b, h)"
    by (cases bh)
  obtain fwd where fwd: "getValue (paths (N b)) t = Some fwd" "same_path fwd (h_fwd h)"
    using Cons.prems(1) bh by (auto split: option.splits)
  have key: "c_secretKey (h_cover h) = p_symKey p"
    using assms(1) Cons.prems(1,2) bh by (auto simp: keys_agree_def)
  have "linked L G pub key content (p_symKey (h_fwd h)) (map snd hs)" if "hs \<noteq> []"
    using Cons.IH [of b fwd] Cons.prems(1,3) that bh fwd by (auto simp: same_path_def)
  then show ?case
    using key assms(2) Cons.prems(1,3) bh by auto
qed


text \<open>Two nodes, of which the one at \<open>10.0.0.2\<close> asks the one at \<open>10.0.0.7\<close> to be its proxy.\<close>

lemma sample_handles_proxy:
  assumes "enc_CreateProxyReq field_gob \<lparr>xreq_CoverPublicKey = [7], xreq_CoverKeyExchange = half_exchange\<rparr> = Inr m"
  defines "cover \<equiv> \<lparr>c_cover = ''10.0.0.2'', c_secretKey = 2 ^ 255, c_treeUUID = 10, c_cancelFunc = Some 10\<rparr>"
  shows "\<exists>u'. handleMessage sample_env caller \<lparr>pm_Type = CreateProxyRequest, pm_Content = m\<rparr> node0 = Ret (None, u') \<and>
     covers u' = [(''10.0.0.2'', cover)] \<and> paths u' = [(10, self_proxy_path 10 [7] (2 ^ 255))] \<and> privateKey u' = [7] \<and>
     tasks u' = [HandleApplicationMessageWorker 10 (in_conn caller) cover (self_proxy_path 10 [7] (2 ^ 255))]"
proof -
  have "handleMessage sample_env caller \<lparr>pm_Type = CreateProxyRequest, pm_Content = m\<rparr> node0 =
      handleCreateProxyReq sample_env (Some caller) \<lparr>xreq_CoverPublicKey = [7], xreq_CoverKeyExchange = half_exchange\<rparr> node0"
    using handleMessage_proxy [of sample_env _ m caller node0] assms(1) by (simp add: field_gob_correct)
  moreover have "GenerateReturn half_exchange 1 = Ret half_exchange" "GetSymKey half_exchange 1 = Ret (2 ^ 255)"
    by (simp_all add: half_exchange_def GenerateReturn_def GetSymKey_def big_Exp_def)
  ultimately show ?thesis
    by (simp add: handleCreateProxyReq_def getValue_def setValue_def getSize_def tooManyCovers_def accept_proxy_def
        isProxyAlready_iff wf_map_def answer_exchange_def Let_def add_cover_def write_response_def tick_def spawn_def
        cover_def)
qed

lemma founder_tick: "tick node0 = founder"
  by (simp add: tick_def founder_def)


end
