(* ===== verification/Logging.thy ===== *)
theory Logging
  imports Startup "HOL-Library.Char_ord"
begin

text \<open>
  The log of \<open>p2p/loggers.go\<close>, the texts \<open>fmt\<close> prints for what is logged, and the log statements with which
  \<open>p2p/encoding.go\<close> begins the construction of a message.

  The log is the list of the texts handed to \<open>log.Println\<close>.  A stack is the list of its frames, the innermost
  first, each with the name the runtime finds for it, if it finds one; a call pushes the frame of the called function.
\<close>

section \<open>Formatting\<close>

text \<open>
  \<open>fmt.Sprintf\<close> on a format whose only verb is \<open>%v\<close> and with one argument, already printed, for each verb: what a
  missing argument leaves is Go's text for it.  An argument is copied as it is, whatever it contains.
\<close>

fun Sprintf :: "string \<Rightarrow> string list \<Rightarrow> string" where
  "Sprintf [] args = []"
| "Sprintf [c] args = [c]"
| "Sprintf (c # d # format) args =
     (if c = CHR ''%'' \<and> d = CHR ''v''
      then (case args of
              [] \<Rightarrow> ''%!v(MISSING)'' @ Sprintf format []
            | a # rest \<Rightarrow> a @ Sprintf format rest)
      else c # Sprintf (d # format) args)"

text \<open>How \<open>%v\<close> prints a slice of numbers, a byte slice and a \<open>big.Int\<close> passed by value: as a structure of its sign and its words.\<close>

fun spaced :: "string list \<Rightarrow> string" where
  "spaced [] = []"
| "spaced [x] = x"
| "spaced (x # y # xs) = x @ '' '' @ spaced (y # xs)"

definition show_nats :: "nat list \<Rightarrow> string" where
  "show_nats ns = ''['' @ spaced (map Itoa ns) @ '']''"

definition show_bytes :: "bytes \<Rightarrow> string" where
  "show_bytes bs = show_nats (map unat bs)"

fun limbs :: "nat \<Rightarrow> nat list" where
  "limbs n = (if n = 0 then [] else n mod 2 ^ 64 # limbs (n div 2 ^ 64))"

declare limbs.simps [simp del]

definition show_Int :: "int \<Rightarrow> string" where
  "show_Int x = ''{'' @ (if x < 0 then ''true'' else ''false'') @ '' '' @ show_nats (limbs (nat \<bar>x\<bar>)) @ ''}''"

section \<open>The loggers\<close>

type_synonym frame = "string option"

definition tab :: string where "tab = [CHR 0x09]"
definition newline :: string where "newline = [CHR 0x0A]"

definition runtime_Caller :: "nat \<Rightarrow> frame list \<Rightarrow> frame option" where
  "runtime_Caller skip stack = (if skip < length stack then Some (stack ! skip) else None)"

definition getCallerName :: "frame list \<Rightarrow> string" where
  "getCallerName stack =
     (case runtime_Caller 4 (Some ''p2p.getCallerName'' # stack) of
        Some (Some details) \<Rightarrow> details
      | _ \<Rightarrow> ''unknown caller'')"

definition entry_format :: string where
  "entry_format =
     ''Log from %v at'' @ newline @ tab @ ''caller: %v'' @ newline @ tab @ ''callee: %v'' @ newline @ tab @ tab @ ''%v'' @
     newline @ newline"

definition msg :: "frame list \<Rightarrow> string \<Rightarrow> string \<Rightarrow> string \<Rightarrow> string" where
  "msg stack nodeName triggerPoint m =
     Sprintf entry_format [nodeName, getCallerName (Some ''p2p.msg'' # stack), triggerPoint, m]"

definition logProtocolMessageHandlerError ::
    "frame list \<Rightarrow> string \<Rightarrow> string \<Rightarrow> string \<Rightarrow> string \<Rightarrow> string \<Rightarrow> string \<Rightarrow> string list \<Rightarrow> string list" where
  "logProtocolMessageHandlerError stack nodeName handlerName remoteAddr err input description log =
     (let m = Sprintf (''Protocol Message Handle Error: from = %v, input = %v'' @ newline @ tab @ ''%v'' @ newline @ tab @ ''%v'')
                [remoteAddr, input, err, description]
      in log @ [msg (Some ''p2p.logProtocolMessageHandlerError'' # stack) nodeName handlerName m])"

definition logMsg :: "frame list \<Rightarrow> string \<Rightarrow> string \<Rightarrow> string \<Rightarrow> string list \<Rightarrow> string list" where
  "logMsg stack nodeName funcName m log = log @ [msg (Some ''p2p.logMsg'' # stack) nodeName funcName m]"

definition logError :: "frame list \<Rightarrow> string \<Rightarrow> string \<Rightarrow> string \<Rightarrow> string \<Rightarrow> string list \<Rightarrow> string list" where
  "logError stack nodeName funcName err description log =
     (let m = Sprintf (''%v'' @ newline @ tab @ ''%v'') [description, err]
      in log @ [msg (Some ''p2p.logError'' # stack) nodeName funcName m])"

definition logMsg2 :: "frame list \<Rightarrow> string \<Rightarrow> string \<Rightarrow> string list \<Rightarrow> string list" where
  "logMsg2 stack funcName m log = log @ [msg (Some ''p2p.logMsg2'' # stack) '''' funcName m]"

definition logError2 :: "frame list \<Rightarrow> string \<Rightarrow> string \<Rightarrow> string \<Rightarrow> string list \<Rightarrow> string list" where
  "logError2 stack funcName err description log =
     (let m = Sprintf (''%v'' @ newline @ tab @ ''%v'') [description, err]
      in log @ [msg (Some ''p2p.logError2'' # stack) '''' funcName m])"

section \<open>What building a message logs\<close>

text \<open>The first statement of each constructor; \<open>show_key\<close> prints the message key, an array type of immutable storage.\<close>

definition log_NewCoverMessage :: "frame list \<Rightarrow> bytes \<Rightarrow> int \<Rightarrow> string list \<Rightarrow> string list" where
  "log_NewCoverMessage stack proxyPublicKey symmetricKey log =
     logMsg2 (Some ''p2p.NewCoverMessage'' # stack) ''NewCoverMessage''
       (Sprintf ''create cover message with proxy key = %v, symmetric key = %v''
          [show_bytes proxyPublicKey, show_Int symmetricKey]) log"

definition show_DataMessage :: "(bytes \<Rightarrow> string) \<Rightarrow> DataMessage \<Rightarrow> string" where
  "show_DataMessage show_key dm = ''{'' @ show_key (dm_Key dm) @ '' '' @ show_bytes (dm_Content dm) @ ''}''"

definition log_NewRealMessage ::
    "(bytes \<Rightarrow> string) \<Rightarrow> frame list \<Rightarrow> DataMessage \<Rightarrow> bytes \<Rightarrow> int \<Rightarrow> string list \<Rightarrow> string list" where
  "log_NewRealMessage show_key stack dm proxyPublicKey symmetricKey log =
     logMsg2 (Some ''p2p.NewRealMessage'' # stack) ''NewRealMessage''
       (Sprintf (''dm = %v'' @ newline @ ''proxyPublicKey = %v'' @ newline @ ''symmetricKey = %v'' @ newline)
          [show_DataMessage show_key dm, show_bytes proxyPublicKey, show_Int symmetricKey]) log"

text \<open>
  The whole of \<open>NewRealMessage\<close> with its log statements.  A failing encoder logs its input before the caller logs the
  error; the second encoding is the one whose caller does not.  \<open>printers\<close> has the texts of errors, message keys and the two
  structures that are encoded.
\<close>

record printers =
  sh_error :: "go_error \<Rightarrow> string"
  sh_key :: "bytes \<Rightarrow> string"
  sh_asym :: "AsymetricEncryptDataMessage \<Rightarrow> string"
  sh_sym :: "SymmetricEncryptDataMessage \<Rightarrow> string"

definition gobEncodeToBytes ::
    "('r \<Rightarrow> go_error + bytes) \<Rightarrow> ('r \<Rightarrow> string) \<Rightarrow> printers \<Rightarrow> frame list \<Rightarrow> 'r \<Rightarrow> string list \<Rightarrow> (go_error + bytes) \<times> string list" where
  "gobEncodeToBytes encode show_req P stack req log =
     (case encode req of
        Inl err \<Rightarrow>
          (Inl err, logError2 (Some ''p2p.gobEncodeToBytes'' # stack) ''gobEncodeToBytes'' (sh_error P err)
             (Sprintf (''input = %v'' @ newline) [show_req req]) log)
      | Inr bs \<Rightarrow> (Inr bs, log))"

definition asym_ToBytes ::
    "gob \<Rightarrow> printers \<Rightarrow> frame list \<Rightarrow> AsymetricEncryptDataMessage \<Rightarrow> string list \<Rightarrow> (go_error + bytes) \<times> string list" where
  "asym_ToBytes G P stack = gobEncodeToBytes (enc_Asym G) (sh_asym P) P (Some ''p2p.(*AsymetricEncryptDataMessage).ToBytes'' # stack)"

definition sym_ToBytes ::
    "gob \<Rightarrow> printers \<Rightarrow> frame list \<Rightarrow> SymmetricEncryptDataMessage \<Rightarrow> string list \<Rightarrow> (go_error + bytes) \<times> string list" where
  "sym_ToBytes G P stack = gobEncodeToBytes (enc_Sym G) (sh_sym P) P (Some ''p2p.(*SymmetricEncryptDataMessage).ToBytes'' # stack)"

definition logged_NewRealMessage ::
    "printers \<Rightarrow> frame list \<Rightarrow> lib \<Rightarrow> gob \<Rightarrow> nat \<Rightarrow> DataMessage \<Rightarrow> bytes \<Rightarrow> int \<Rightarrow> string list
      \<Rightarrow> (go_error + ApplicationMessage) \<times> string list" where
  "logged_NewRealMessage P stack L G t dm proxyPublicKey symmetricKey log =
     (let here = Some ''p2p.NewRealMessage'' # stack;
          failed = (\<lambda>err what log. (Inl err, logError2 here ''NewRealMessage'' (sh_error P err) what log));
          log1 = log_NewRealMessage (sh_key P) stack dm proxyPublicKey symmetricKey log
      in case asym_ToBytes G P here (CreateAsymmetricEncryptionInput L t dm) log1 of
           (Inl err, log2) \<Rightarrow> failed err ''asymInput.ToBytes()'' log2
         | (Inr asymInputBytes, log2) \<Rightarrow>
             (case AsymmetricEncrypt L (t + 1) asymInputBytes proxyPublicKey of
                Inl err \<Rightarrow> failed err ''AsymmetricEncrypt(asymInputBytes, proxyPublicKey)'' log2
              | Inr asymOutput \<Rightarrow>
                  (case sym_ToBytes G P here \<lparr>sym_Type = Real, sym_AsymetricEncryptedPayload = asymOutput\<rparr> log2 of
                     (Inl err, log3) \<Rightarrow> (Inl err, log3)
                   | (Inr symInputBytes, log3) \<Rightarrow>
                       (case SymmetricEncrypt L (t + 2) symInputBytes symmetricKey of
                          Inl err \<Rightarrow> failed err ''SymmetricEncrypt(symInputBytes, symmetricKey)'' log3
                        | Inr symOutput \<Rightarrow> (Inr \<lparr>am_SymmetricEncryptedPayload = symOutput\<rparr>, log3)))))"

section \<open>Entries can be read back\<close>

lemma split_unique:
  assumes "list_all P xs" and "list_all P ys" and "r = [] \<or> \<not> P (hd r)" and "r' = [] \<or> \<not> P (hd r')"
    and "xs @ r = ys @ r'"
  shows "xs = ys \<and> r = r'"
proof -
  have "takeWhile P (us @ v) = us" "dropWhile P (us @ v) = v" if "list_all P us" "v = [] \<or> \<not> P (hd v)" for us v
    using that by (induction us) (auto simp: takeWhile_eq_Nil_iff dropWhile_eq_self_iff)
  then show ?thesis
    using assms by metis
qed

definition is_digit :: "char \<Rightarrow> bool" where
  "is_digit c \<longleftrightarrow> 48 \<le> (of_char c :: nat) \<and> (of_char c :: nat) < 58"

definition read_digits :: "string \<Rightarrow> nat" where
  "read_digits s = fold (\<lambda>c n. 10 * n + (of_char c - 48)) s 0"

lemma unat_digit: "d < 10 \<Longrightarrow> unat (word_of_nat (48 + d) :: byte) = 48 + d"
  unfolding unat_of_nat by simp

lemma Itoa_rec: "Itoa n = (if n < 10 then [] else Itoa (n div 10)) @ [char_of (48 + n mod 10)]"
proof -
  have "decimal n = (if n < 10 then [] else decimal (n div 10)) @ [word_of_nat (48 + n mod 10)]"
    by (subst decimal.simps) simp
  then show ?thesis
    unfolding Itoa_def using unat_digit [of "n mod 10"] by (simp del: of_nat_add of_nat_numeral)
qed

lemma Itoa_digits: "list_all is_digit (Itoa n) \<and> Itoa n \<noteq> [] \<and> read_digits (Itoa n) = n"
proof (induction n rule: less_induct)
  case (less n)
  let ?c = "char_of (48 + n mod 10) :: char"
  have c: "of_char ?c = (48 + n mod 10 :: nat)"
    by simp
  have "is_digit ?c" "Itoa n = (if n < 10 then [] else Itoa (n div 10)) @ [?c]"
    by (simp add: is_digit_def) (rule Itoa_rec)
  then show ?case
    using less [of "n div 10"] c by (auto simp: read_digits_def)
qed

fun rest_text :: "nat list \<Rightarrow> string" where
  "rest_text [] = '']''"
| "rest_text (n # ns) = '' '' @ Itoa n @ rest_text ns"

lemma spaced_rest: "spaced (map Itoa (n # ns)) @ '']'' = Itoa n @ rest_text ns"
  by (induction ns arbitrary: n) simp_all

lemma rest_text_stops: "rest_text ns @ r = [] \<or> \<not> is_digit (hd (rest_text ns @ r))"
  by (cases ns) (simp_all add: is_digit_def)

lemma Itoa_unique: "Itoa n @ rest_text ns @ r = Itoa m @ rest_text ms @ r' \<longleftrightarrow> n = m \<and> rest_text ns @ r = rest_text ms @ r'"
  using split_unique [of is_digit "Itoa n" "Itoa m" "rest_text ns @ r" "rest_text ms @ r'"] rest_text_stops Itoa_digits
  by metis

lemma rest_text_unique: "rest_text ns @ r = rest_text ms @ r' \<longleftrightarrow> ns = ms \<and> r = r'"
proof (induction ns arbitrary: ms)
  case Nil
  then show ?case by (cases ms) auto
next
  case (Cons n ns)
  show ?case
  proof (cases ms)
    case Nil
    then show ?thesis by simp
  next
    case (Cons m ms')
    then show ?thesis
      using Cons.IH [of ms'] Itoa_unique [of n ns r m ms' r'] by simp
  qed
qed

lemma show_nats_unique: "show_nats ns @ r = show_nats ms @ r' \<longleftrightarrow> ns = ms \<and> r = r'"
proof -
  have parts: "show_nats [] @ q = ''['' @ '']'' @ q" "show_nats (k # ks) @ q = ''['' @ Itoa k @ rest_text ks @ q" for k ks q
    using arg_cong [OF spaced_rest, of "\<lambda>s. s @ q"] by (simp_all add: show_nats_def del: spaced.simps(2,3) list.map(2))
  have digit: "Itoa k @ q \<noteq> CHR '']'' # q'" for k q q'
    using Itoa_digits [of k] by (cases "Itoa k") (auto simp: is_digit_def)
  show ?thesis
  proof (cases ns; cases ms)
    fix n ns' m ms'
    assume "ns = n # ns'" "ms = m # ms'"
    then show ?thesis
      using Itoa_unique [of n ns' r m ms' r'] rest_text_unique [of ns' r ms' r'] by (simp add: parts)
  qed (use digit digit [symmetric] in \<open>simp_all add: parts\<close>)
qed

lemma show_bytes_unique: "show_bytes xs @ r = show_bytes ys @ r' \<longleftrightarrow> xs = ys \<and> r = r'"
  using show_nats_unique [of "map unat xs" r "map unat ys" r'] by (simp add: show_bytes_def inj_map_eq_map inj_on_def word_unat_eq_iff)

lemma limbs_value: "foldr (\<lambda>w n. w + 2 ^ 64 * n) (limbs n) 0 = n"
proof (induction n rule: limbs.induct)
  case (1 n)
  then show ?case
    by (cases "n = 0") (subst limbs.simps, simp)+
qed

lemma limbs_unique: "limbs n = limbs m \<longleftrightarrow> n = m"
  using limbs_value by metis

lemma show_Int_unique: "show_Int x @ r = show_Int y @ r' \<longleftrightarrow> x = y \<and> r = r'"
  using show_nats_unique [of "limbs (nat \<bar>x\<bar>)" "''}'' @ r" "limbs (nat \<bar>y\<bar>)" "''}'' @ r'"]
  by (auto simp: show_Int_def limbs_unique)

lemmas printed_unique = show_bytes_unique show_Int_unique show_Int_unique [of _ "[]" _ "[]", simplified]

lemma msg_text:
  "msg stack nodeName triggerPoint m =
     ''Log from '' @ nodeName @ '' at'' @ newline @ tab @ ''caller: '' @ getCallerName (Some ''p2p.msg'' # stack) @ newline @ tab @
     ''callee: '' @ triggerPoint @ newline @ tab @ tab @ m @ newline @ newline"
  by (simp add: msg_def entry_format_def newline_def tab_def)

lemma getCallerName_frames:
  "getCallerName (Some ''p2p.msg'' # logger # f # g # stack) = (case g of None \<Rightarrow> ''unknown caller'' | Some name \<Rightarrow> name)"
  "getCallerName [Some ''p2p.msg'', logger, f] = ''unknown caller''"
  by (simp_all add: getCallerName_def runtime_Caller_def split: option.split)

definition one_line :: "string \<Rightarrow> bool" where
  "one_line s \<longleftrightarrow> list_all (\<lambda>c. c \<noteq> CHR 0x0A) s"

lemma line_unique: "one_line a \<Longrightarrow> one_line b \<Longrightarrow> a @ newline @ r = b @ newline @ r' \<longleftrightarrow> a = b \<and> r = r'"
  using split_unique [of "\<lambda>c. c \<noteq> CHR 0x0A" a b "newline @ r" "newline @ r'"] by (auto simp: one_line_def newline_def)

text \<open>
  An entry of the log says who logged what.  The caller it names is the function that called
  the logging function, and what is logged is copied into it unchanged, so that the node, the caller, the place and
  the message can be read back: entries whose names have one line are equal only if all four parts are.
\<close>

theorem entries_readable:
  assumes "one_line node" and "one_line node'" and "one_line place" and "one_line place'"
    and "one_line who" and "one_line who'"
  shows "logMsg (f # Some who # stack) node place m log = logMsg (f' # Some who' # stack') node' place' m' log \<longleftrightarrow>
      node = node' \<and> who = who' \<and> place = place' \<and> m = m'"
proof -
  have at: "one_line (n @ '' at'') \<longleftrightarrow> one_line n" for n
    by (simp add: one_line_def)
  show ?thesis
    using line_unique [of "node @ '' at''" "node' @ '' at''"] line_unique [of who who'] line_unique [of place place'] assms
    by (auto simp: logMsg_def msg_text getCallerName_frames at)
qed

theorem entries_readable_witness:
  "logMsg [None, Some ''runtime.goexit''] ''n'' ''MoveUp'' ''reconnected'' [] \<noteq>
     logMsg [None, Some ''runtime.goexit''] ''n'' ''MoveUp'' ''refused'' []"
  using entries_readable [of "''n''" "''n''" "''MoveUp''" "''MoveUp''" "''runtime.goexit''" "''runtime.goexit''" None "[]"
      "''reconnected''" "[]" None "[]" "''refused''"]
  by (simp add: one_line_def)

text \<open>All the loggers name the caller alike; those without a node leave its name empty.\<close>

lemma loggers_alike:
  "logMsg2 (f # g # stack) place m log = logMsg (f # g # stack) [] place m log"
  "logError2 (f # g # stack) place err m log = logError (f # g # stack) [] place err m log"
  "logError (f # g # stack) node place err m log = logMsg (f # g # stack) node place (m @ newline @ tab @ err) log"
  by (simp_all add: logMsg_def logMsg2_def logError_def logError2_def msg_text getCallerName_frames newline_def tab_def)

text \<open>
  Property C34: the log gives the conversation away.  The entry a node writes for each cover message determines the
  proxy's public key and the symmetric key of the path, and the entry for a real message also its whole
  content: entries with different secrets differ.
\<close>

theorem log_discloses_secrets:
  "(log_NewCoverMessage stack pub k log = log_NewCoverMessage stack pub' k' log \<longleftrightarrow> pub = pub' \<and> k = k') \<and>
   (log_NewRealMessage show_key stack \<lparr>dm_Key = key, dm_Content = m\<rparr> pub k log =
      log_NewRealMessage show_key stack \<lparr>dm_Key = key, dm_Content = m'\<rparr> pub' k' log \<longleftrightarrow> m = m' \<and> pub = pub' \<and> k = k')"
  by (simp add: log_NewCoverMessage_def log_NewRealMessage_def logMsg2_def msg_text show_DataMessage_def newline_def
      printed_unique)

text \<open>
  Logging changes no result, the entry that names the content and both keys is written first on every branch, and one
  that succeeds writes nothing else.  A failure is logged after it, so that no call fails silently.
\<close>

theorem logged_result:
  "\<exists>errors. logged_NewRealMessage P stack L G t dm pub k log =
       (NewRealMessage L G t dm pub k, log_NewRealMessage (sh_key P) stack dm pub k log @ errors) \<and>
     (errors = [] \<longleftrightarrow> (\<exists>am. NewRealMessage L G t dm pub k = Inr am)) \<and> length errors \<le> 2"
  by (auto simp: logged_NewRealMessage_def NewRealMessage_def seal_data_message_def asym_ToBytes_def sym_ToBytes_def
      gobEncodeToBytes_def logError2_def Let_def split: sum.splits)

end
