(* ===== verification/Workers.thy ===== *)
theory Workers
  imports Forming NodeSystem
begin

text \<open>
  The endless loops around the two maintenance workers, \<open>maintainPathsHealthWorker\<close> and \<open>maintainPathQuantityWorker\<close> of
  \<open>p2p/workers.go\<close>: the iterations that have been run, each followed by a sleep, with what the rest of the node
  does during the sleep as an argument.
\<close>

text \<open>One iteration after the other; \<open>meanwhile i\<close> is the node's other activity during the sleep after iteration \<open>i\<close>.\<close>

definition worker_loop :: "(nat \<Rightarrow> state \<Rightarrow> state outcome) \<Rightarrow> (nat \<Rightarrow> state \<Rightarrow> state) \<Rightarrow> nat \<Rightarrow> state \<Rightarrow> state outcome" where
  "worker_loop iteration meanwhile n s =
     ofold (\<lambda>i s. obind (iteration i s) (\<lambda>s'. Ret (meanwhile i (tick s')))) [0..<n] s"

definition maintainPathsHealthWorker :: "env \<Rightarrow> (nat \<Rightarrow> state \<Rightarrow> state) \<Rightarrow> nat \<Rightarrow> state \<Rightarrow> state outcome" where
  "maintainPathsHealthWorker E meanwhile n s = worker_loop (\<lambda>i. maintainPathsHealth E) meanwhile n s"

text \<open>\<open>rounds i\<close> is the number of attempts until the timer of iteration \<open>i\<close> has fired.\<close>

definition maintainPathQuantityWorker ::
    "env \<Rightarrow> (nat \<Rightarrow> nat) \<Rightarrow> (nat \<Rightarrow> state \<Rightarrow> state) \<Rightarrow> nat \<Rightarrow> state \<Rightarrow> state outcome" where
  "maintainPathQuantityWorker E rounds meanwhile n s =
     worker_loop (\<lambda>i. maintainPathQuantity E (rounds i)) meanwhile n s"

lemma worker_loop_invariant:
  assumes "worker_loop iteration meanwhile n s = Ret s'" and "I s"
    and "\<And>i s s'. I s \<Longrightarrow> iteration i s = Ret s' \<Longrightarrow> I (meanwhile i (tick s'))"
  shows "I s'"
  using assms(1,2) unfolding worker_loop_def
  by (induction n arbitrary: s') (auto simp: ofold_append outcome_simps intro: assms(3))

text \<open>However long they run, the workers keep the node within its reachable states, if its other activity does.\<close>

lemma health_worker_reachable:
  assumes "maintainPathsHealthWorker E meanwhile n s = Ret s'" and "reach node_start (node_step E) s"
    and "\<And>i s. reach node_start (node_step E) s \<Longrightarrow> reach node_start (node_step E) (meanwhile i s)"
  shows "reach node_start (node_step E) s'"
  using assms(1) unfolding maintainPathsHealthWorker_def
  by (rule worker_loop_invariant) (blast intro: assms(2,3) reach_step step_health step_time)+

lemma quantity_worker_reachable:
  assumes "maintainPathQuantityWorker E rounds meanwhile n s = Ret s'" and "reach node_start (node_step E) s"
    and "\<And>i s. reach node_start (node_step E) s \<Longrightarrow> reach node_start (node_step E) (meanwhile i s)"
  shows "reach node_start (node_step E) s'"
  using assms(1) unfolding maintainPathQuantityWorker_def
  by (rule worker_loop_invariant) (blast intro: assms(2,3) reach_step step_quantity step_time)+

text \<open>
  While the node's other activity adds no paths, any number of iterations of the quantity worker leaves it with at most
  its target number of paths, or the number it began with.
\<close>

theorem quantity_worker_bounded:
  assumes "maintainPathQuantityWorker E rounds meanwhile n s = Ret s'" and "node_inv E s"
    and "\<And>i s. node_inv E s \<Longrightarrow> node_inv E (meanwhile i s) \<and> getSize (paths (meanwhile i s)) \<le> getSize (paths s)"
  shows "int (getSize (paths s')) \<le> max (int (getSize (paths s))) (TARGET_NUMBER_OF_CONNECTED_PATHS (e_cfg E))"
proof -
  let ?most = "max (int (getSize (paths s))) (TARGET_NUMBER_OF_CONNECTED_PATHS (e_cfg E))"
  have "node_inv E s' \<and> int (getSize (paths s')) \<le> ?most"
    using assms(1) unfolding maintainPathQuantityWorker_def
  proof (rule worker_loop_invariant)
    fix i u u'
    assume u: "node_inv E u \<and> int (getSize (paths u)) \<le> ?most" and run: "maintainPathQuantity E (rounds i) u = Ret u'"
    then have "node_inv E (tick u')" "int (getSize (paths u')) \<le> ?most"
      using maintainPathQuantity_inv [OF run] maintainPathQuantity_bound [OF _ run] by (auto simp: tick_inv)
    moreover have "paths (tick u') = paths u'"
      by (simp add: tick_def)
    ultimately show "node_inv E (meanwhile i (tick u')) \<and> int (getSize (paths (meanwhile i (tick u')))) \<le> ?most"
      using assms(3) [of "tick u'" i] by simp
  qed (use assms(2) in simp)
  then show ?thesis
    by simp
qed

theorem quantity_worker_bounded_witness:
  "\<exists>s'. maintainPathQuantityWorker sample_env (\<lambda>i. 4) (\<lambda>i s. s) 1 node0 = Ret s' \<and> int (getSize (paths s')) \<le> 3"
proof -
  have run: "maintainPathQuantityWorker sample_env (\<lambda>i. 4) (\<lambda>i s. s) 1 node0 = Ret (tick (tick node0))"
    by (simp add: maintainPathQuantityWorker_def worker_loop_def maintainPathQuantity_def needMorePaths_def getSize_def
        getMorePaths_def sample_env_def)
  have "node_inv sample_env node0"
    by (simp add: node0_def node_inv_NewNode)
  then have "int (getSize (paths (tick (tick node0)))) \<le> 3"
    using quantity_worker_bounded [OF run] by (simp add: getSize_def sample_env_def sample_cfg_def)
  with run show ?thesis by blast
qed

end
