(* ===== verification/Spec2Isabelle.thy ===== *)
theory Spec2Isabelle
  imports Startup Overlay FormingRace Neighbour Http Health Link Journey Forming PublishJob AdmissionRace Mocks
    HealthLocks MoveUpRace CoverRace Network Logging Workers
begin

text \<open>
  Forus-Core: a verification library for the node program under \<open>src/p2p\<close>.

  THE PROGRAM.  Nodes form trees of paths that lead to proxies, which store messages in ImmutableStorage.
  A node keeps the paths it sends along, the covers that send to it, and a key for each of them.  It publishes by
  sealing a message for the proxy of a path and again for the next hop; every node on the way removes the outer
  layer and adds the next one; the proxy opens the inner layer and stores the message.  Workers send cover
  messages, receive, watch publish jobs, look for more paths, and repair or replace bad ones.

  THE MODEL.  A node is the record \<open>state\<close> (theory \<open>NodeState\<close>): the fields of the struct \<open>Node\<close> and,
  for the Go runtime, a clock, the cancelled contexts, the goroutines started, the connections opened and closed,
  and logs of responses, application messages and stores.  What is not in the repository is the record \<open>env\<close>: the
  configuration, the ecc package, GCM and the random sources (\<open>lib\<close>, theory \<open>Codec\<close>), the gob encoders
  (\<open>gob\<close>, theory \<open>Messages\<close>), dialling, writing, what arrives, the two gRPC services and map iteration orders,
  each answer a function of the time it is asked for, so that statements over all environments cover all
  peers and timings.  A function that can panic returns \<open>'a outcome\<close>; a pair of a value and an error is a sum.
  Documented behaviour of libraries (\<open>ecc_pair\<close>, \<open>ecc_alien\<close>, \<open>gcm_correct\<close>, \<open>gcm_authentic\<close>,
  \<open>uuid_lib_correct\<close>, \<open>gob_correct\<close>) appears only as hypotheses, and \<open>Samples\<close> has an instance of all of them.

  THE THEORIES, in the order in which they build on each other.
    \<open>Prelude\<close>: outcomes, panics, sequencing, loops that may panic, association lists.
    \<open>MutexMap\<close>: \<open>mutexmap.go\<close>, \<open>utils.go\<close>; the contract \<open>guarded_table\<close> and its interpretation \<open>mm\<close>.
    \<open>BigBytes\<close>: big integers and identifiers as bytes.
    \<open>Codec\<close>, \<open>Sealing\<close>: \<open>codec.go\<close>; the contract \<open>key_agreement\<close> and its interpretation \<open>dh\<close>; round trips,
      acceptable keys, panics.
    \<open>Messages\<close>: \<open>msg_protocol.go\<close>, \<open>msg_data.go\<close>, \<open>encoding.go\<close>.
    \<open>Config\<close>: \<open>configs.go\<close>, as the calls it makes on viper, and what viper documents.
    \<open>NodeState\<close>: \<open>profiles.go\<close>, \<open>transport.go\<close>, the struct and constructor of \<open>node.go\<close>; well-formed tables.
    \<open>HostPort\<close>, \<open>Base64\<close>: the parts of Go's standard library whose results the handlers branch on.
    \<open>Client\<close>: requests (\<open>handlers_tcp.go\<close>) and \<open>QueryPath\<close>, \<open>ConnectPath\<close>, \<open>CreateProxy\<close> (\<open>node.go\<close>).
    \<open>Server\<close>: the request handlers (\<open>handlers_tcp.go\<close>) and the dispatch (\<open>node.go\<close>).
    \<open>Traffic\<close>: \<open>Publish\<close>, \<open>Forward\<close>, \<open>Read\<close> (\<open>node.go\<close>), received messages and job results (\<open>workers.go\<close>).
    \<open>Maintenance\<close>: the workers of \<open>workers.go\<close>, one iteration or round each.
    \<open>Invariants\<close>, \<open>Preservation\<close>: the invariant \<open>node_inv\<close>, one lemma per operation.
    \<open>Transitions\<close>: reachability and three proof principles as locales: \<open>inductive_invariant\<close> (safety),
      \<open>forward_simulation\<close> (refinement), \<open>fair_progress\<close> (liveness by a measure under a fair scheduler).
    \<open>NodeSystem\<close>: the node as a transition system whose steps are whole operations (interpretation \<open>node_system\<close>).
    \<open>Samples\<close>: a concrete environment and nodes, used by the evaluated instances only.
    \<open>Admission\<close>: decisions and failures of the two accepting handlers.
    \<open>Peers\<close>: what a node receives when another, in a given state, handles its message; by this peers that follow the
      code are distinguished from arbitrary ones.
    \<open>Link\<close>, \<open>Delivery\<close>: two connected nodes; a message along a chain of nodes.
    \<open>Neighbour\<close>: a node asking another for its paths, and the health check against the other node's own table.
    \<open>Journey\<close>: \<open>Publish\<close> on one node composed with the handlers of the chain its message is sent into.
    \<open>Publishing\<close>, \<open>Forming\<close>, \<open>Health\<close>: what \<open>Publish\<close>, path formation and repair do on every branch.
    \<open>Overlay\<close>: an abstract specification of what the network sees of a node (next hops, covers and their trees, job
      states) with guarded events, and the proof that the node refines it (interpretation \<open>node_overlay\<close>).
    \<open>Offers\<close>: \<open>ConnectPath\<close> after \<open>QueryPath\<close>: where the hops of a new path come from, and whose they are.
    \<open>Trees\<close>: a network, a node for each address, whose steps are the operations of its nodes (interpretation
      \<open>trees\<close>): under which conditions its trees stay free of cycles.
    \<open>Loops\<close>: how a cycle comes about when a condition fails, and why the health check does not notice it.
    \<open>Founding\<close>: \<open>CreateProxy\<close> and \<open>QueryPath\<close> with \<open>ConnectPath\<close> against the other node's handlers, composed with
      \<open>Publish\<close> and the handlers of the chain: trees that are built by the requests carry messages.
    \<open>Network\<close>: a network in which requests change the asking node and the answering node in one step (interpretation
      \<open>web\<close>): the two ends of every link have the same key, and published messages arrive in every reachable network.
    \<open>HealthLocks\<close>: the health checks of several nodes with the locks they hold and need, as a step relation
      (interpretation \<open>health_checks\<close>): when they block each other.
    \<open>PublishJob\<close>, \<open>AdmissionRace\<close>, \<open>FormingRace\<close>: the places where goroutines interleave inside one operation, as
      step relations (interpretations \<open>job_run\<close>, \<open>job_progress\<close>, \<open>race\<close>, \<open>forming\<close>).
    \<open>MoveUpRace\<close>: the cleanup of a path that is moved up, in parts, against the parts of \<open>ConnectPath\<close> that replace it,
      with \<open>Publish\<close> and job results in between (interpretation \<open>moving_up\<close>).
    \<open>CoverRace\<close>: the two goroutines of a cover worker (interpretation \<open>cover_goroutines\<close>): the round of \<open>Maintenance\<close> is one of
      their runs, and what they leave behind when the worker returns.
    \<open>Http\<close>: \<open>handlers_http.go\<close>, \<open>msg_json.go\<close>.
    \<open>Startup\<close>: the service clients of \<open>grpc_transport.go\<close>, start-up, the accept loop and the routes of \<open>node.go\<close>, the
      waiting loops of \<open>mocks.go\<close>.
    \<open>Workers\<close>: the endless loops around the two maintenance workers.
    \<open>Logging\<close>: \<open>loggers.go\<close>, the texts it prints, and what the encoder and the message constructors log.
    \<open>Mocks\<close>: the two service mocks of \<open>mocks.go\<close>, and the caches several of them share.

  BOUNDS.  \<open>getMorePaths_loop\<close> counts the attempts that finish before its timer; the loop of \<open>NewKeyExchange\<close>
  is shown to end; the retry loops of start-up and of the mocks are partial functions whose value \<open>None\<close> is not
  returning, and when they return is a theorem; no other loop of the model is bounded by fuel.  The counters of a path are unbounded
  integers; message types are 64-bit words; keys and secrets are unbounded integers, as in \<open>math/big\<close>.

  ATOMICITY.  A step of \<open>NodeSystem\<close> runs an operation to its end.  Where the code takes its locks one
  after the other inside an operation, \<open>AdmissionRace\<close> and \<open>PublishJob\<close> give the interleavings, and \<open>FormingRace\<close>
  those of the attempts that outlive their round; \<open>HealthLocks\<close> interleaves the health checks of several nodes with
  the queries they ask and with writers of the path tables; \<open>MoveUpRace\<close> takes apart the cleanup of a worker and the
  installation of a path, \<open>CoverRace\<close> a round of a cover worker; the other operations are not taken apart.  The goroutines of one
  health iteration run in list order.  In \<open>Trees\<close> an operation of one node is a step of the network, and what
  its peers answer is arbitrary; that a node joins below nobody of its own tree, and that recorded second hops and repaired paths are accurate,
  are guards of the steps, and \<open>Loops\<close> shows that the code does not ensure the first.  In \<open>Network\<close> a connect, proxy or
  move-up request is one step of the two nodes, whose answer may be lost; the node that is asked handles nothing else
  meanwhile, a node is entered as a cover of a tree only when it does not lead there already (\<open>QueryPath\<close> passes over such
  trees), and a repair finds the path with the next hop and key it had when it was examined.

  NOT MODELLED.  Signals and process control (the time of the interrupt is an argument of
  \<open>StartNode\<close>),
  the log statements outside \<open>loggers.go\<close> and \<open>encoding.go\<close>, JSON, the matching of paths and the recovery of panics in the HTTP router, the gRPC
  servers of the mocks; memory use, and goroutines that are left waiting
  outside \<open>CoverRace\<close> and \<open>PublishJob\<close>.  Viper, the gRPC stubs and \<open>grpc.Dial\<close> are
  parameters.

  CONTINUING.  Next in this library: requests split into sending, handling and answering as steps of their own in \<open>Network\<close>,
  with several under way at a time; the accuracy of recorded second hops in \<open>Trees\<close> as an invariant of such steps.
\<close>

end
